(* ===== verification/Prelude.thy ===== *)
theory Prelude
  imports Main "HOL-Library.AList" "HOL-Library.Word"
begin

text \<open>
  Shared vocabulary of the development: the named theorem collections, the finite-width
  arithmetic that C++ integers need, the containers of the C++ library as lists
  (\<open>std::unordered_map\<close> as an association list, \<open>std::unordered_set\<close> as a duplicate-free
  list), and two interfaces that several components share: a codec that can be iterated
  (locale \<open>codec\<close>) and a deterministic machine with an invariant (locale \<open>machine\<close>).

  The iteration order of \<open>std::unordered_map\<close> and \<open>std::unordered_set\<close> is unspecified in
  C++.  The order of the list stands for that order: a new key goes to the end, an erased key
  leaves the rest in place.  Theorems about operations that iterate are stated up to that
  order (sets, lookups, lengths).
\<close>

section \<open>Theorem collections\<close>

named_theorems cpp_int \<open>finite-width integer arithmetic\<close>
named_theorems container \<open>laws of the container operations\<close>

section \<open>Finite-width integers\<close>

text \<open>
  \<open>int\<close> is 32 bits wide, \<open>int64_t\<close> and \<open>long long\<close> are 64 bits wide, \<open>size_t\<close> is an unsigned
  64-bit type.  \<open>wrap32\<close> and \<open>wrap64\<close> are the two's complement readings.
\<close>

definition wrap32 :: "int \<Rightarrow> int" where
  "wrap32 x = (x + 2 ^ 31) mod 2 ^ 32 - 2 ^ 31"

definition wrap64 :: "int \<Rightarrow> int" where
  "wrap64 x = (x + 2 ^ 63) mod 2 ^ 64 - 2 ^ 63"

definition size_wrap :: "int \<Rightarrow> nat" where
  "size_wrap x = nat (x mod 2 ^ 64)"

lemma wrap32_id [simp, cpp_int]: "- (2 ^ 31) \<le> x \<Longrightarrow> x < 2 ^ 31 \<Longrightarrow> wrap32 x = x"
  by (simp add: wrap32_def)

lemma wrap64_id [simp, cpp_int]: "- (2 ^ 63) \<le> x \<Longrightarrow> x < 2 ^ 63 \<Longrightarrow> wrap64 x = x"
  by (simp add: wrap64_def)

lemma wrap32_bounds [cpp_int]: "- (2 ^ 31) \<le> wrap32 x" "wrap32 x < 2 ^ 31"
proof -
  have "0 \<le> (x + 2 ^ 31) mod 2 ^ 32" "(x + 2 ^ 31) mod 2 ^ 32 < (2 ^ 32 :: int)"
    by (simp_all only: pos_mod_sign pos_mod_bound zero_less_power zero_less_numeral)
  then show "- (2 ^ 31) \<le> wrap32 x" "wrap32 x < 2 ^ 31"
    by (simp_all add: wrap32_def)
qed

lemma wrap64_bounds [cpp_int]: "- (2 ^ 63) \<le> wrap64 x" "wrap64 x < 2 ^ 63"
proof -
  have "0 \<le> (x + 2 ^ 63) mod 2 ^ 64" "(x + 2 ^ 63) mod 2 ^ 64 < (2 ^ 64 :: int)"
    by (simp_all only: pos_mod_sign pos_mod_bound zero_less_power zero_less_numeral)
  then show "- (2 ^ 63) \<le> wrap64 x" "wrap64 x < 2 ^ 63"
    by (simp_all add: wrap64_def)
qed

lemma size_wrap_bound [cpp_int]: "size_wrap x < 2 ^ 64"
proof -
  have "x mod 2 ^ 64 < (2 ^ 64 :: int)" by (simp only: pos_mod_bound zero_less_power zero_less_numeral)
  then show ?thesis by (simp add: size_wrap_def nat_less_iff)
qed

lemma size_wrap_id [simp, cpp_int]: "n < 2 ^ 64 \<Longrightarrow> size_wrap (int n) = n"
  by (simp add: size_wrap_def)

section \<open>Maps and sets of the C++ library\<close>

type_synonym ('k, 'v) umap = "('k \<times> 'v) list"
type_synonym 'a uset = "'a list"

abbreviation umap_wf :: "('k, 'v) umap \<Rightarrow> bool" where
  "umap_wf m \<equiv> distinct (map fst m)"

lemma map_of_update [simp, container]:
  "map_of (AList.update k v m) k' = (if k' = k then Some v else map_of m k')"
  by (simp add: update_conv')

lemma map_of_delete [simp, container]:
  "map_of (AList.delete k m) k' = (if k' = k then None else map_of m k')"
  by (simp add: delete_conv')

lemma update_update: "AList.update k x (AList.update k y m) = AList.update k x m"
  by (induction m) auto

lemma umap_wf_update [simp, container]: "umap_wf m \<Longrightarrow> umap_wf (AList.update k v m)"
  by (rule distinct_update)

lemma umap_wf_delete [simp, container]: "umap_wf m \<Longrightarrow> umap_wf (AList.delete k m)"
  by (rule distinct_delete)

lemma length_delete [container]:
  assumes "umap_wf m"
  shows "length (AList.delete k m) = length m - (if k \<in> fst ` set m then 1 else 0)"
  using assms
  by (induction m) (auto simp: AList.delete_eq filter_id_conv image_iff dest: length_pos_if_in_set)

lemma update_id_conv: "map_of m k = Some v \<Longrightarrow> AList.update k v m = m"
  by (induction m) auto

lemma map_of_Some_in: "map_of m k = Some v \<Longrightarrow> k \<in> fst ` set m"
  by (force dest: map_of_SomeD)

text \<open>\<open>unordered_set::insert\<close> and \<open>unordered_set::erase\<close>.\<close>

definition uset_insert :: "'a \<Rightarrow> 'a uset \<Rightarrow> 'a uset" where
  "uset_insert x s = (if x \<in> set s then s else s @ [x])"

definition uset_erase :: "'a \<Rightarrow> 'a uset \<Rightarrow> 'a uset" where
  "uset_erase x s = filter (\<lambda>y. y \<noteq> x) s"

definition uset_insert_all :: "'a list \<Rightarrow> 'a uset \<Rightarrow> 'a uset" where
  "uset_insert_all xs s = fold uset_insert xs s"

definition uset_erase_all :: "'a list \<Rightarrow> 'a uset \<Rightarrow> 'a uset" where
  "uset_erase_all xs s = fold uset_erase xs s"

lemma set_uset_insert [simp, container]: "set (uset_insert x s) = insert x (set s)"
  by (auto simp: uset_insert_def)

lemma set_uset_erase [simp, container]: "set (uset_erase x s) = set s - {x}"
  by (auto simp: uset_erase_def)

lemma distinct_uset_insert [simp, container]: "distinct s \<Longrightarrow> distinct (uset_insert x s)"
  by (simp add: uset_insert_def)

lemma distinct_uset_erase [simp, container]: "distinct s \<Longrightarrow> distinct (uset_erase x s)"
  by (simp add: uset_erase_def)

lemma set_uset_insert_all [simp, container]: "set (uset_insert_all xs s) = set s \<union> set xs"
  by (induction xs arbitrary: s) (auto simp: uset_insert_all_def)

lemma set_uset_erase_all [simp, container]: "set (uset_erase_all xs s) = set s - set xs"
  by (induction xs arbitrary: s) (auto simp: uset_erase_all_def)

lemma distinct_uset_insert_all [simp, container]:
  "distinct s \<Longrightarrow> distinct (uset_insert_all xs s)"
  by (induction xs arbitrary: s) (auto simp: uset_insert_all_def)

lemma distinct_uset_erase_all [simp, container]:
  "distinct s \<Longrightarrow> distinct (uset_erase_all xs s)"
  by (induction xs arbitrary: s) (auto simp: uset_erase_all_def)

lemma length_distinct_card: "distinct s \<Longrightarrow> length s = card (set s)"
  by (simp add: distinct_card)

lemma uset_insert_all_fresh:
  assumes "distinct (s @ xs)"
  shows "uset_insert_all xs s = s @ xs"
  using assms
  by (induction xs arbitrary: s) (auto simp: uset_insert_all_def uset_insert_def)

section \<open>Slices\<close>

text \<open>The elements of the iterator range \<open>[begin + i, begin + j + 1)\<close>.\<close>

definition slice :: "int \<Rightarrow> int \<Rightarrow> 'a list \<Rightarrow> 'a list" where
  "slice i j xs = take (nat (j + 1 - i)) (drop (nat i) xs)"

lemma length_slice: "0 \<le> i \<Longrightarrow> i \<le> j \<Longrightarrow> j < int (length xs) \<Longrightarrow> length (slice i j xs) = nat (j + 1 - i)"
  by (simp add: slice_def)

lemma slice_nth:
  assumes "0 \<le> i" "i \<le> j" "j < int (length xs)" "n < nat (j + 1 - i)"
  shows "slice i j xs ! n = xs ! (nat i + n)"
  using assms by (simp add: slice_def)

lemma slice_all: "xs \<noteq> [] \<Longrightarrow> slice 0 (int (length xs) - 1) xs = xs"
  by (simp add: slice_def)

lemma nat_max_0: "nat (max 0 x) = nat x"
  by simp

lemma slice_map_nth:
  assumes "0 \<le> i" "j < int (length xs)"
  shows "slice i j xs = map ((!) xs) [nat i..<nat (j + 1)]"
  using assms by (intro nth_equalityI) (auto simp: slice_def nat_diff_distrib')

lemma set_slice_subset: "set (slice i j xs) \<subseteq> set xs"
  by (auto simp: slice_def dest: in_set_takeD in_set_dropD)

section \<open>Interface: a self-delimiting codec\<close>

text \<open>
  A writer and a reader of one item.  The reader returns the item and the rest of the input;
  the law says that it inverts the writer in front of any further input.  Written once, the
  iterated reader and its inverse law serve every sequence in the snapshot format.
\<close>

fun read_many :: "('b list \<Rightarrow> ('a \<times> 'b list) option) \<Rightarrow> nat \<Rightarrow> 'b list \<Rightarrow> ('a list \<times> 'b list) option" where
  "read_many rd n bs =
     (if n = 0 then Some ([], bs)
      else case rd bs of
        None \<Rightarrow> None
      | Some (x, bs') \<Rightarrow>
          (case read_many rd (n - 1) bs' of
             None \<Rightarrow> None
           | Some (xs, bs'') \<Rightarrow> Some (x # xs, bs'')))"

declare read_many.simps [simp del]

lemma read_many_0 [simp]: "read_many rd 0 bs = Some ([], bs)"
  by (simp add: read_many.simps)

lemma read_many_Suc [simp]:
  "read_many rd (Suc n) bs =
     (case rd bs of
        None \<Rightarrow> None
      | Some (x, bs') \<Rightarrow>
          (case read_many rd n bs' of
             None \<Rightarrow> None
           | Some (xs, bs'') \<Rightarrow> Some (x # xs, bs'')))"
  by (subst read_many.simps) (simp split: option.split)

locale codec =
  fixes enc :: "'a \<Rightarrow> 'b list"
    and dec :: "'b list \<Rightarrow> ('a \<times> 'b list) option"
    and ok :: "'a \<Rightarrow> bool"
  assumes dec_enc: "ok x \<Longrightarrow> dec (enc x @ rest) = Some (x, rest)"
begin

lemma read_many_enc:
  assumes "list_all ok xs"
  shows "read_many dec (length xs) (concat (map enc xs) @ rest) = Some (xs, rest)"
  using assms by (induction xs) (simp_all add: dec_enc)

lemma enc_inj: "ok x \<Longrightarrow> ok y \<Longrightarrow> enc x = enc y \<Longrightarrow> x = y"
  using dec_enc [of x "[]"] dec_enc [of y "[]"] by simp

lemma enc_prefix_free:
  assumes "ok x" "ok y" and eq: "enc x @ r = enc y @ s"
  shows "x = y \<and> r = s"
proof -
  have "dec (enc x @ r) = Some (x, r)" using assms(1) by (rule dec_enc)
  moreover have "dec (enc x @ r) = Some (y, s)" unfolding eq using assms(2) by (rule dec_enc)
  ultimately show ?thesis by simp
qed

end

section \<open>Interface: a deterministic machine with an invariant\<close>

primrec run_machine :: "('s \<Rightarrow> 'e \<Rightarrow> 's) \<Rightarrow> 's \<Rightarrow> 'e list \<Rightarrow> 's" where
  "run_machine step s [] = s"
| "run_machine step s (e # es) = run_machine step (step s e) es"

lemma run_machine_append:
  "run_machine step s (es @ fs) = run_machine step (run_machine step s es) fs"
  by (induction es arbitrary: s) simp_all

locale machine =
  fixes step :: "'s \<Rightarrow> 'e \<Rightarrow> 's"
    and inv :: "'s \<Rightarrow> bool"
  assumes step_inv: "inv s \<Longrightarrow> inv (step s e)"
begin

lemma run_inv: "inv s \<Longrightarrow> inv (run_machine step s es)"
  by (induction es arbitrary: s) (simp_all add: step_inv)

end

end
