(* ===== verification/Cpp_Std.thy ===== *)
theory Cpp_Std
  imports Prelude "HOL-Library.Sublist"
begin

text \<open>
  What the sources use of the C++ standard library on strings and numbers:
  \<open>std::to_string\<close> for integers, \<open>std::stoi\<close>, \<open>std::stoll\<close> and \<open>std::stoul\<close> (white space is
  skipped, a sign is accepted, characters after the digits are ignored, \<open>stoul\<close> negates
  modulo $2^{64}$), \<open>::toupper\<close>, \<open>std::string::find\<close>, and the exceptions they throw.
  A \<open>char\<close> is a byte and a \<open>string\<close> is a list of bytes.
\<close>

section \<open>Exceptions\<close>

text \<open>
  \<open>Length_error\<close> stands for the exceptions of an impossible allocation
  (\<open>std::length_error\<close>, \<open>std::bad_alloc\<close>), which are not \<open>std::runtime_error\<close>s.
\<close>

datatype cpp_exception =
    Runtime_error string
  | Length_error
  | Invalid_argument
  | Out_of_range

type_synonym 'a result = "cpp_exception + 'a"

section \<open>Characters\<close>

definition CRLF :: string where
  "CRLF = [CHR 0x0D, CHR 0x0A]"

abbreviation CR :: char where "CR \<equiv> CHR 0x0D"
abbreviation LF :: char where "LF \<equiv> CHR 0x0A"

definition ord :: "char \<Rightarrow> nat" where
  "ord c = of_char c"

definition is_digit :: "char \<Rightarrow> bool" where
  "is_digit c \<longleftrightarrow> 48 \<le> ord c \<and> ord c \<le> 57"

definition is_space :: "char \<Rightarrow> bool" where
  "is_space c \<longleftrightarrow> ord c = 32 \<or> 9 \<le> ord c \<and> ord c \<le> 13"

definition toupper :: "char \<Rightarrow> char" where
  "toupper c = (if 97 \<le> ord c \<and> ord c \<le> 122 then char_of (ord c - 32) else c)"

lemma ord_less: "ord c < 256"
  by (simp add: ord_def)

lemma ord_inject [simp]: "ord c = ord d \<longleftrightarrow> c = d"
  by (simp add: ord_def)

lemma char_of_ord [simp]: "char_of (ord c) = c"
  by (simp add: ord_def)

lemma ord_char_of [simp]: "ord (char_of n) = n mod 256"
  by (simp add: ord_def)

section \<open>Decimal numbers\<close>

definition digit_char :: "nat \<Rightarrow> char" where
  "digit_char d = char_of (48 + d)"

definition digit_val :: "char \<Rightarrow> nat" where
  "digit_val c = ord c - 48"

fun nat_digits :: "nat \<Rightarrow> string" where
  "nat_digits n =
     (if n < 10 then [digit_char n] else nat_digits (n div 10) @ [digit_char (n mod 10)])"

declare nat_digits.simps [simp del]

definition to_string :: "int \<Rightarrow> string" where
  "to_string x = (if x < 0 then ''-'' @ nat_digits (nat (- x)) else nat_digits (nat x))"

abbreviation size_string :: "nat \<Rightarrow> string" where
  "size_string n \<equiv> to_string (int n)"

definition digits_val :: "string \<Rightarrow> nat" where
  "digits_val ds = foldl (\<lambda>a c. 10 * a + digit_val c) 0 ds"

text \<open>The common part of \<open>strtol\<close>, \<open>strtoll\<close> and \<open>strtoul\<close>: the sign and the magnitude.\<close>

definition scan_sign :: "string \<Rightarrow> bool \<times> string" where
  "scan_sign s =
     (case s of
        [] \<Rightarrow> (False, [])
      | c # cs \<Rightarrow> if c = CHR ''-'' then (True, cs) else if c = CHR ''+'' then (False, cs) else (False, s))"

definition scan_number :: "string \<Rightarrow> (bool \<times> nat) option" where
  "scan_number s =
     (let (neg, s') = scan_sign (dropWhile is_space s); ds = takeWhile is_digit s'
      in if ds = [] then None else Some (neg, digits_val ds))"

definition signed_in :: "nat \<Rightarrow> string \<Rightarrow> int result" where
  "signed_in w s =
     (case scan_number s of
        None \<Rightarrow> Inl Invalid_argument
      | Some (neg, n) \<Rightarrow>
          (let v = (if neg then - int n else int n)
           in if v < - (2 ^ (w - 1)) \<or> 2 ^ (w - 1) \<le> v then Inl Out_of_range else Inr v))"

definition stoi :: "string \<Rightarrow> int result" where
  "stoi s = signed_in 32 s"

definition stoll :: "string \<Rightarrow> int result" where
  "stoll s = signed_in 64 s"

definition stoul :: "string \<Rightarrow> nat result" where
  "stoul s =
     (case scan_number s of
        None \<Rightarrow> Inl Invalid_argument
      | Some (neg, n) \<Rightarrow>
          if 2 ^ 64 \<le> n then Inl Out_of_range
          else Inr (if neg then size_wrap (- int n) else n))"

text \<open>\<open>s.find(pat) != npos\<close>.\<close>

fun contains :: "string \<Rightarrow> string \<Rightarrow> bool" where
  "contains pat [] = (pat = [])"
| "contains pat (c # cs) = (prefix pat (c # cs) \<or> contains pat cs)"

section \<open>Decimal round trips\<close>

lemma digit_char_props:
  assumes "d < 10"
  shows "is_digit (digit_char d)" "digit_val (digit_char d) = d" "digit_char d \<noteq> CHR ''-''"
    "digit_char d \<noteq> CHR ''+''" "\<not> is_space (digit_char d)"
proof -
  have o: "ord (digit_char d) = 48 + d" using assms by (simp add: digit_char_def)
  show "is_digit (digit_char d)" "digit_val (digit_char d) = d" "\<not> is_space (digit_char d)"
    using assms by (simp_all add: is_digit_def digit_val_def is_space_def o)
  have "ord (CHR ''-'') = 45" "ord (CHR ''+'') = 43" by (simp_all add: ord_def)
  then show "digit_char d \<noteq> CHR ''-''" "digit_char d \<noteq> CHR ''+''" using o by auto
qed

lemma digits_val_snoc: "digits_val (ds @ [c]) = 10 * digits_val ds + digit_val c"
  by (simp add: digits_val_def)

lemma nat_digits_val [simp]: "digits_val (nat_digits n) = n"
proof (induction n rule: nat_digits.induct)
  case (1 n)
  show ?case
  proof (cases "n < 10")
    case True
    then show ?thesis
      by (subst nat_digits.simps) (simp add: digits_val_def digit_char_props)
  next
    case False
    with "1.IH" have "digits_val (nat_digits (n div 10)) = n div 10" by simp
    with False show ?thesis
      by (subst nat_digits.simps) (simp add: digits_val_snoc digit_char_props)
  qed
qed

lemma nat_digits_not_Nil [simp]: "nat_digits n \<noteq> []"
  by (subst nat_digits.simps) simp

lemma nat_digits_all_digits: "list_all is_digit (nat_digits n)"
proof (induction n rule: nat_digits.induct)
  case (1 n)
  then show ?case
    by (subst nat_digits.simps) (simp add: digit_char_props)
qed

lemma is_digit_props:
  assumes "is_digit c"
  shows "\<not> is_space c" "c \<noteq> CHR ''-''" "c \<noteq> CHR ''+''" "c \<noteq> LF" "c \<noteq> CR"
  using assms by (auto simp: is_digit_def is_space_def ord_def)

lemma nat_digits_Cons:
  obtains c cs where "nat_digits n = c # cs" "is_digit c" "list_all is_digit cs"
  using nat_digits_all_digits [of n] by (cases "nat_digits n") auto

lemma scan_number_digits:
  assumes "list_all is_digit ds" "ds \<noteq> []" "rest = [] \<or> \<not> is_digit (hd rest)"
  shows "scan_number (ds @ rest) = Some (False, digits_val ds)"
    and "scan_number (''-'' @ ds @ rest) = Some (True, digits_val ds)"
proof -
  obtain c cs where ds: "ds = c # cs" using assms(2) by (cases ds) auto
  then have c: "is_digit c" using assms(1) by simp
  have tw: "takeWhile is_digit (ds @ rest) = ds"
    using assms(1,3) by (subst takeWhile_append2) (auto simp: list_all_iff neq_Nil_conv takeWhile_eq_Nil_iff)
  have "dropWhile is_space (ds @ rest) = ds @ rest" using c by (simp add: ds is_digit_props)
  moreover have "scan_sign (ds @ rest) = (False, ds @ rest)"
    using c by (simp add: ds scan_sign_def is_digit_props)
  ultimately show "scan_number (ds @ rest) = Some (False, digits_val ds)"
    using assms(2) by (simp add: scan_number_def tw)
  have "dropWhile is_space (''-'' @ ds @ rest) = ''-'' @ ds @ rest"
    by (simp add: is_space_def ord_def)
  moreover have "scan_sign (''-'' @ ds @ rest) = (True, ds @ rest)"
    by (simp add: scan_sign_def)
  ultimately show "scan_number (''-'' @ ds @ rest) = Some (True, digits_val ds)"
    using assms(2) by (simp add: scan_number_def tw)
qed

lemma scan_number_to_string:
  assumes "rest = [] \<or> \<not> is_digit (hd rest)"
  shows "scan_number (to_string x @ rest) = Some (x < 0, nat \<bar>x\<bar>)"
  using scan_number_digits [OF nat_digits_all_digits nat_digits_not_Nil assms]
  by (simp add: to_string_def)

lemma signed_in_to_string:
  "- (2 ^ (w - 1)) \<le> x \<Longrightarrow> x < 2 ^ (w - 1) \<Longrightarrow> signed_in w (to_string x) = Inr x"
  using scan_number_to_string [of "[]" x] by (auto simp: signed_in_def Let_def)

lemma stoi_to_string [simp]: "- (2 ^ 31) \<le> x \<Longrightarrow> x < 2 ^ 31 \<Longrightarrow> stoi (to_string x) = Inr x"
  using signed_in_to_string [of 32 x] by (simp add: stoi_def)

lemma stoll_to_string [simp]: "- (2 ^ 63) \<le> x \<Longrightarrow> x < 2 ^ 63 \<Longrightarrow> stoll (to_string x) = Inr x"
  using signed_in_to_string [of 64 x] by (simp add: stoll_def)

lemma stoul_size_string [simp]: "n < 2 ^ 64 \<Longrightarrow> stoul (size_string n) = Inr n"
  using scan_number_to_string [of "[]" "int n"] by (simp add: stoul_def)

lemma to_string_chars: "c \<in> set (to_string x) \<Longrightarrow> is_digit c \<or> c = CHR ''-''"
  using nat_digits_all_digits by (auto simp: to_string_def list_all_iff split: if_splits)

lemma to_string_no_line_end [simp]: "LF \<notin> set (to_string x)" "CR \<notin> set (to_string x)"
  using to_string_chars [of LF x] to_string_chars [of CR x] by (auto simp: is_digit_props dest: is_digit_props)

lemma to_string_not_Nil [simp]: "to_string x \<noteq> []"
  by (simp add: to_string_def)

lemma to_string_inject [simp]: "to_string x = to_string y \<longleftrightarrow> x = y"
proof
  assume "to_string x = to_string y"
  then have "Some (x < 0, nat \<bar>x\<bar>) = Some (y < 0, nat \<bar>y\<bar>)"
    using scan_number_to_string [of "[]" x] scan_number_to_string [of "[]" y] by simp
  then show "x = y" by auto
qed simp

lemma size_string_not_minus1 [simp]: "size_string n \<noteq> ''-1''"
proof
  assume "size_string n = ''-1''"
  then have "CHR ''-'' \<in> set (nat_digits n)" by (simp add: to_string_def)
  then have "is_digit (CHR ''-'')" using nat_digits_all_digits [of n] by (auto simp: list_all_iff)
  then show False by (simp add: is_digit_def ord_def)
qed

lemma length_nat_digits: "n < 10 ^ Suc k \<Longrightarrow> length (nat_digits n) \<le> Suc k"
proof (induction k arbitrary: n)
  case (Suc k)
  then have "length (nat_digits (n div 10)) \<le> Suc k" by simp
  then show ?case by (subst nat_digits.simps) simp
qed (simp add: nat_digits.simps)

lemma length_to_string: "\<bar>x\<bar> < 10 ^ 20 \<Longrightarrow> length (to_string x) \<le> 21"
  using length_nat_digits [of "nat \<bar>x\<bar>" 19] by (auto simp: to_string_def nat_less_iff)

lemma contains_iff: "contains pat s \<longleftrightarrow> sublist pat s"
  by (induction s) (simp_all add: sublist_Cons_right)

end
