(* ===== verification/Cpp_Double.thy ===== *)
theory Cpp_Double
  imports Cpp_Std
begin

text \<open>
  The \<open>double\<close> scores of sorted sets, as IEEE 754 bit patterns: comparison, \<open>std::stod\<close>
  (decimal, hexadecimal, infinity and NaN forms, round to nearest even, \<open>out_of_range\<close> on
  overflow and on an inexact subnormal result), \<open>std::to_string(double)\<close> (the format
  \<open>%f\<close>), division, multiplication and the conversion to \<open>int\<close>.  All of it is exact integer arithmetic on the 64 bits.
\<close>

section \<open>Bit patterns and comparison\<close>

type_synonym double = "64 word"

definition dbl_neg :: "double \<Rightarrow> bool" where
  "dbl_neg d \<longleftrightarrow> 2 ^ 63 \<le> unat d"

definition dbl_mag :: "double \<Rightarrow> nat" where
  "dbl_mag d = unat d mod 2 ^ 63"

definition inf_bits :: nat where
  "inf_bits = 2047 * 2 ^ 52"

definition is_nan :: "double \<Rightarrow> bool" where
  "is_nan d \<longleftrightarrow> inf_bits < dbl_mag d"

text \<open>
  On numbers, sign and magnitude order like the values they stand for; both zeros have
  magnitude 0.
\<close>

definition dbl_key :: "double \<Rightarrow> int" where
  "dbl_key d = (if dbl_neg d then - int (dbl_mag d) else int (dbl_mag d))"

definition dlt :: "double \<Rightarrow> double \<Rightarrow> bool" where
  "dlt a b \<longleftrightarrow> \<not> is_nan a \<and> \<not> is_nan b \<and> dbl_key a < dbl_key b"

definition deq :: "double \<Rightarrow> double \<Rightarrow> bool" where
  "deq a b \<longleftrightarrow> \<not> is_nan a \<and> \<not> is_nan b \<and> dbl_key a = dbl_key b"

definition dzero :: double where
  "dzero = 0"

definition make_double :: "bool \<Rightarrow> nat \<Rightarrow> double" where
  "make_double neg mag = word_of_nat ((if neg then 2 ^ 63 else 0) + mag)"

lemma dlt_irrefl [simp]: "\<not> dlt a a"
  by (simp add: dlt_def)

lemma dlt_trans: "dlt a b \<Longrightarrow> dlt b c \<Longrightarrow> dlt a c"
  by (auto simp: dlt_def)

lemma dlt_asym: "dlt a b \<Longrightarrow> \<not> dlt b a"
  by (auto simp: dlt_def)

lemma dlt_linear: "\<not> is_nan a \<Longrightarrow> \<not> is_nan b \<Longrightarrow> dlt a b \<or> deq a b \<or> dlt b a"
  by (auto simp: dlt_def deq_def)

lemma deq_refl_iff [simp]: "deq a a \<longleftrightarrow> \<not> is_nan a"
  by (simp add: deq_def)

lemma deq_sym: "deq a b \<Longrightarrow> deq b a"
  by (auto simp: deq_def)

lemma deq_trans: "deq a b \<Longrightarrow> deq b c \<Longrightarrow> deq a c"
  by (auto simp: deq_def)

lemma not_dlt_iff: "\<not> is_nan a \<Longrightarrow> \<not> is_nan b \<Longrightarrow> \<not> dlt a b \<longleftrightarrow> dbl_key b \<le> dbl_key a"
  by (auto simp: dlt_def)

lemma make_double_parts:
  assumes "mag < 2 ^ 63"
  shows "dbl_neg (make_double neg mag) = neg" "dbl_mag (make_double neg mag) = mag"
proof -
  have "unat (word_of_nat n :: double) = n" if "n < 2 ^ 64" for n
    using that by (simp add: unat_of_nat)
  from this [of "(if neg then 2 ^ 63 else 0) + mag"]
  have "unat (make_double neg mag) = (if neg then 2 ^ 63 else 0) + mag"
    unfolding make_double_def using assms by (simp split: if_splits del: of_nat_add)
  then show "dbl_neg (make_double neg mag) = neg" "dbl_mag (make_double neg mag) = mag"
    using assms by (auto simp: dbl_neg_def dbl_mag_def)
qed

section \<open>Rounding a ratio to the nearest double\<close>

fun bit_length :: "nat \<Rightarrow> nat" where
  "bit_length n = (if n = 0 then 0 else Suc (bit_length (n div 2)))"

declare bit_length.simps [simp del]

definition shift_ratio :: "nat \<Rightarrow> nat \<Rightarrow> int \<Rightarrow> nat \<times> nat" where
  "shift_ratio num den e = (if 0 \<le> e then (num, den * 2 ^ nat e) else (num * 2 ^ nat (- e), den))"

definition ratio_exponent :: "nat \<Rightarrow> nat \<Rightarrow> int" where
  "ratio_exponent num den =
     (let e = int (bit_length num) - int (bit_length den) - 53; (n, d) = shift_ratio num den e
      in max (- 1074) (if 2 ^ 53 \<le> n div d then e + 1 else e))"

definition round_half_even :: "nat \<Rightarrow> nat \<Rightarrow> nat" where
  "round_half_even n d =
     (let q = n div d; r = n mod d
      in if d < 2 * r \<or> (2 * r = d \<and> odd q) then Suc q else q)"

text \<open>The magnitude bits nearest to \<open>num / den\<close>; \<open>None\<close> for \<open>ERANGE\<close>.\<close>

definition round_ratio :: "nat \<Rightarrow> nat \<Rightarrow> nat option" where
  "round_ratio num den =
     (if num = 0 then Some 0
      else let e = ratio_exponent num den; (n, d) = shift_ratio num den e;
               bits = nat (e + 1074) * 2 ^ 52 + round_half_even n d
           in if inf_bits \<le> bits then None
              else if bits < 2 ^ 52 \<and> n mod d \<noteq> 0 then None
              else Some bits)"

section \<open>std::stod\<close>

definition to_lower :: "char \<Rightarrow> char" where
  "to_lower c = (if 65 \<le> ord c \<and> ord c \<le> 90 then char_of (ord c + 32) else c)"

definition starts_ci :: "string \<Rightarrow> string \<Rightarrow> bool" where
  "starts_ci pat s \<longleftrightarrow> map to_lower (take (length pat) s) = pat"

definition hex_val :: "char \<Rightarrow> nat" where
  "hex_val c = (if is_digit c then ord c - 48 else ord (to_lower c) - 87)"

definition is_hex :: "char \<Rightarrow> bool" where
  "is_hex c \<longleftrightarrow> is_digit c \<or> 97 \<le> ord (to_lower c) \<and> ord (to_lower c) \<le> 102"

definition base_val :: "nat \<Rightarrow> string \<Rightarrow> nat" where
  "base_val b ds = foldl (\<lambda>a c. b * a + hex_val c) 0 ds"

text \<open>Integer digits, optional fraction digits, and what follows.\<close>

definition scan_mantissa :: "(char \<Rightarrow> bool) \<Rightarrow> string \<Rightarrow> string \<times> string \<times> string" where
  "scan_mantissa dig s =
     (let i = takeWhile dig s; r = dropWhile dig s
      in case r of
           c # r' \<Rightarrow> if c = CHR ''.'' then (i, takeWhile dig r', dropWhile dig r') else (i, [], r)
         | [] \<Rightarrow> (i, [], []))"

text \<open>The exponent part \<open>e[+-]digits\<close> (or \<open>p\<close> for hexadecimal); 0 if it is not complete.\<close>

definition scan_exponent :: "char \<Rightarrow> string \<Rightarrow> int" where
  "scan_exponent mark s =
     (case s of
        c # r \<Rightarrow>
          if to_lower c = mark then
            (let (neg, r') = scan_sign r; ds = takeWhile is_digit r'
             in if neg then - int (digits_val ds) else int (digits_val ds))
          else 0
      | [] \<Rightarrow> 0)"

definition scaled :: "nat \<Rightarrow> nat \<Rightarrow> int \<Rightarrow> nat option" where
  "scaled base mant e =
     (if 0 \<le> e then round_ratio (mant * base ^ nat e) 1 else round_ratio mant (base ^ nat (- e)))"

definition stod_magnitude :: "string \<Rightarrow> nat result" where
  "stod_magnitude s =
     (if starts_ci ''inf'' s then Inr inf_bits
      else if starts_ci ''nan'' s then Inr (inf_bits + 2 ^ 51)
      else
        let hex = starts_ci ''0x'' s;
            (hi, hf, hr) = scan_mantissa is_hex (drop 2 s);
            (di, df, dr) = scan_mantissa is_digit s
        in if hex \<and> (hi \<noteq> [] \<or> hf \<noteq> []) then
             (case scaled 2 (base_val 16 (hi @ hf)) (scan_exponent (CHR ''p'') hr - 4 * int (length hf)) of
                None \<Rightarrow> Inl Out_of_range | Some m \<Rightarrow> Inr m)
           else if di = [] \<and> df = [] then Inl Invalid_argument
           else
             (case scaled 10 (base_val 10 (di @ df)) (scan_exponent (CHR ''e'') dr - int (length df)) of
                None \<Rightarrow> Inl Out_of_range | Some m \<Rightarrow> Inr m))"

definition stod :: "string \<Rightarrow> double result" where
  "stod s =
     (let (neg, s') = scan_sign (dropWhile is_space s)
      in case stod_magnitude s' of Inl e \<Rightarrow> Inl e | Inr m \<Rightarrow> Inr (make_double neg m))"

section \<open>std::to_string(double)\<close>

definition pad_digits :: "nat \<Rightarrow> nat \<Rightarrow> string" where
  "pad_digits w n = replicate (w - length (nat_digits n)) (CHR ''0'') @ nat_digits n"

text \<open>Significand and exponent: the value is \<open>m * 2 ^ e\<close>.\<close>

definition dbl_decode :: "double \<Rightarrow> nat \<times> int" where
  "dbl_decode d =
     (let E = dbl_mag d div 2 ^ 52; F = dbl_mag d mod 2 ^ 52
      in if E = 0 then (F, - 1074) else (F + 2 ^ 52, int E - 1075))"

definition double_to_string :: "double \<Rightarrow> string" where
  "double_to_string d =
     (if dbl_neg d then ''-'' else []) @
     (if is_nan d then ''nan''
      else if dbl_mag d = inf_bits then ''inf''
      else let (m, e) = dbl_decode d; (n, k) = shift_ratio (m * 10 ^ 6) 1 (- e);
               q = round_half_even n k
           in nat_digits (q div 10 ^ 6) @ ''.'' @ pad_digits 6 (q mod 10 ^ 6))"

section \<open>Arithmetic\<close>

text \<open>Results of operations round to nearest even, to infinity on overflow.\<close>

definition nearest_bits :: "nat \<Rightarrow> nat \<Rightarrow> nat" where
  "nearest_bits num den =
     (if num = 0 then 0
      else let e = ratio_exponent num den; (n, d) = shift_ratio num den e
           in min inf_bits (nat (e + 1074) * 2 ^ 52 + round_half_even n d))"

definition dbl_nan :: double where
  "dbl_nan = make_double False (inf_bits + 2 ^ 51)"

definition dbl_of_nat :: "nat \<Rightarrow> double" where
  "dbl_of_nat n = make_double False (nearest_bits n 1)"

definition dbl_div :: "double \<Rightarrow> double \<Rightarrow> double" where
  "dbl_div a b =
     (let sign = (dbl_neg a \<noteq> dbl_neg b)
      in if is_nan a \<or> is_nan b then dbl_nan
         else if dbl_mag a = inf_bits then (if dbl_mag b = inf_bits then dbl_nan else make_double sign inf_bits)
         else if dbl_mag b = inf_bits then make_double sign 0
         else if dbl_mag b = 0 then (if dbl_mag a = 0 then dbl_nan else make_double sign inf_bits)
         else let (m, e) = dbl_decode a; (k, f) = dbl_decode b; (num, den) = shift_ratio m k (f - e)
              in make_double sign (nearest_bits num den))"

definition dbl_mul :: "double \<Rightarrow> double \<Rightarrow> double" where
  "dbl_mul a b =
     (let sign = (dbl_neg a \<noteq> dbl_neg b)
      in if is_nan a \<or> is_nan b then dbl_nan
         else if dbl_mag a = inf_bits then (if dbl_mag b = 0 then dbl_nan else make_double sign inf_bits)
         else if dbl_mag b = inf_bits then (if dbl_mag a = 0 then dbl_nan else make_double sign inf_bits)
         else let (m, e) = dbl_decode a; (k, f) = dbl_decode b; (num, den) = shift_ratio (m * k) 1 (- (e + f))
              in make_double sign (nearest_bits num den))"

text \<open>
  The conversion to \<open>int\<close> cuts the fraction; out of range C++ leaves it undefined, and the hardware
  gives the least \<open>int\<close>.
\<close>

definition dbl_to_int :: "double \<Rightarrow> int" where
  "dbl_to_int d =
     (if inf_bits \<le> dbl_mag d then - (2 ^ 31)
      else let (m, e) = dbl_decode d; (num, den) = shift_ratio m 1 (- e);
               v = (if dbl_neg d then - int (num div den) else int (num div den))
           in if v < - (2 ^ 31) \<or> 2 ^ 31 \<le> v then - (2 ^ 31) else v)"

end
