(* ===== verification/Redis_Value.thy ===== *)
theory Redis_Value
  imports Cpp_Double
begin

text \<open>
  The stored value (\<open>redis_value.h\<close>): the class \<open>RedisValue\<close> as a record with one field per
  storage type, as in the code, where a key that changes its type keeps the other fields.
  The clock is an argument: each parameter \<open>now\<close> is one reading of \<open>system_clock::now()\<close> in
  milliseconds.  Times are \<open>int64_t\<close>; their sums wrap.
\<close>

datatype RedisType = String | List | Set | Hash | ZSet

record redis_value =
  value_type :: RedisType
  expiry_time :: int
  mod_count :: "64 word"
  str_val :: string
  list_val :: "string list"
  set_val :: "string uset"
  hash_val :: "(string, string) umap"
  zset_score_to_member :: "(double \<times> string) list"
  zset_member_to_score :: "(string, double) umap"

definition new_value :: "RedisType \<Rightarrow> redis_value" where
  "new_value t =
     \<lparr>value_type = t, expiry_time = 0, mod_count = 0, str_val = [], list_val = [], set_val = [],
      hash_val = [], zset_score_to_member = [], zset_member_to_score = []\<rparr>"

section \<open>Expiry\<close>

definition is_expired :: "int \<Rightarrow> redis_value \<Rightarrow> bool" where
  "is_expired now v = (if expiry_time v = 0 then False else expiry_time v \<le> now)"

definition set_expiry :: "int \<Rightarrow> redis_value \<Rightarrow> redis_value" where
  "set_expiry timestamp_ms v = v\<lparr>expiry_time := timestamp_ms\<rparr>"

definition set_expiry_seconds :: "int \<Rightarrow> int \<Rightarrow> redis_value \<Rightarrow> redis_value" where
  "set_expiry_seconds now seconds v = v\<lparr>expiry_time := wrap64 (now + wrap64 (seconds * 1000))\<rparr>"

definition set_expiry_milliseconds :: "int \<Rightarrow> int \<Rightarrow> redis_value \<Rightarrow> redis_value" where
  "set_expiry_milliseconds now milliseconds v = v\<lparr>expiry_time := wrap64 (now + milliseconds)\<rparr>"

text \<open>C++ division truncates towards 0.\<close>

definition div_trunc :: "int \<Rightarrow> int \<Rightarrow> int" where
  "div_trunc a b = sgn a * sgn b * (\<bar>a\<bar> div \<bar>b\<bar>)"

definition ttl_seconds :: "int \<Rightarrow> redis_value \<Rightarrow> int" where
  "ttl_seconds now v =
     (if expiry_time v = 0 then - 1
      else if expiry_time v \<le> now then - 2
      else div_trunc (wrap64 (expiry_time v - now)) 1000)"

definition ttl_milliseconds :: "int \<Rightarrow> redis_value \<Rightarrow> int" where
  "ttl_milliseconds now v =
     (if expiry_time v = 0 then - 1
      else if expiry_time v \<le> now then - 2
      else wrap64 (expiry_time v - now))"

definition persist_value :: "redis_value \<Rightarrow> redis_value" where
  "persist_value v = v\<lparr>expiry_time := 0\<rparr>"

section \<open>Contents\<close>

definition clear_value :: "redis_value \<Rightarrow> redis_value" where
  "clear_value v =
     v\<lparr>str_val := [], list_val := [], set_val := [], hash_val := [],
       zset_score_to_member := [], zset_member_to_score := []\<rparr>"

definition value_size :: "redis_value \<Rightarrow> nat" where
  "value_size v =
     (case value_type v of
        String \<Rightarrow> length (str_val v)
      | List \<Rightarrow> length (list_val v)
      | Set \<Rightarrow> length (set_val v)
      | Hash \<Rightarrow> length (hash_val v)
      | ZSet \<Rightarrow> length (zset_member_to_score v))"

section \<open>Lemmas\<close>

lemma new_value_simps [simp]:
  "value_type (new_value t) = t" "expiry_time (new_value t) = 0" "mod_count (new_value t) = 0"
  "str_val (new_value t) = []" "list_val (new_value t) = []" "set_val (new_value t) = []"
  "hash_val (new_value t) = []" "zset_score_to_member (new_value t) = []"
  "zset_member_to_score (new_value t) = []"
  by (simp_all add: new_value_def)

lemma is_expired_new [simp]: "\<not> is_expired now (new_value t)"
  by (simp add: is_expired_def)

lemma is_expired_update [simp]:
  "is_expired now (v\<lparr>value_type := t\<rparr>) = is_expired now v"
  "is_expired now (v\<lparr>mod_count := n\<rparr>) = is_expired now v"
  "is_expired now (v\<lparr>str_val := s\<rparr>) = is_expired now v"
  "is_expired now (v\<lparr>list_val := l\<rparr>) = is_expired now v"
  "is_expired now (v\<lparr>set_val := u\<rparr>) = is_expired now v"
  "is_expired now (v\<lparr>hash_val := h\<rparr>) = is_expired now v"
  "is_expired now (v\<lparr>zset_score_to_member := z\<rparr>) = is_expired now v"
  "is_expired now (v\<lparr>zset_member_to_score := m\<rparr>) = is_expired now v"
  by (simp_all add: is_expired_def)

lemma is_expired_mono: "is_expired now v \<Longrightarrow> now \<le> now' \<Longrightarrow> is_expired now' v"
  by (auto simp: is_expired_def split: if_splits)

lemma not_expired_persist [simp]: "\<not> is_expired now (persist_value v)"
  by (simp add: is_expired_def persist_value_def)

text \<open>The remaining time is negative exactly when there is none.\<close>

lemma ttl_milliseconds_pos:
  assumes "expiry_time v \<noteq> 0" "\<not> is_expired now v" "0 \<le> now" "expiry_time v < 2 ^ 63"
  shows "ttl_milliseconds now v = expiry_time v - now"
  using assms by (simp add: ttl_milliseconds_def is_expired_def)

lemma ttl_seconds_pos:
  assumes "expiry_time v \<noteq> 0" "\<not> is_expired now v" "0 \<le> now" "expiry_time v < 2 ^ 63"
  shows "ttl_seconds now v = (expiry_time v - now) div 1000"
  using assms by (simp add: ttl_seconds_def is_expired_def div_trunc_def sgn_if)

end
