(* ===== verification/Pubsub.thy ===== *)
theory Pubsub
  imports Prelude
begin

text \<open>
  The subscription table (class \<open>PubSubManager\<close> of \<open>db.h\<close> and \<open>db.cpp\<close>): channel names to the
  list of subscribed file descriptors, in subscription order and with repetitions.
  \<open>get_subscribers\<close> is the view of a publisher.
\<close>

type_synonym pubsub = "(string, int list) umap"

definition get_subscribers :: "string \<Rightarrow> pubsub \<Rightarrow> int list" where
  "get_subscribers channel p = (case map_of p channel of Some s \<Rightarrow> s | None \<Rightarrow> [])"

text \<open>\<open>subscribers[channel]\<close> creates an empty entry.\<close>

definition subscribe :: "int \<Rightarrow> string \<Rightarrow> pubsub \<Rightarrow> pubsub" where
  "subscribe fd channel p = AList.update channel (get_subscribers channel p @ [fd]) p"

definition unsubscribe :: "int \<Rightarrow> string \<Rightarrow> pubsub \<Rightarrow> pubsub" where
  "unsubscribe fd channel p =
     (let subs = removeAll fd (get_subscribers channel p); p' = AList.update channel subs p
      in if subs = [] then AList.delete channel p' else p')"

definition unsubscribe_all :: "int \<Rightarrow> pubsub \<Rightarrow> pubsub" where
  "unsubscribe_all fd p =
     filter (\<lambda>(c, subs). subs \<noteq> []) (map (\<lambda>(c, subs). (c, removeAll fd subs)) p)"

text \<open>Channels are distinct and none has an empty list.\<close>

definition pubsub_wf :: "pubsub \<Rightarrow> bool" where
  "pubsub_wf p \<longleftrightarrow> umap_wf p \<and> [] \<notin> snd ` set p"

section \<open>Behaviour\<close>

lemma get_subscribers_subscribe:
  "get_subscribers c (subscribe fd ch p) =
     (if c = ch then get_subscribers ch p @ [fd] else get_subscribers c p)"
  by (simp add: get_subscribers_def subscribe_def)

lemma get_subscribers_unsubscribe:
  "get_subscribers c (unsubscribe fd ch p) =
     (if c = ch then removeAll fd (get_subscribers ch p) else get_subscribers c p)"
  by (simp add: get_subscribers_def unsubscribe_def Let_def split: option.split)

lemma map_of_map_snd: "map_of (map (\<lambda>(c, s). (c, f s)) p) c = map_option f (map_of p c)"
  by (induction p) auto

lemma map_of_filter_snd:
  "umap_wf p \<Longrightarrow> map_of (filter (\<lambda>(c, s). P s) p) c =
     (case map_of p c of Some s \<Rightarrow> if P s then Some s else None | None \<Rightarrow> None)"
  by (induction p) (auto split: option.splits simp: map_of_eq_None_iff dest: map_of_Some_in)

lemma fst_map_snd [simp]: "map (fst \<circ> (\<lambda>(c, s). (c, f s))) p = map fst p"
  by (simp add: comp_def case_prod_beta)

lemma get_subscribers_unsubscribe_all:
  "umap_wf p \<Longrightarrow> get_subscribers c (unsubscribe_all fd p) = removeAll fd (get_subscribers c p)"
  unfolding get_subscribers_def unsubscribe_all_def
  by (subst map_of_filter_snd) (auto simp: map_of_map_snd split: option.split)

lemma set_update_subset: "set (AList.update k v m) \<subseteq> insert (k, v) (set m)"
  by (induction m) auto

lemma set_delete_subset: "set (AList.delete k m) \<subseteq> set m"
  by (auto simp: AList.delete_eq)

lemma pubsub_wf_subscribe: "pubsub_wf p \<Longrightarrow> pubsub_wf (subscribe fd ch p)"
  using set_update_subset [of ch "get_subscribers ch p @ [fd]" p]
  by (fastforce simp: pubsub_wf_def subscribe_def)

lemma delete_update: "AList.delete k (AList.update k v m) = AList.delete k m"
  by (induction m) (auto simp: AList.delete_eq)

lemma pubsub_wf_unsubscribe: "pubsub_wf p \<Longrightarrow> pubsub_wf (unsubscribe fd ch p)"
  using set_update_subset [of ch "removeAll fd (get_subscribers ch p)" p] set_delete_subset [of ch p]
  by (fastforce simp: pubsub_wf_def unsubscribe_def Let_def delete_update)

lemma pubsub_wf_unsubscribe_all:
  assumes "pubsub_wf p"
  shows "pubsub_wf (unsubscribe_all fd p)"
proof -
  have "umap_wf (map (\<lambda>(c, s). (c, removeAll fd s)) p)" using assms by (simp add: pubsub_wf_def)
  then have "umap_wf (unsubscribe_all fd p)" unfolding unsubscribe_all_def by (rule distinct_map_filter)
  then show ?thesis by (auto simp: pubsub_wf_def unsubscribe_all_def)
qed

section \<open>Interface: a subscription table\<close>

text \<open>
  What the command processor relies on: a subscription is visible to the next publisher of
  that channel and to no other, and leaving a channel removes every subscription of the
  client there.
\<close>

locale subscription_table =
  fixes sub :: "int \<Rightarrow> string \<Rightarrow> 'p \<Rightarrow> 'p"
    and unsub :: "int \<Rightarrow> string \<Rightarrow> 'p \<Rightarrow> 'p"
    and subs :: "string \<Rightarrow> 'p \<Rightarrow> int list"
  assumes subs_sub: "subs c (sub fd ch p) = (if c = ch then subs ch p @ [fd] else subs c p)"
    and subs_unsub: "subs c (unsub fd ch p) = (if c = ch then removeAll fd (subs ch p) else subs c p)"
begin

lemma sub_then_listed: "fd \<in> set (subs ch (sub fd ch p))"
  by (simp add: subs_sub)

lemma unsub_then_gone: "fd \<notin> set (subs ch (unsub fd ch p))"
  by (simp add: subs_unsub)

lemma sub_all: "set (subs c (fold (sub fd) chs p)) = set (subs c p) \<union> (if c \<in> set chs then {fd} else {})"
  by (induction chs arbitrary: p) (auto simp: subs_sub)

lemma unsub_all: "subs c (fold (unsub fd) chs p) = (if c \<in> set chs then removeAll fd (subs c p) else subs c p)"
  by (induction chs arbitrary: p) (auto simp: subs_unsub)

lemma sub_unsub_other:
  "fd' \<noteq> fd \<Longrightarrow> fd' \<in> set (subs c (unsub fd ch p)) \<longleftrightarrow> fd' \<in> set (subs c p)"
  by (simp add: subs_unsub)

lemma sub_unsub_restores: "fd \<notin> set (subs ch p) \<Longrightarrow> subs c (unsub fd ch (sub fd ch p)) = subs c p"
  by (simp add: subs_unsub subs_sub)

end

interpretation ps: subscription_table subscribe unsubscribe get_subscribers
  by unfold_locales (rule get_subscribers_subscribe get_subscribers_unsubscribe)+

end
