(* ===== verification/Database.thy ===== *)
theory Database
  imports Redis_Value Pubsub
begin

text \<open>
  The keyspace (class \<open>Database\<close> of \<open>db.h\<close> and \<open>db.cpp\<close>) with its string, key, expiry, list,
  set and hash operations.  Every operation on one key finds the entry, changes it in place,
  creates it (\<open>data[key]\<close>) or erases it: \<open>alter\<close> runs a function from the old entry to the
  result and the new entry.  Sorted sets are in the theory \<open>Sorted_Set\<close>, snapshots in \<open>Rdb\<close>.
  The arguments \<open>now\<close> are the clock readings of \<open>is_expired\<close> and of the \<open>ttl\<close> functions, in
  the order in which the code takes them.
\<close>

record database =
  data :: "(string, redis_value) umap"
  pubsub :: pubsub

definition empty_db :: database where
  "empty_db = \<lparr>data = [], pubsub = []\<rparr>"

abbreviation entry :: "string \<Rightarrow> database \<Rightarrow> redis_value option" where
  "entry key db \<equiv> map_of (data db) key"

definition write_entry :: "string \<Rightarrow> redis_value option \<Rightarrow> database \<Rightarrow> database" where
  "write_entry key e db =
     db\<lparr>data := (case e of None \<Rightarrow> AList.delete key (data db) | Some v \<Rightarrow> AList.update key v (data db))\<rparr>"

definition alter ::
  "string \<Rightarrow> (redis_value option \<Rightarrow> 'r \<times> redis_value option) \<Rightarrow> database \<Rightarrow> 'r \<times> database" where
  "alter key f db = (let (r, e) = f (entry key db) in (r, write_entry key e db))"

text \<open>The reference \<open>data[key]\<close>: a missing entry is default-constructed, with type \<open>String\<close>.\<close>

definition at_key :: "redis_value option \<Rightarrow> redis_value" where
  "at_key e = (case e of None \<Rightarrow> new_value String | Some v \<Rightarrow> v)"

text \<open>\<open>it != data.end() && it->second.type == t\<close>.\<close>

definition has_type :: "RedisType \<Rightarrow> redis_value option \<Rightarrow> bool" where
  "has_type t e = (case e of None \<Rightarrow> False | Some v \<Rightarrow> value_type v = t)"

section \<open>Strings and keys\<close>

definition db_set :: "string \<Rightarrow> string \<Rightarrow> database \<Rightarrow> bool \<times> database" where
  "db_set key val = alter key (\<lambda>e. (True, Some ((at_key e)\<lparr>value_type := String, str_val := val\<rparr>)))"

definition db_get :: "int \<Rightarrow> string \<Rightarrow> database \<Rightarrow> string \<times> database" where
  "db_get now key = alter key (\<lambda>e. case e of
       Some v \<Rightarrow>
         if value_type v = String then
           if is_expired now v then ([], None) else (str_val v, e)
         else ([], e)
     | None \<Rightarrow> ([], None))"

definition db_del :: "string \<Rightarrow> database \<Rightarrow> bool \<times> database" where
  "db_del key = alter key (\<lambda>e. (e \<noteq> None, None))"

definition db_exists :: "int \<Rightarrow> string \<Rightarrow> database \<Rightarrow> bool \<times> database" where
  "db_exists now key = alter key (\<lambda>e. case e of
       None \<Rightarrow> (False, None)
     | Some v \<Rightarrow> if is_expired now v then (False, None) else (True, e))"

definition db_type :: "int \<Rightarrow> string \<Rightarrow> database \<Rightarrow> RedisType \<times> database" where
  "db_type now key = alter key (\<lambda>e. case e of
       Some v \<Rightarrow> if is_expired now v then (String, None) else (value_type v, e)
     | None \<Rightarrow> (String, None))"

definition db_keys :: "database \<Rightarrow> string list" where
  "db_keys db = map fst (data db)"

section \<open>Expiry\<close>

definition db_expire :: "int \<Rightarrow> int \<Rightarrow> string \<Rightarrow> int \<Rightarrow> database \<Rightarrow> bool \<times> database" where
  "db_expire now now' key seconds = alter key (\<lambda>e. case e of
       None \<Rightarrow> (False, None)
     | Some v \<Rightarrow>
         if is_expired now v then (False, None)
         else (True, Some (set_expiry_seconds now' seconds v)))"

definition db_pexpire :: "int \<Rightarrow> int \<Rightarrow> string \<Rightarrow> int \<Rightarrow> database \<Rightarrow> bool \<times> database" where
  "db_pexpire now now' key milliseconds = alter key (\<lambda>e. case e of
       None \<Rightarrow> (False, None)
     | Some v \<Rightarrow>
         if is_expired now v then (False, None)
         else (True, Some (set_expiry_milliseconds now' milliseconds v)))"

definition db_ttl :: "int \<Rightarrow> int \<Rightarrow> string \<Rightarrow> database \<Rightarrow> int \<times> database" where
  "db_ttl now now' key = alter key (\<lambda>e. case e of
       None \<Rightarrow> (- 2, None)
     | Some v \<Rightarrow> if is_expired now v then (- 2, None) else (ttl_seconds now' v, e))"

definition db_pttl :: "int \<Rightarrow> int \<Rightarrow> string \<Rightarrow> database \<Rightarrow> int \<times> database" where
  "db_pttl now now' key = alter key (\<lambda>e. case e of
       None \<Rightarrow> (- 2, None)
     | Some v \<Rightarrow> if is_expired now v then (- 2, None) else (ttl_milliseconds now' v, e))"

definition db_persist :: "int \<Rightarrow> string \<Rightarrow> database \<Rightarrow> bool \<times> database" where
  "db_persist now key = alter key (\<lambda>e. case e of
       None \<Rightarrow> (False, None)
     | Some v \<Rightarrow> if is_expired now v then (False, None) else (True, Some (persist_value v)))"

section \<open>Modification counters\<close>

definition db_get_mod_count :: "string \<Rightarrow> database \<Rightarrow> 64 word" where
  "db_get_mod_count key db = (case entry key db of Some v \<Rightarrow> mod_count v | None \<Rightarrow> 0)"

definition db_increment_mod_count :: "string \<Rightarrow> database \<Rightarrow> database" where
  "db_increment_mod_count key db = snd (alter key (\<lambda>e. case e of
       Some v \<Rightarrow> ((), Some (v\<lparr>mod_count := mod_count v + 1\<rparr>))
     | None \<Rightarrow> ((), Some ((new_value String)\<lparr>mod_count := 1\<rparr>))) db)"

section \<open>Lists\<close>

definition db_lpush :: "string \<Rightarrow> string list \<Rightarrow> database \<Rightarrow> nat \<times> database" where
  "db_lpush key values = alter key (\<lambda>e.
     let v = (at_key e)\<lparr>value_type := List, list_val := rev values @ list_val (at_key e)\<rparr>
     in (length (list_val v), Some v))"

definition db_rpush :: "string \<Rightarrow> string list \<Rightarrow> database \<Rightarrow> nat \<times> database" where
  "db_rpush key values = alter key (\<lambda>e.
     let v = (at_key e)\<lparr>value_type := List, list_val := list_val (at_key e) @ values\<rparr>
     in (length (list_val v), Some v))"

definition db_lpop :: "string \<Rightarrow> database \<Rightarrow> string \<times> database" where
  "db_lpop key = alter key (\<lambda>e. case e of
       Some v \<Rightarrow>
         if value_type v = List then
           (case list_val v of x # xs \<Rightarrow> (x, Some (v\<lparr>list_val := xs\<rparr>)) | [] \<Rightarrow> ([], e))
         else ([], e)
     | None \<Rightarrow> ([], None))"

definition db_rpop :: "string \<Rightarrow> database \<Rightarrow> string \<times> database" where
  "db_rpop key = alter key (\<lambda>e. case e of
       Some v \<Rightarrow>
         if value_type v = List \<and> list_val v \<noteq> []
         then (last (list_val v), Some (v\<lparr>list_val := butlast (list_val v)\<rparr>))
         else ([], e)
     | None \<Rightarrow> ([], None))"

definition db_llen :: "int \<Rightarrow> string \<Rightarrow> database \<Rightarrow> nat \<times> database" where
  "db_llen now key = alter key (\<lambda>e. case e of
       Some v \<Rightarrow>
         if value_type v = List then
           if is_expired now v then (0, None) else (length (list_val v), e)
         else (0, e)
     | None \<Rightarrow> (0, None))"

text \<open>
  The index arithmetic of \<open>lrange\<close>, \<open>zrange\<close> and \<open>zrevrange\<close>: \<open>size + start\<close> is computed in
  \<open>size_t\<close> and narrowed to \<open>int\<close>.
\<close>

definition range_bounds :: "nat \<Rightarrow> int \<Rightarrow> int \<Rightarrow> int \<times> int" where
  "range_bounds n start stop =
     (let start' = (if start < 0 then wrap32 (int n + start) else start);
          stop' = (if stop < 0 then wrap32 (int n + stop) else stop)
      in (max 0 start', min (wrap32 (wrap32 (int n) - 1)) stop'))"

definition db_lrange :: "string \<Rightarrow> int \<Rightarrow> int \<Rightarrow> database \<Rightarrow> string list" where
  "db_lrange key start stop db =
     (case entry key db of
        Some v \<Rightarrow>
          if value_type v = List then
            (let (i, j) = range_bounds (length (list_val v)) start stop
             in if i \<le> j then slice i j (list_val v) else [])
          else []
      | None \<Rightarrow> [])"

definition db_lindex :: "string \<Rightarrow> int \<Rightarrow> database \<Rightarrow> string" where
  "db_lindex key index db =
     (case entry key db of
        Some v \<Rightarrow>
          if value_type v = List then
            (let n = length (list_val v);
                 i = (if index < 0 then wrap32 (int n + index) else index)
             in if 0 \<le> i \<and> nat i < n then list_val v ! nat i else [])
          else []
      | None \<Rightarrow> [])"

section \<open>Sets\<close>

definition db_sadd :: "string \<Rightarrow> string list \<Rightarrow> database \<Rightarrow> nat \<times> database" where
  "db_sadd key members = alter key (\<lambda>e.
     let v = (at_key e)\<lparr>value_type := Set\<rparr>; s = uset_insert_all members (set_val v)
     in (length s - length (set_val v), Some (v\<lparr>set_val := s\<rparr>)))"

definition db_srem :: "string \<Rightarrow> string list \<Rightarrow> database \<Rightarrow> nat \<times> database" where
  "db_srem key members = alter key (\<lambda>e. case e of
       Some v \<Rightarrow>
         if value_type v = Set then
           (let s = uset_erase_all members (set_val v)
            in (length (set_val v) - length s, Some (v\<lparr>set_val := s\<rparr>)))
         else (0, e)
     | None \<Rightarrow> (0, None))"

definition set_of_entry :: "redis_value option \<Rightarrow> string list" where
  "set_of_entry e = (if has_type Set e then set_val (the e) else [])"

definition db_sismember :: "string \<Rightarrow> string \<Rightarrow> database \<Rightarrow> bool" where
  "db_sismember key member db \<longleftrightarrow> member \<in> set (set_of_entry (entry key db))"

definition db_scard :: "string \<Rightarrow> database \<Rightarrow> nat" where
  "db_scard key db = length (set_of_entry (entry key db))"

definition db_smembers :: "string \<Rightarrow> database \<Rightarrow> string list" where
  "db_smembers key db = set_of_entry (entry key db)"

fun sinter_loop :: "database \<Rightarrow> string list \<Rightarrow> string list \<Rightarrow> string list" where
  "sinter_loop db result [] = result"
| "sinter_loop db result (key # keys) =
     (if \<not> has_type Set (entry key db) then []
      else sinter_loop db (filter (\<lambda>x. x \<in> set (set_of_entry (entry key db))) result) keys)"

definition db_sinter :: "string list \<Rightarrow> database \<Rightarrow> string list" where
  "db_sinter keys db =
     (case keys of
        [] \<Rightarrow> []
      | key # keys' \<Rightarrow>
          if \<not> has_type Set (entry key db) then []
          else sinter_loop db (set_of_entry (entry key db)) keys')"

definition db_sunion :: "string list \<Rightarrow> database \<Rightarrow> string list" where
  "db_sunion keys db = fold (\<lambda>key. uset_insert_all (set_of_entry (entry key db))) keys []"

definition db_sdiff :: "string list \<Rightarrow> database \<Rightarrow> string list" where
  "db_sdiff keys db =
     (case keys of
        [] \<Rightarrow> []
      | key # keys' \<Rightarrow>
          if \<not> has_type Set (entry key db) then []
          else fold (\<lambda>k. uset_erase_all (set_of_entry (entry k db))) keys' (set_of_entry (entry key db)))"

section \<open>Hashes\<close>

definition db_hset :: "string \<Rightarrow> string \<Rightarrow> string \<Rightarrow> database \<Rightarrow> bool \<times> database" where
  "db_hset key field val = alter key (\<lambda>e.
     let v = (at_key e)\<lparr>value_type := Hash\<rparr>
     in (True, Some (v\<lparr>hash_val := AList.update field val (hash_val v)\<rparr>)))"

definition hash_of_entry :: "redis_value option \<Rightarrow> (string, string) umap" where
  "hash_of_entry e = (if has_type Hash e then hash_val (the e) else [])"

definition db_hget :: "string \<Rightarrow> string \<Rightarrow> database \<Rightarrow> string" where
  "db_hget key field db =
     (case map_of (hash_of_entry (entry key db)) field of Some s \<Rightarrow> s | None \<Rightarrow> [])"

definition db_hdel :: "string \<Rightarrow> string list \<Rightarrow> database \<Rightarrow> bool \<times> database" where
  "db_hdel key flds = alter key (\<lambda>e. case e of
       Some v \<Rightarrow>
         if value_type v = Hash then
           (let h = fold AList.delete flds (hash_val v)
            in (length h < length (hash_val v), Some (v\<lparr>hash_val := h\<rparr>)))
         else (False, e)
     | None \<Rightarrow> (False, None))"

definition db_hlen :: "string \<Rightarrow> database \<Rightarrow> nat" where
  "db_hlen key db = length (hash_of_entry (entry key db))"

definition db_hkeys :: "string \<Rightarrow> database \<Rightarrow> string list" where
  "db_hkeys key db = map fst (hash_of_entry (entry key db))"

definition db_hvals :: "string \<Rightarrow> database \<Rightarrow> string list" where
  "db_hvals key db = map snd (hash_of_entry (entry key db))"

definition db_hgetall :: "string \<Rightarrow> database \<Rightarrow> (string, string) umap" where
  "db_hgetall key db = hash_of_entry (entry key db)"

section \<open>The entry an operation reads and writes\<close>

named_theorems db_defs \<open>definitions of the operations on one key\<close>

lemmas [db_defs] = db_set_def db_get_def db_del_def db_exists_def db_type_def db_expire_def
  db_pexpire_def db_ttl_def db_pttl_def db_persist_def db_increment_mod_count_def db_lpush_def
  db_rpush_def db_lpop_def db_rpop_def db_llen_def db_sadd_def db_srem_def db_hset_def db_hdel_def

lemma entry_empty [simp]: "entry k empty_db = None"
  by (simp add: empty_db_def)

lemma fst_alter [simp]: "fst (alter key f db) = fst (f (entry key db))"
  by (simp add: alter_def case_prod_beta)

lemma pubsub_write_entry [simp]: "pubsub (write_entry key e db) = pubsub db"
  by (simp add: write_entry_def)

lemma pubsub_alter [simp]: "pubsub (snd (alter key f db)) = pubsub db"
  by (simp add: alter_def case_prod_beta)

lemma entry_write_entry [simp]: "entry k (write_entry key e db) = (if k = key then e else entry k db)"
  by (simp add: write_entry_def split: option.split)

lemma entry_alter [simp]:
  "entry k (snd (alter key f db)) = (if k = key then snd (f (entry key db)) else entry k db)"
  by (simp add: alter_def case_prod_beta)

lemma delete_absent: "map_of m k = None \<Longrightarrow> AList.delete k m = m"
  by (auto simp: AList.delete_eq filter_id_conv map_of_eq_None_iff image_iff)

lemma write_entry_same [simp]: "write_entry key (entry key db) db = db"
  by (cases "entry key db") (simp_all add: write_entry_def update_id_conv delete_absent)

text \<open>An operation that leaves the entry as it was leaves the whole database as it was.\<close>

lemma alter_unchanged: "snd (f (entry key db)) = entry key db \<Longrightarrow> snd (alter key f db) = db"
  using write_entry_same [of key db] by (simp add: alter_def case_prod_beta)

lemma entry_increment [simp]:
  "entry k (db_increment_mod_count key db) =
     (if k = key
      then Some (case entry key db of
          Some v \<Rightarrow> v\<lparr>mod_count := mod_count v + 1\<rparr>
        | None \<Rightarrow> (new_value String)\<lparr>mod_count := 1\<rparr>)
      else entry k db)"
  by (simp add: db_increment_mod_count_def split: option.split)

lemma pubsub_increment [simp]: "pubsub (db_increment_mod_count key db) = pubsub db"
  by (simp add: db_increment_mod_count_def)

section \<open>Properties of all stored values\<close>

definition all_values :: "(redis_value \<Rightarrow> bool) \<Rightarrow> database \<Rightarrow> bool" where
  "all_values P db \<longleftrightarrow> list_all (\<lambda>(k, v). P v) (data db)"

lemma all_values_empty [simp]: "all_values P empty_db"
  by (simp add: all_values_def empty_db_def)

lemma all_values_entry: "all_values P db \<Longrightarrow> entry k db = Some v \<Longrightarrow> P v"
  by (auto simp: all_values_def list_all_iff dest: map_of_SomeD)

lemma all_values_at_key: "all_values P db \<Longrightarrow> P (new_value String) \<Longrightarrow> P (at_key (entry k db))"
  by (auto simp: at_key_def split: option.split intro: all_values_entry)

lemma all_values_write_entry:
  assumes "all_values P db" "\<And>v. e = Some v \<Longrightarrow> P v"
  shows "all_values P (write_entry key e db)"
proof (cases e)
  case None
  then show ?thesis
    using assms(1) set_delete_subset [of key "data db"]
    by (auto simp: all_values_def write_entry_def list_all_iff)
next
  case (Some v)
  then show ?thesis
    using assms set_update_subset [of key v "data db"]
    by (fastforce simp: all_values_def write_entry_def list_all_iff)
qed

lemma all_values_alter:
  assumes "all_values P db" "\<And>v. snd (f (entry key db)) = Some v \<Longrightarrow> P v"
  shows "all_values P (snd (alter key f db))"
  using assms by (auto simp: alter_def case_prod_beta intro: all_values_write_entry)

section \<open>Well-formed databases\<close>

definition value_wf :: "redis_value \<Rightarrow> bool" where
  "value_wf v \<longleftrightarrow> distinct (set_val v) \<and> umap_wf (hash_val v) \<and> umap_wf (zset_member_to_score v)"

definition db_wf :: "database \<Rightarrow> bool" where
  "db_wf db \<longleftrightarrow> umap_wf (data db) \<and> all_values value_wf db \<and> pubsub_wf (pubsub db)"

lemma value_wf_new [simp]: "value_wf (new_value t)"
  by (simp add: value_wf_def)

lemma db_wf_empty [simp]: "db_wf empty_db"
  by (simp add: db_wf_def) (simp add: empty_db_def pubsub_wf_def)

lemma db_wf_entry: "db_wf db \<Longrightarrow> entry k db = Some v \<Longrightarrow> value_wf v"
  by (auto simp: db_wf_def intro: all_values_entry)

lemma value_wf_at_key [simp]: "db_wf db \<Longrightarrow> value_wf (at_key (entry k db))"
  by (simp add: db_wf_def all_values_at_key)

lemma db_wf_write_entry:
  assumes "db_wf db" "\<And>v. e = Some v \<Longrightarrow> value_wf v"
  shows "db_wf (write_entry key e db)"
  using assms all_values_write_entry [of value_wf db e key]
  by (cases e) (auto simp: db_wf_def write_entry_def)

lemma db_wf_alter:
  assumes "db_wf db" "\<And>v. snd (f (entry key db)) = Some v \<Longrightarrow> value_wf v"
  shows "db_wf (snd (alter key f db))"
  using assms by (auto simp: alter_def case_prod_beta intro: db_wf_write_entry)

lemma value_wf_update [simp]:
  "value_wf (v\<lparr>value_type := t\<rparr>) = value_wf v" "value_wf (v\<lparr>expiry_time := x\<rparr>) = value_wf v"
  "value_wf (v\<lparr>mod_count := n\<rparr>) = value_wf v" "value_wf (v\<lparr>str_val := s\<rparr>) = value_wf v"
  "value_wf (v\<lparr>list_val := l\<rparr>) = value_wf v"
  "value_wf (v\<lparr>zset_score_to_member := z\<rparr>) = value_wf v"
  by (simp_all add: value_wf_def)

lemma distinct_fold_delete: "umap_wf h \<Longrightarrow> umap_wf (fold AList.delete flds h)"
  by (induction flds arbitrary: h) (simp_all add: umap_wf_delete)

lemma db_wf_ops:
  assumes "db_wf db"
  shows "db_wf (snd (db_set key val db))" "db_wf (snd (db_get now key db))"
    "db_wf (snd (db_del key db))" "db_wf (snd (db_exists now key db))"
    "db_wf (snd (db_type now key db))" "db_wf (snd (db_expire now now' key n db))"
    "db_wf (snd (db_pexpire now now' key n db))" "db_wf (snd (db_ttl now now' key db))"
    "db_wf (snd (db_pttl now now' key db))" "db_wf (snd (db_persist now key db))"
    "db_wf (db_increment_mod_count key db)" "db_wf (snd (db_lpush key vals db))"
    "db_wf (snd (db_rpush key vals db))" "db_wf (snd (db_lpop key db))"
    "db_wf (snd (db_rpop key db))" "db_wf (snd (db_llen now key db))"
  unfolding db_defs
  by (rule db_wf_alter [OF assms],
      use db_wf_entry [OF assms] value_wf_at_key [OF assms] in
        \<open>auto simp: Let_def set_expiry_seconds_def set_expiry_milliseconds_def persist_value_def
          split: option.splits if_splits list.splits\<close>)+

lemma db_wf_collections:
  assumes "db_wf db"
  shows "db_wf (snd (db_sadd key ms db))" "db_wf (snd (db_srem key ms db))"
    "db_wf (snd (db_hset key f s db))" "db_wf (snd (db_hdel key fs db))"
  using assms value_wf_at_key [OF assms, of key] unfolding db_defs
  by (auto intro!: db_wf_alter simp: Let_def value_wf_def distinct_fold_delete at_key_def
      split: option.splits if_splits)

end
