(* ===== verification/Database_Laws.thy ===== *)
theory Database_Laws
  imports Database
begin

text \<open>
  What the operations of the keyspace promise: an operation on one key is local to that key
  (locale \<open>key_op\<close>) and two of them on different keys commute (locale \<open>key_ops\<close>); lists work as
  queues and stacks (locale \<open>sequence\<close>); sets and hashes refine finite sets and maps; the index
  arithmetic of ranges never leaves the list; expiry times count down.
\<close>

section \<open>Interface: an operation on one key\<close>

locale key_op =
  fixes f :: "string \<Rightarrow> database \<Rightarrow> 'r \<times> database"
  assumes frame: "k' \<noteq> k \<Longrightarrow> entry k' (snd (f k db)) = entry k' db"
    and local_result: "entry k db = entry k db' \<Longrightarrow> fst (f k db) = fst (f k db')"
    and local_entry: "entry k db = entry k db' \<Longrightarrow> entry k (snd (f k db)) = entry k (snd (f k db'))"
    and keeps_pubsub: "pubsub (snd (f k db)) = pubsub db"

locale key_ops = f: key_op f + g: key_op g
  for f :: "string \<Rightarrow> database \<Rightarrow> 'r \<times> database" and g :: "string \<Rightarrow> database \<Rightarrow> 's \<times> database"
begin

lemma commute_entry:
  assumes "k \<noteq> l"
  shows "entry j (snd (f k (snd (g l db)))) = entry j (snd (g l (snd (f k db))))"
proof -
  consider "j = k" | "j = l" | "j \<noteq> k" "j \<noteq> l" by blast
  then show ?thesis
  proof cases
    case 1
    then show ?thesis
      using assms by (simp add: g.frame f.local_entry [OF g.frame])
  next
    case 2
    then show ?thesis
      using assms by (simp add: f.frame g.local_entry [OF f.frame, symmetric])
  qed (simp add: f.frame g.frame)
qed

lemma commute_results:
  assumes "k \<noteq> l"
  shows "fst (f k (snd (g l db))) = fst (f k db)" "fst (g l (snd (f k db))) = fst (g l db)"
  using assms by (auto intro!: f.local_result g.local_result simp: f.frame g.frame)

lemma commute_pubsub: "pubsub (snd (f k (snd (g l db)))) = pubsub (snd (g l (snd (f k db))))"
  by (simp add: f.keeps_pubsub g.keeps_pubsub)

end

lemma key_op_alter: "key_op (\<lambda>k. alter k (h k))"
  by unfold_locales simp_all

lemma key_op_fun: "(\<And>k. f k = alter k (h k)) \<Longrightarrow> key_op f"
  using key_op_alter [of h] by (simp add: key_op_def)

interpretation alters: key_ops "\<lambda>k. alter k (h k)" "\<lambda>k. alter k (h' k)"
  for h :: "string \<Rightarrow> redis_value option \<Rightarrow> 'r \<times> redis_value option"
    and h' :: "string \<Rightarrow> redis_value option \<Rightarrow> 's \<times> redis_value option"
  by (rule key_ops.intro) (rule key_op_alter)+

interpretation set_op: key_op "\<lambda>k. db_set k s" for s
  by (rule key_op_fun) (simp add: db_set_def)

interpretation get_op: key_op "db_get now" for now
  by (rule key_op_fun) (simp add: db_get_def)

interpretation del_op: key_op db_del
  by (rule key_op_fun) (simp add: db_del_def)

interpretation exists_op: key_op "db_exists now" for now
  by (rule key_op_fun) (simp add: db_exists_def)

interpretation expire_op: key_op "\<lambda>k. db_expire now now' k n" for now now' n
  by (rule key_op_fun) (simp add: db_expire_def)

interpretation lpush_op: key_op "\<lambda>k. db_lpush k vs" for vs
  by (rule key_op_fun) (simp add: db_lpush_def)

interpretation rpush_op: key_op "\<lambda>k. db_rpush k vs" for vs
  by (rule key_op_fun) (simp add: db_rpush_def)

interpretation lpop_op: key_op db_lpop
  by (rule key_op_fun) (simp add: db_lpop_def)

interpretation rpop_op: key_op db_rpop
  by (rule key_op_fun) (simp add: db_rpop_def)

interpretation sadd_op: key_op "\<lambda>k. db_sadd k ms" for ms
  by (rule key_op_fun) (simp add: db_sadd_def)

interpretation srem_op: key_op "\<lambda>k. db_srem k ms" for ms
  by (rule key_op_fun) (simp add: db_srem_def)

interpretation hset_op: key_op "\<lambda>k. db_hset k fld s" for fld s
  by (rule key_op_fun) (simp add: db_hset_def)

interpretation hdel_op: key_op "\<lambda>k. db_hdel k flds" for flds
  by (rule key_op_fun) (simp add: db_hdel_def)

section \<open>Strings\<close>

lemma db_get_after_set:
  assumes "\<And>v. entry k db = Some v \<Longrightarrow> \<not> is_expired now v"
  shows "db_get now k (snd (db_set k s db)) = (s, snd (db_set k s db))"
proof -
  have "\<not> is_expired now (at_key (entry k db))"
    using assms by (auto simp: at_key_def split: option.split)
  then show ?thesis
    by (intro prod_eqI) (simp_all add: db_get_def db_set_def alter_unchanged)
qed

text \<open>An expired entry keeps its expiry time when it is overwritten, so the new value is gone.\<close>

lemma db_get_after_set_expired:
  assumes "entry k db = Some v" "is_expired now v"
  shows "fst (db_get now k (snd (db_set k s db))) = []"
    and "entry k (snd (db_get now k (snd (db_set k s db)))) = None"
  using assms by (simp_all add: db_get_def db_set_def at_key_def)

lemma db_del_removes: "entry k (snd (db_del k db)) = None" "fst (db_del k db) \<longleftrightarrow> entry k db \<noteq> None"
  by (simp_all add: db_del_def)

text \<open>A key exists when it has an entry that is not expired; asking erases an expired entry.\<close>

definition live :: "int \<Rightarrow> string \<Rightarrow> database \<Rightarrow> bool" where
  "live now k db = (case entry k db of None \<Rightarrow> False | Some v \<Rightarrow> \<not> is_expired now v)"

lemma db_exists_live: "fst (db_exists now k db) = live now k db"
  by (simp add: db_exists_def live_def split: option.split)

lemma db_exists_entry:
  "entry k (snd (db_exists now k db)) = (if live now k db then entry k db else None)"
  by (simp add: db_exists_def live_def split: option.split)

lemma db_exists_unchanged: "live now k db \<Longrightarrow> snd (db_exists now k db) = db"
  by (cases "entry k db") (simp_all add: db_exists_def live_def alter_unchanged)

lemma db_exists_idem: "snd (db_exists now k (snd (db_exists now k db))) = snd (db_exists now k db)"
  by (cases "entry k db") (simp_all add: db_exists_def alter_unchanged)

lemma db_type_live: "live now k db \<Longrightarrow> db_type now k db = (value_type (the (entry k db)), db)"
  by (cases "entry k db") (simp_all add: prod_eq_iff db_type_def live_def alter_unchanged)

lemma db_get_live:
  "live now k db \<Longrightarrow> value_type (the (entry k db)) = String \<Longrightarrow>
     db_get now k db = (str_val (the (entry k db)), db)"
  by (intro prod_eqI) (auto simp: db_get_def live_def split: option.splits intro!: alter_unchanged)

section \<open>Lists as sequences\<close>

definition list_of_entry :: "redis_value option \<Rightarrow> string list" where
  "list_of_entry e = (if has_type List e then list_val (the e) else [])"

text \<open>The list a push extends: what the entry stores in its list field, whatever its type is.\<close>

definition stored_list :: "redis_value option \<Rightarrow> string list" where
  "stored_list e = list_val (at_key e)"

lemma stored_list_typed: "e = None \<or> has_type List e \<Longrightarrow> stored_list e = list_of_entry e"
  by (auto simp: stored_list_def list_of_entry_def at_key_def has_type_def split: option.splits)

lemma db_lpush_list: "list_of_entry (entry k (snd (db_lpush k vs db))) = rev vs @ stored_list (entry k db)"
  by (simp add: db_lpush_def list_of_entry_def has_type_def stored_list_def Let_def)

lemma db_rpush_list: "list_of_entry (entry k (snd (db_rpush k vs db))) = stored_list (entry k db) @ vs"
  by (simp add: db_rpush_def list_of_entry_def has_type_def stored_list_def Let_def)

lemma db_push_result:
  "fst (db_lpush k vs db) = length vs + length (stored_list (entry k db))"
  "fst (db_rpush k vs db) = length (stored_list (entry k db)) + length vs"
  by (simp_all add: db_lpush_def db_rpush_def stored_list_def Let_def)

lemma has_type_push:
  "has_type List (entry k (snd (db_lpush k vs db)))" "has_type List (entry k (snd (db_rpush k vs db)))"
  by (simp_all add: db_lpush_def db_rpush_def has_type_def Let_def)

lemma db_lpop_list:
  "list_of_entry (entry k (snd (db_lpop k db))) = tl (list_of_entry (entry k db))"
  "list_of_entry (entry k db) \<noteq> [] \<Longrightarrow> fst (db_lpop k db) = hd (list_of_entry (entry k db))"
  by (auto simp: db_lpop_def list_of_entry_def has_type_def split: option.splits list.splits)

lemma db_rpop_list:
  "list_of_entry (entry k (snd (db_rpop k db))) = butlast (list_of_entry (entry k db))"
  "list_of_entry (entry k db) \<noteq> [] \<Longrightarrow> fst (db_rpop k db) = last (list_of_entry (entry k db))"
  by (auto simp: db_rpop_def list_of_entry_def has_type_def split: option.splits)

lemma has_type_pop:
  "has_type List (entry k db) \<Longrightarrow> has_type List (entry k (snd (db_lpop k db)))"
  "has_type List (entry k db) \<Longrightarrow> has_type List (entry k (snd (db_rpop k db)))"
  by (auto simp: db_lpop_def db_rpop_def has_type_def split: option.splits list.splits)

text \<open>
  A key used with one push and one pop.  \<open>contents\<close> is what a reader of the interface sees,
  the oldest item first; \<open>at_end\<close> tells whether a pop takes the oldest (a queue) or the newest
  item (a stack).
\<close>

locale sequence =
  fixes push :: "'a \<Rightarrow> 's \<Rightarrow> 's"
    and pop :: "'s \<Rightarrow> 'a \<times> 's"
    and contents :: "'s \<Rightarrow> 'a list"
    and ok :: "'s \<Rightarrow> bool"
  assumes push_contents: "ok s \<Longrightarrow> contents (push x s) = contents s @ [x]"
    and push_ok: "ok s \<Longrightarrow> ok (push x s)"
    and pop_ok: "ok s \<Longrightarrow> ok (snd (pop s))"
begin

lemma push_all: "ok s \<Longrightarrow> contents (fold push xs s) = contents s @ xs \<and> ok (fold push xs s)"
  by (induction xs arbitrary: s) (simp_all add: push_contents push_ok)

fun pops :: "nat \<Rightarrow> 's \<Rightarrow> 'a list \<times> 's" where
  "pops 0 s = ([], s)"
| "pops (Suc n) s = (let (x, s') = pop s; (xs, s'') = pops n s' in (x # xs, s''))"

end

locale fifo = sequence +
  assumes pop_first: "ok s \<Longrightarrow> contents s = x # xs \<Longrightarrow> fst (pop s) = x \<and> contents (snd (pop s)) = xs"
begin

lemma pops_in_order:
  "ok s \<Longrightarrow> contents s = xs @ ys \<Longrightarrow> fst (pops (length xs) s) = xs"
proof (induction xs arbitrary: s)
  case (Cons x xs)
  then have "fst (pop s) = x" "contents (snd (pop s)) = xs @ ys"
    using pop_first [of s x "xs @ ys"] by auto
  with Cons show ?case by (simp add: case_prod_beta Let_def pop_ok)
qed simp

lemma push_pops: "ok s \<Longrightarrow> contents s = [] \<Longrightarrow> fst (pops (length xs) (fold push xs s)) = xs"
  using push_all [of s xs] pops_in_order [of "fold push xs s" xs "[]"] by simp

end

locale lifo = sequence +
  assumes pop_last: "ok s \<Longrightarrow> contents s = xs @ [x] \<Longrightarrow> fst (pop s) = x \<and> contents (snd (pop s)) = xs"
begin

lemma push_pop: "ok s \<Longrightarrow> fst (pop (push x s)) = x \<and> contents (snd (pop (push x s))) = contents s"
  using pop_last [of "push x s" "contents s" x] by (simp add: push_contents push_ok)

end

definition list_key :: "string \<Rightarrow> database \<Rightarrow> bool" where
  "list_key k db \<longleftrightarrow> entry k db = None \<or> has_type List (entry k db)"

lemma list_key_pop:
  "list_key k db \<Longrightarrow> list_key k (snd (db_lpop k db))" "list_key k db \<Longrightarrow> list_key k (snd (db_rpop k db))"
  using has_type_pop [of db k] by (auto simp: db_lpop_def db_rpop_def list_key_def)

lemma list_key_push:
  "list_key k (snd (db_lpush k vs db))" "list_key k (snd (db_rpush k vs db))"
  by (simp_all add: list_key_def has_type_push)

lemma list_key_stored: "list_key k db \<Longrightarrow> stored_list (entry k db) = list_of_entry (entry k db)"
  by (simp add: list_key_def stored_list_typed)

lemmas list_key_simps = list_key_pop list_key_push list_key_stored db_lpush_list db_rpush_list

interpretation rq: fifo "\<lambda>x db. snd (db_rpush k [x] db)" "db_lpop k"
  "\<lambda>db. list_of_entry (entry k db)" "list_key k" for k
proof unfold_locales
  fix db x xs assume "list_of_entry (entry k db) = x # xs"
  then show "fst (db_lpop k db) = x \<and> list_of_entry (entry k (snd (db_lpop k db))) = xs"
    using db_lpop_list [where k = k and db = db] by auto
qed (simp_all add: list_key_simps)

interpretation lq: fifo "\<lambda>x db. snd (db_lpush k [x] db)" "db_rpop k"
  "\<lambda>db. rev (list_of_entry (entry k db))" "list_key k" for k
proof unfold_locales
  fix db x xs assume "rev (list_of_entry (entry k db)) = x # xs"
  then have "list_of_entry (entry k db) = rev xs @ [x]" by (simp add: rev_eq_Cons_iff)
  then show "fst (db_rpop k db) = x \<and> rev (list_of_entry (entry k (snd (db_rpop k db)))) = xs"
    using db_rpop_list [where k = k and db = db] by auto
qed (simp_all add: list_key_simps)

interpretation ls: lifo "\<lambda>x db. snd (db_lpush k [x] db)" "db_lpop k"
  "\<lambda>db. rev (list_of_entry (entry k db))" "list_key k" for k
proof unfold_locales
  fix db xs x assume "rev (list_of_entry (entry k db)) = xs @ [x]"
  then have "list_of_entry (entry k db) = x # rev xs" by (simp add: rev_eq_append_conv)
  then show "fst (db_lpop k db) = x \<and> rev (list_of_entry (entry k (snd (db_lpop k db)))) = xs"
    using db_lpop_list [where k = k and db = db] by auto
qed (simp_all add: list_key_simps)

section \<open>Ranges\<close>

text \<open>Whatever the size and the arguments, a nonempty range lies inside the list.\<close>

lemma wrap32_le: "0 \<le> x \<Longrightarrow> wrap32 x \<le> x"
  unfolding wrap32_def using zmod_le_nonneg_dividend [of "x + 2 ^ 31" "2 ^ 32"] by simp

lemma wrap32_pred_less: "0 \<le> x \<Longrightarrow> wrap32 (wrap32 x - 1) \<le> x - 1 \<or> wrap32 (wrap32 x - 1) < 0"
proof (cases "wrap32 x = - (2 ^ 31)")
  case True
  assume "0 \<le> x"
  then have "2 ^ 31 \<le> x"
    using True wrap32_id [of x] by linarith
  then show ?thesis unfolding True by (simp add: wrap32_def)
next
  case False
  assume "0 \<le> x"
  have "wrap32 (wrap32 x - 1) = wrap32 x - 1"
    using False wrap32_bounds [of x] by (intro wrap32_id) linarith+
  then show ?thesis using wrap32_le [OF \<open>0 \<le> x\<close>] by linarith
qed

lemma range_bounds_inside:
  assumes "range_bounds n start stop = (i, j)" "i \<le> j"
  shows "0 \<le> i" "j < int n"
  using assms wrap32_pred_less [of "int n"] by (auto simp: range_bounds_def Let_def)

text \<open>For sizes that fit an \<open>int\<close>, the bounds are the intended ones.\<close>

lemma range_bounds_exact:
  assumes "n < 2 ^ 31" "- (2 ^ 31) \<le> start" "- (2 ^ 31) \<le> stop"
  shows "range_bounds n start stop =
    (max 0 (if start < 0 then int n + start else start),
     min (int n - 1) (if stop < 0 then int n + stop else stop))"
  using assms by (simp add: range_bounds_def Let_def)

lemma db_lrange_list:
  "db_lrange k start stop db =
     (let xs = list_of_entry (entry k db); (i, j) = range_bounds (length xs) start stop
      in if i \<le> j then slice i j xs else [])"
  using range_bounds_inside [of 0 start stop]
  by (fastforce simp: db_lrange_def list_of_entry_def has_type_def slice_def case_prod_beta Let_def split: option.split)

lemma db_lrange_all:
  assumes "length (list_of_entry (entry k db)) < 2 ^ 31"
  shows "db_lrange k 0 (- 1) db = list_of_entry (entry k db)"
  using assms
  by (cases "list_of_entry (entry k db) = []")
    (auto simp: db_lrange_list range_bounds_exact Let_def slice_all)

text \<open>What a reader sees of a list: its length and its elements by index.\<close>

lemma db_llen_list:
  assumes "\<forall>v. entry k db = Some v \<longrightarrow> \<not> is_expired now v"
  shows "fst (db_llen now k db) = length (list_of_entry (entry k db))"
  using assms by (simp add: db_llen_def list_of_entry_def has_type_def split: option.split)

lemma db_lindex_list:
  "db_lindex k (int i) db = (if i < length (list_of_entry (entry k db)) then list_of_entry (entry k db) ! i else [])"
  by (simp add: db_lindex_def list_of_entry_def has_type_def Let_def split: option.split)

lemma db_lindex_negative:
  assumes "length (list_of_entry (entry k db)) < 2 ^ 31" "0 < i" "i \<le> 2 ^ 31"
  shows "db_lindex k (- int i) db =
    (if i \<le> length (list_of_entry (entry k db)) then db_lindex k (int (length (list_of_entry (entry k db)) - i)) db else [])"
  using assms by (auto simp: db_lindex_def list_of_entry_def has_type_def Let_def nat_diff_distrib split: option.split)

text \<open>The indices between two bounds, negative ones counted from the end.\<close>

definition clipped :: "nat \<Rightarrow> int \<Rightarrow> int \<Rightarrow> nat list" where
  "clipped n start stop =
     [nat (if start < 0 then int n + start else start)..<nat (1 + min (int n - 1) (if stop < 0 then int n + stop else stop))]"

lemma db_lrange_indices:
  assumes "length (list_of_entry (entry k db)) < 2 ^ 31"
    and "- (2 ^ 31) \<le> start" "start < 2 ^ 31" "- (2 ^ 31) \<le> stop" "stop < 2 ^ 31"
  shows "db_lrange k start stop db =
    map (\<lambda>i. db_lindex k (int i) db) (clipped (length (list_of_entry (entry k db))) start stop)"
proof -
  let ?xs = "list_of_entry (entry k db)"
  let ?n = "int (length ?xs)"
  let ?i = "if start < 0 then ?n + start else start" and ?j = "min (?n - 1) (if stop < 0 then ?n + stop else stop)"
  have "range_bounds (length ?xs) start stop = (max 0 ?i, ?j)"
    using assms by (simp add: range_bounds_exact)
  then have "db_lrange k start stop db = map ((!) ?xs) [nat ?i..<nat (1 + ?j)]"
    by (auto simp: db_lrange_list Let_def slice_map_nth nat_max_0 add.commute)
  also have "\<dots> = map (\<lambda>i. db_lindex k (int i) db) [nat ?i..<nat (1 + ?j)]"
    by (intro map_cong refl) (auto simp: db_lindex_list)
  finally show ?thesis by (simp add: clipped_def)
qed

lemma push_pop_live:
  assumes "\<forall>v. entry k db = Some v \<longrightarrow> \<not> is_expired now v"
  shows "\<forall>v. entry k (snd (db_rpush k vs db)) = Some v \<longrightarrow> \<not> is_expired now v"
    "\<forall>v. entry k (snd (db_lpush k vs db)) = Some v \<longrightarrow> \<not> is_expired now v"
    "\<forall>v. entry k (snd (db_lpop k db)) = Some v \<longrightarrow> \<not> is_expired now v"
    "\<forall>v. entry k (snd (db_rpop k db)) = Some v \<longrightarrow> \<not> is_expired now v"
  using assms
  by (auto simp: db_rpush_def db_lpush_def db_lpop_def db_rpop_def at_key_def is_expired_def new_value_def Let_def
      split: option.splits list.splits if_splits)

lemma db_lrange_subset: "set (db_lrange k start stop db) \<subseteq> set (list_of_entry (entry k db))"
  using set_slice_subset by (fastforce simp: db_lrange_list Let_def split: prod.splits if_splits)

section \<open>Sets\<close>

definition members :: "string \<Rightarrow> database \<Rightarrow> string set" where
  "members k db = set (set_of_entry (entry k db))"

definition stored_members :: "string \<Rightarrow> database \<Rightarrow> string set" where
  "stored_members k db = set (set_val (at_key (entry k db)))"

lemma members_not_set: "\<not> has_type Set (entry k db) \<Longrightarrow> members k db = {}"
  by (simp add: members_def set_of_entry_def)

lemma distinct_set_of_entry [simp]: "db_wf db \<Longrightarrow> distinct (set_of_entry (entry k db))"
  using db_wf_entry [of db k]
  by (auto simp: set_of_entry_def has_type_def value_wf_def split: option.splits)

lemma db_sadd_members: "members k (snd (db_sadd k ms db)) = stored_members k db \<union> set ms"
  by (simp add: members_def stored_members_def db_sadd_def set_of_entry_def has_type_def Let_def)

lemma db_sadd_count:
  assumes "db_wf db"
  shows "fst (db_sadd k ms db) = card (set ms - stored_members k db)"
proof -
  let ?s = "set_val (at_key (entry k db))"
  have d: "distinct ?s" using value_wf_at_key [OF assms, of k] by (simp add: value_wf_def)
  then have "length (uset_insert_all ms ?s) - length ?s = card (set ?s \<union> set ms) - card (set ?s)"
    by (simp add: length_distinct_card)
  also have "\<dots> = card ((set ?s \<union> set ms) - set ?s)"
    by (rule card_Diff_subset [symmetric]) auto
  also have "(set ?s \<union> set ms) - set ?s = set ms - set ?s" by blast
  finally show ?thesis by (simp add: db_sadd_def stored_members_def Let_def)
qed

lemma db_srem_members: "members k (snd (db_srem k ms db)) = members k db - set ms"
  by (auto simp: members_def db_srem_def set_of_entry_def has_type_def Let_def split: option.split)

lemma db_srem_count:
  assumes "db_wf db"
  shows "fst (db_srem k ms db) = card (members k db \<inter> set ms)"
proof (cases "has_type Set (entry k db)")
  case True
  then obtain v where v: "entry k db = Some v" "value_type v = Set" by (auto simp: has_type_def split: option.splits)
  have d: "distinct (set_val v)" using db_wf_entry [OF assms v(1)] by (simp add: value_wf_def)
  then have "length (set_val v) - length (uset_erase_all ms (set_val v)) =
      card (set (set_val v)) - card (set (set_val v) - set ms)"
    by (simp add: length_distinct_card)
  also have "\<dots> = card (set (set_val v) \<inter> set ms)"
    by (metis card_Diff_subset_Int Diff_Diff_Int List.finite_set Int_lower1 card_Diff_subset finite_Diff Diff_subset)
  finally show ?thesis
    using v by (simp add: db_srem_def members_def set_of_entry_def has_type_def Let_def)
next
  case False
  then show ?thesis
    by (auto simp: db_srem_def members_not_set has_type_def split: option.splits)
qed

lemma db_sismember_members: "db_sismember k x db \<longleftrightarrow> x \<in> members k db"
  by (simp add: db_sismember_def members_def)

lemma db_scard_members: "db_wf db \<Longrightarrow> db_scard k db = card (members k db)"
  by (simp add: db_scard_def members_def length_distinct_card)

lemma db_smembers_members:
  "set (db_smembers k db) = members k db" "db_wf db \<Longrightarrow> distinct (db_smembers k db)"
  by (simp_all add: db_smembers_def members_def)

lemma sinter_loop_members:
  "set (sinter_loop db result ks) = (set result \<inter> (\<Inter>k\<in>set ks. members k db))"
proof (induction ks arbitrary: result)
  case (Cons k ks)
  show ?case
  proof (cases "has_type Set (entry k db)")
    case True
    then show ?thesis using Cons.IH by (auto simp: members_def)
  qed (simp add: members_not_set)
qed simp

lemma distinct_sinter_loop: "distinct result \<Longrightarrow> distinct (sinter_loop db result ks)"
  by (induction ks arbitrary: result) auto

lemma db_sinter_members: "ks \<noteq> [] \<Longrightarrow> set (db_sinter ks db) = (\<Inter>k\<in>set ks. members k db)"
  by (cases ks) (auto simp: db_sinter_def sinter_loop_members members_not_set, auto simp: members_def)

lemma db_sunion_members: "set (db_sunion ks db) = (\<Union>k\<in>set ks. members k db)"
proof -
  have "set (fold (\<lambda>k. uset_insert_all (set_of_entry (entry k db))) ks acc) =
      set acc \<union> (\<Union>k\<in>set ks. members k db)" for acc
    by (induction ks arbitrary: acc) (auto simp: members_def)
  then show ?thesis by (simp add: db_sunion_def)
qed

lemma db_sdiff_members: "set (db_sdiff (k # ks) db) = members k db - (\<Union>l\<in>set ks. members l db)"
proof -
  have "set (fold (\<lambda>l. uset_erase_all (set_of_entry (entry l db))) ks acc) =
      set acc - (\<Union>l\<in>set ks. members l db)" for acc
    by (induction ks arbitrary: acc) (auto simp: members_def)
  then show ?thesis by (auto simp: db_sdiff_def members_not_set, auto simp: members_def)
qed

lemma db_set_results_distinct:
  assumes "db_wf db"
  shows "distinct (db_sinter ks db)" "distinct (db_sunion ks db)" "distinct (db_sdiff ks db)"
proof -
  have "distinct acc \<Longrightarrow> distinct (fold (\<lambda>k. uset_insert_all (set_of_entry (entry k db))) ks acc)" for acc
    by (induction ks arbitrary: acc) auto
  then show "distinct (db_sunion ks db)" by (simp add: db_sunion_def)
  have "distinct acc \<Longrightarrow> distinct (fold (\<lambda>k. uset_erase_all (set_of_entry (entry k db))) ls acc)" for ls acc
    by (induction ls arbitrary: acc) auto
  then show "distinct (db_sdiff ks db)" using assms by (auto simp: db_sdiff_def split: list.split)
  show "distinct (db_sinter ks db)"
    using assms by (auto simp: db_sinter_def distinct_sinter_loop split: list.split)
qed

section \<open>Hashes\<close>

definition hash_fields :: "string \<Rightarrow> database \<Rightarrow> string \<rightharpoonup> string" where
  "hash_fields k db = map_of (hash_of_entry (entry k db))"

definition stored_fields :: "string \<Rightarrow> database \<Rightarrow> string \<rightharpoonup> string" where
  "stored_fields k db = map_of (hash_val (at_key (entry k db)))"

lemma db_hset_fields: "hash_fields k (snd (db_hset k fld s db)) = (stored_fields k db)(fld \<mapsto> s)"
  by (simp add: hash_fields_def stored_fields_def db_hset_def hash_of_entry_def has_type_def Let_def fun_eq_iff)

lemma map_of_fold_delete: "map_of (fold AList.delete flds h) f = (if f \<in> set flds then None else map_of h f)"
  by (induction flds arbitrary: h) auto

lemma db_hdel_fields:
  "hash_fields k (snd (db_hdel k flds db)) = (\<lambda>f. if f \<in> set flds then None else hash_fields k db f)"
  by (simp add: hash_fields_def db_hdel_def hash_of_entry_def has_type_def Let_def fun_eq_iff
      map_of_fold_delete split: option.split)

lemma length_umap: "umap_wf h \<Longrightarrow> length h = card (dom (map_of h))"
  using distinct_card [of "map fst h"] by (simp add: dom_map_of_conv_image_fst)

lemma db_hdel_result:
  assumes "db_wf db"
  shows "fst (db_hdel k flds db) \<longleftrightarrow> (\<exists>f\<in>set flds. hash_fields k db f \<noteq> None)"
proof (cases "has_type Hash (entry k db)")
  case True
  then obtain v where v: "entry k db = Some v" "value_type v = Hash" by (auto simp: has_type_def split: option.splits)
  let ?h = "hash_val v" and ?h' = "fold AList.delete flds (hash_val v)"
  have wf: "umap_wf ?h" using db_wf_entry [OF assms v(1)] by (simp add: value_wf_def)
  have dom: "dom (map_of ?h') = dom (map_of ?h) - set flds"
    by (auto simp: map_of_fold_delete split: if_splits)
  have "length ?h' < length ?h \<longleftrightarrow> card (dom (map_of ?h) - set flds) < card (dom (map_of ?h))"
    using wf by (simp add: length_umap distinct_fold_delete flip: dom)
  also have "\<dots> \<longleftrightarrow> dom (map_of ?h) \<inter> set flds \<noteq> {}"
  proof
    show "card (dom (map_of ?h) - set flds) < card (dom (map_of ?h)) \<Longrightarrow> dom (map_of ?h) \<inter> set flds \<noteq> {}"
      by (auto simp: Diff_triv)
  qed (auto intro!: psubset_card_mono simp: finite_dom_map_of)
  finally show ?thesis
    using v by (auto simp: db_hdel_def hash_fields_def hash_of_entry_def has_type_def Let_def)
next
  case False
  then show ?thesis
    by (auto simp: db_hdel_def hash_fields_def hash_of_entry_def has_type_def split: option.splits)
qed

lemma db_hget_fields: "db_hget k fld db = (case hash_fields k db fld of Some s \<Rightarrow> s | None \<Rightarrow> [])"
  by (simp add: db_hget_def hash_fields_def)

lemma umap_wf_hash_of_entry [simp]: "db_wf db \<Longrightarrow> umap_wf (hash_of_entry (entry k db))"
  using db_wf_entry [of db k]
  by (auto simp: hash_of_entry_def has_type_def value_wf_def split: option.splits)

lemma db_hash_views:
  assumes "db_wf db"
  shows "db_hlen k db = card (dom (hash_fields k db))"
    "set (db_hkeys k db) = dom (hash_fields k db)" "distinct (db_hkeys k db)"
    "set (db_hvals k db) = ran (hash_fields k db)"
    "map_of (db_hgetall k db) = hash_fields k db"
  using assms
  by (simp_all add: db_hlen_def db_hkeys_def db_hvals_def db_hgetall_def hash_fields_def length_umap
      dom_map_of_conv_image_fst ran_distinct)

section \<open>Expiry\<close>

lemma db_pexpire_then:
  assumes "entry k db = Some v" "\<not> is_expired now v"
    and "0 \<le> now'" "0 < ms" "now' + ms < 2 ^ 63"
  defines "db' \<equiv> snd (db_pexpire now now' k ms db)"
  shows "fst (db_pexpire now now' k ms db)"
    and "live t k db' \<longleftrightarrow> t < now' + ms"
    and "0 \<le> t \<Longrightarrow> t \<le> u \<Longrightarrow> u < now' + ms \<Longrightarrow> fst (db_pttl t u k db') = now' + ms - u"
proof -
  have e: "entry k db' = Some (v\<lparr>expiry_time := now' + ms\<rparr>)" and "fst (db_pexpire now now' k ms db)"
    using assms by (simp_all add: db_pexpire_def set_expiry_milliseconds_def)
  then show "fst (db_pexpire now now' k ms db)" "live t k db' \<longleftrightarrow> t < now' + ms"
    using assms by (auto simp: live_def is_expired_def)
  show "fst (db_pttl t u k db') = now' + ms - u" if "0 \<le> t" "t \<le> u" "u < now' + ms"
    using e that assms by (simp add: db_pttl_def is_expired_def ttl_milliseconds_def)
qed

lemma db_expire_as_pexpire:
  assumes "- (2 ^ 63) \<le> s * 1000" "s * 1000 < 2 ^ 63"
  shows "db_expire now now' k s db = db_pexpire now now' k (s * 1000) db"
proof -
  have eq: "set_expiry_seconds now' s = set_expiry_milliseconds now' (s * 1000)"
    using assms by (simp add: set_expiry_seconds_def set_expiry_milliseconds_def fun_eq_iff)
  show ?thesis unfolding db_expire_def db_pexpire_def eq ..
qed

lemma db_ttl_pttl:
  assumes "0 \<le> u" "\<And>v. entry k db = Some v \<Longrightarrow> expiry_time v < 2 ^ 63"
  shows "fst (db_ttl t u k db) =
    (if fst (db_pttl t u k db) < 0 then fst (db_pttl t u k db) else fst (db_pttl t u k db) div 1000)"
  using assms
  by (auto simp: db_ttl_def db_pttl_def is_expired_def ttl_seconds_def ttl_milliseconds_def
      div_trunc_def sgn_if split: option.split)

lemma db_persist_then:
  assumes "fst (db_persist now k db)"
  shows "live t k (snd (db_persist now k db))" "fst (db_ttl t u k (snd (db_persist now k db))) = - 1"
  using assms
  by (auto simp: db_persist_def live_def db_ttl_def ttl_seconds_def persist_value_def is_expired_def
      split: option.splits if_splits)

end
