(* ===== verification/Sorted_Set.thy ===== *)
theory Sorted_Set
  imports Database_Laws
begin

text \<open>
  Sorted sets (the \<open>z*\<close> operations of \<open>db.cpp\<close>).  A value keeps two containers: a
  \<open>std::multimap\<close> from scores to members, modelled as the list of its entries in iteration
  order, and an \<open>std::unordered_map\<close> from members to scores.  \<open>zset_coherent\<close> says that they
  agree; every operation keeps it for scores that are not NaN (a NaN key breaks the ordering
  precondition of \<open>std::multimap\<close>, whose behaviour is then undefined).
\<close>

section \<open>The multimap\<close>

text \<open>\<open>insert\<close> places the new entry at the upper bound of its key.\<close>

fun mm_insert :: "double \<Rightarrow> string \<Rightarrow> (double \<times> string) list \<Rightarrow> (double \<times> string) list" where
  "mm_insert s m [] = [(s, m)]"
| "mm_insert s m (p # ps) = (if dlt s (fst p) then (s, m) # p # ps else p # mm_insert s m ps)"

text \<open>
  \<open>equal_range(s)\<close> is \<open>[lower_bound, upper_bound)\<close>; the loop erases the first entry of that
  range whose member is \<open>m\<close>.
\<close>

fun erase_member :: "string \<Rightarrow> (double \<times> string) list \<Rightarrow> (double \<times> string) list" where
  "erase_member m [] = []"
| "erase_member m (p # ps) = (if snd p = m then ps else p # erase_member m ps)"

definition mm_erase :: "double \<Rightarrow> string \<Rightarrow> (double \<times> string) list \<Rightarrow> (double \<times> string) list" where
  "mm_erase s m ps =
     (let below = takeWhile (\<lambda>p. dlt (fst p) s) ps; rest = dropWhile (\<lambda>p. dlt (fst p) s) ps
      in below @ erase_member m (takeWhile (\<lambda>p. \<not> dlt s (fst p)) rest) @
         dropWhile (\<lambda>p. \<not> dlt s (fst p)) rest)"

text \<open>\<open>operator<\<close> of \<open>std::string\<close>: lexicographic on unsigned bytes.\<close>

fun str_less :: "string \<Rightarrow> string \<Rightarrow> bool" where
  "str_less s [] = False"
| "str_less [] (b # t) = True"
| "str_less (a # s) (b # t) = (ord a < ord b \<or> a = b \<and> str_less s t)"

section \<open>Operations\<close>

definition zadd_one :: "double \<times> string \<Rightarrow> redis_value \<Rightarrow> redis_value" where
  "zadd_one p v =
     (case p of (score, member) \<Rightarrow>
        let by_score = (case map_of (zset_member_to_score v) member of
                          Some old \<Rightarrow> mm_erase old member (zset_score_to_member v)
                        | None \<Rightarrow> zset_score_to_member v)
        in v\<lparr>zset_member_to_score := AList.update member score (zset_member_to_score v),
             zset_score_to_member := mm_insert score member by_score\<rparr>)"

definition db_zadd :: "string \<Rightarrow> (double \<times> string) list \<Rightarrow> database \<Rightarrow> bool \<times> database" where
  "db_zadd key ms = alter key (\<lambda>e.
     (ms \<noteq> [], Some (fold zadd_one ms ((at_key e)\<lparr>value_type := ZSet\<rparr>))))"

definition zrem_one :: "string \<Rightarrow> bool \<times> redis_value \<Rightarrow> bool \<times> redis_value" where
  "zrem_one member rv =
     (case rv of (removed, v) \<Rightarrow>
        (case map_of (zset_member_to_score v) member of
           Some score \<Rightarrow>
             (True, v\<lparr>zset_member_to_score := AList.delete member (zset_member_to_score v),
                      zset_score_to_member := mm_erase score member (zset_score_to_member v)\<rparr>)
         | None \<Rightarrow> (removed, v)))"

definition db_zrem :: "string \<Rightarrow> string list \<Rightarrow> database \<Rightarrow> bool \<times> database" where
  "db_zrem key ms = alter key (\<lambda>e. case e of
       Some v \<Rightarrow>
         if value_type v = ZSet then
           (let (removed, v') = fold zrem_one ms (False, v) in (removed, Some v'))
         else (False, e)
     | None \<Rightarrow> (False, None))"

definition scores_of_entry :: "redis_value option \<Rightarrow> (string, double) umap" where
  "scores_of_entry e = (if has_type ZSet e then zset_member_to_score (the e) else [])"

definition ranking_of_entry :: "redis_value option \<Rightarrow> (double \<times> string) list" where
  "ranking_of_entry e = (if has_type ZSet e then zset_score_to_member (the e) else [])"

definition db_zcard :: "string \<Rightarrow> database \<Rightarrow> nat" where
  "db_zcard key db = length (scores_of_entry (entry key db))"

definition db_zrange :: "string \<Rightarrow> int \<Rightarrow> int \<Rightarrow> database \<Rightarrow> string list" where
  "db_zrange key start stop db =
     (case entry key db of
        Some v \<Rightarrow>
          if value_type v = ZSet then
            (let (i, j) = range_bounds (length (zset_score_to_member v)) start stop
             in if i \<le> j then map snd (slice i j (zset_score_to_member v)) else [])
          else []
      | None \<Rightarrow> [])"

definition db_zrevrange :: "string \<Rightarrow> int \<Rightarrow> int \<Rightarrow> database \<Rightarrow> string list" where
  "db_zrevrange key start stop db =
     (case entry key db of
        Some v \<Rightarrow>
          if value_type v = ZSet then
            (let (i, j) = range_bounds (length (zset_score_to_member v)) start stop
             in if i \<le> j then map snd (slice i j (rev (zset_score_to_member v))) else [])
          else []
      | None \<Rightarrow> [])"

definition db_zscore :: "string \<Rightarrow> string \<Rightarrow> database \<Rightarrow> double" where
  "db_zscore key member db =
     (case map_of (scores_of_entry (entry key db)) member of Some s \<Rightarrow> s | None \<Rightarrow> dzero)"

fun zrank_loop :: "double \<Rightarrow> string \<Rightarrow> int \<Rightarrow> (double \<times> string) list \<Rightarrow> int" where
  "zrank_loop score member rank [] = rank"
| "zrank_loop score member rank (p # ps) =
     (if dlt (fst p) score then zrank_loop score member (rank + 1) ps
      else if deq (fst p) score \<and> str_less (snd p) member then zrank_loop score member (rank + 1) ps
      else if deq (fst p) score \<and> snd p = member then rank
      else zrank_loop score member rank ps)"

definition db_zrank :: "string \<Rightarrow> string \<Rightarrow> database \<Rightarrow> int" where
  "db_zrank key member db =
     (case map_of (scores_of_entry (entry key db)) member of
        Some score \<Rightarrow> zrank_loop score member 0 (ranking_of_entry (entry key db))
      | None \<Rightarrow> - 1)"

section \<open>Coherence of the two containers\<close>

definition ordered :: "(double \<times> string) list \<Rightarrow> bool" where
  "ordered ps \<longleftrightarrow> sorted (map (\<lambda>p. dbl_key (fst p)) ps) \<and> list_all (\<lambda>p. \<not> is_nan (fst p)) ps"

definition zset_coherent :: "redis_value \<Rightarrow> bool" where
  "zset_coherent v \<longleftrightarrow>
     ordered (zset_score_to_member v) \<and> distinct (map snd (zset_score_to_member v)) \<and>
     umap_wf (zset_member_to_score v) \<and>
     prod.swap ` set (zset_score_to_member v) = set (zset_member_to_score v)"

lemma zset_coherent_new [simp]: "zset_coherent (new_value t)"
  by (simp add: zset_coherent_def ordered_def)

lemma set_mm_insert [simp]: "set (mm_insert s m ps) = insert (s, m) (set ps)"
  by (induction ps) auto

lemma ordered_mm_insert: "ordered ps \<Longrightarrow> \<not> is_nan s \<Longrightarrow> ordered (mm_insert s m ps)"
  by (induction ps) (auto simp: ordered_def list_all_iff dlt_def)

lemma members_mm_insert: "set (map snd (mm_insert s m ps)) = insert m (set (map snd ps))"
  by auto

lemma distinct_mm_insert:
  "distinct (map snd ps) \<Longrightarrow> m \<notin> snd ` set ps \<Longrightarrow> distinct (map snd (mm_insert s m ps))"
  by (induction ps) auto

lemma filter_absent: "m \<notin> snd ` set ps \<Longrightarrow> filter (\<lambda>p. snd p \<noteq> m) ps = ps"
  by (auto simp: filter_id_conv)

lemma erase_member_filter:
  "distinct (map snd ps) \<Longrightarrow> erase_member m ps = filter (\<lambda>p. snd p \<noteq> m) ps"
  by (induction ps) (auto simp: filter_absent)

lemma ordered_filter: "ordered ps \<Longrightarrow> ordered (filter P ps)"
  by (auto simp: ordered_def list_all_iff sorted_wrt_map intro: sorted_wrt_filter)

lemma ordered_append: "ordered (ps @ qs) \<Longrightarrow> ordered qs"
  by (simp add: ordered_def sorted_append)

lemma ordered_dropWhile: "ordered ps \<Longrightarrow> ordered (dropWhile P ps)"
  using ordered_append [of "takeWhile P ps" "dropWhile P ps"] by simp

text \<open>Past the upper bound every score is larger.\<close>

lemma ordered_upper:
  assumes "ordered ps" "p \<in> set (dropWhile (\<lambda>p. \<not> dlt s (fst p)) ps)"
  shows "dlt s (fst p)"
proof -
  obtain q qs where q: "dropWhile (\<lambda>p. \<not> dlt s (fst p)) ps = q # qs"
    using assms(2) by (cases "dropWhile (\<lambda>p. \<not> dlt s (fst p)) ps") auto
  have "ordered (q # qs)" unfolding q [symmetric] using assms(1) by (rule ordered_dropWhile)
  moreover have "p \<in> set (q # qs)" using assms(2) q by simp
  ultimately have "dbl_key (fst q) \<le> dbl_key (fst p)" "\<not> is_nan (fst p)"
    by (auto simp: ordered_def list_all_iff)
  moreover have "dlt s (fst q)" using hd_dropWhile [of "\<lambda>p. \<not> dlt s (fst p)" ps] q by simp
  ultimately show ?thesis by (simp add: dlt_def)
qed

text \<open>On an ordered list without NaN, erasing an entry with its own score removes the member.\<close>

lemma mm_erase_filter:
  assumes "ordered ps" "distinct (map snd ps)" "(s, m) \<in> set ps"
  shows "mm_erase s m ps = filter (\<lambda>p. snd p \<noteq> m) ps"
proof -
  define below where "below = takeWhile (\<lambda>p. dlt (fst p) s) ps"
  define rest where "rest = dropWhile (\<lambda>p. dlt (fst p) s) ps"
  define eqs where "eqs = takeWhile (\<lambda>p. \<not> dlt s (fst p)) rest"
  define above where "above = dropWhile (\<lambda>p. \<not> dlt s (fst p)) rest"
  have ps: "ps = below @ eqs @ above" by (simp add: below_def rest_def eqs_def above_def)
  have "(s, m) \<notin> set below" unfolding below_def by (auto dest: set_takeWhileD)
  moreover have "(s, m) \<notin> set above"
    using ordered_upper [OF ordered_dropWhile [OF assms(1)], of "(s, m)" s]
    by (auto simp: above_def rest_def)
  ultimately have "(s, m) \<in> set eqs" using assms(3) ps by auto
  then have "m \<in> snd ` set eqs" by force
  then have "m \<notin> snd ` set below" "m \<notin> snd ` set above" "distinct (map snd eqs)"
    using assms(2) ps by auto
  then have "filter (\<lambda>p. snd p \<noteq> m) ps = below @ erase_member m eqs @ above"
    by (simp add: ps filter_absent erase_member_filter)
  then show ?thesis
    by (simp add: mm_erase_def below_def rest_def eqs_def above_def Let_def)
qed

lemma coherent_score:
  assumes "zset_coherent v"
  shows "map_of (zset_member_to_score v) m = Some s \<longleftrightarrow> (s, m) \<in> set (zset_score_to_member v)"
proof -
  have "map_of (zset_member_to_score v) m = Some s \<longleftrightarrow> (m, s) \<in> set (zset_member_to_score v)"
    using assms by (simp add: zset_coherent_def)
  also have "\<dots> \<longleftrightarrow> (m, s) \<in> prod.swap ` set (zset_score_to_member v)"
    using assms by (simp add: zset_coherent_def)
  finally show ?thesis by auto
qed

lemma coherent_no_score:
  assumes "zset_coherent v"
  shows "map_of (zset_member_to_score v) m = None \<longleftrightarrow> m \<notin> snd ` set (zset_score_to_member v)"
  using coherent_score [OF assms] by (cases "map_of (zset_member_to_score v) m") force+

lemma set_update_distinct:
  "umap_wf m \<Longrightarrow> set (AList.update k v m) = insert (k, v) {p \<in> set m. fst p \<noteq> k}"
proof -
  assume wf: "umap_wf m"
  have "p \<in> set (AList.update k v m) \<longleftrightarrow> map_of (AList.update k v m) (fst p) = Some (snd p)" for p
    using umap_wf_update [OF wf, of k v] map_of_eq_Some_iff [of "AList.update k v m" "fst p" "snd p"] by simp
  moreover have "p \<in> set m \<longleftrightarrow> map_of m (fst p) = Some (snd p)" for p
    using map_of_eq_Some_iff [OF wf, of "fst p" "snd p"] by simp
  ultimately show ?thesis by (auto split: if_splits)
qed

lemma set_delete: "set (AList.delete k m) = {p \<in> set m. fst p \<noteq> k}"
  by (auto simp: AList.delete_eq)

lemma zadd_one_ranking:
  assumes "zset_coherent v"
  shows "zset_score_to_member (zadd_one (s, m) v) =
    mm_insert s m (filter (\<lambda>p. snd p \<noteq> m) (zset_score_to_member v))"
proof (cases "map_of (zset_member_to_score v) m")
  case None
  then show ?thesis using coherent_no_score [OF assms, of m] by (simp add: zadd_one_def filter_absent)
next
  case (Some old)
  then have "(old, m) \<in> set (zset_score_to_member v)" using coherent_score [OF assms] by simp
  then show ?thesis
    using Some assms mm_erase_filter [of "zset_score_to_member v" old m]
    by (simp add: zadd_one_def zset_coherent_def)
qed

lemma zadd_one_scores [simp]:
  "zset_member_to_score (zadd_one (s, m) v) = AList.update m s (zset_member_to_score v)"
  by (simp add: zadd_one_def Let_def)

lemma zadd_one_coherent:
  assumes "zset_coherent v" "\<not> is_nan s"
  shows "zset_coherent (zadd_one (s, m) v)"
proof -
  let ?f = "filter (\<lambda>p. snd p \<noteq> m) (zset_score_to_member v)"
  have v: "ordered ?f" "distinct (map snd ?f)" "umap_wf (zset_member_to_score v)"
    "prod.swap ` set (zset_score_to_member v) = set (zset_member_to_score v)"
    using assms(1) by (auto simp: zset_coherent_def ordered_filter distinct_map_filter)
  have "prod.swap ` set ?f = {p \<in> set (zset_member_to_score v). fst p \<noteq> m}"
    unfolding v(4) [symmetric] by force
  then have "prod.swap ` set (mm_insert s m ?f) = set (AList.update m s (zset_member_to_score v))"
    by (simp add: set_update_distinct [OF v(3)])
  moreover have "distinct (map snd (mm_insert s m ?f))"
    using v(2) by (rule distinct_mm_insert) auto
  ultimately show ?thesis
    using v(1,3) assms(2)
    by (simp add: zset_coherent_def zadd_one_ranking [OF assms(1)] ordered_mm_insert)
qed

lemma zadd_coherent:
  "zset_coherent v \<Longrightarrow> \<forall>p\<in>set ms. \<not> is_nan (fst p) \<Longrightarrow> zset_coherent (fold zadd_one ms v)"
proof (induction ms arbitrary: v)
  case (Cons p ms)
  then show ?case using zadd_one_coherent [of v "fst p" "snd p"] by simp
qed simp

lemma zrem_one_effect:
  assumes "zset_coherent v"
  shows "zset_coherent (snd (zrem_one m (b, v)))"
    and "fst (zrem_one m (b, v)) \<longleftrightarrow> b \<or> map_of (zset_member_to_score v) m \<noteq> None"
    and "map_of (zset_member_to_score (snd (zrem_one m (b, v)))) = (map_of (zset_member_to_score v))(m := None)"
proof -
  show "zset_coherent (snd (zrem_one m (b, v)))"
  proof (cases "map_of (zset_member_to_score v) m")
    case (Some old)
    then have "mm_erase old m (zset_score_to_member v) = filter (\<lambda>p. snd p \<noteq> m) (zset_score_to_member v)"
      using assms coherent_score [OF assms] by (intro mm_erase_filter) (auto simp: zset_coherent_def)
    moreover have "prod.swap ` set (filter (\<lambda>p. snd p \<noteq> m) (zset_score_to_member v)) =
        set (AList.delete m (zset_member_to_score v))"
      using assms by (force simp: zset_coherent_def set_delete)
    ultimately show ?thesis
      using Some assms
      by (simp add: zrem_one_def zset_coherent_def ordered_filter distinct_map_filter)
  qed (simp add: zrem_one_def assms)
qed (auto simp: zrem_one_def fun_eq_iff split: option.split)

lemma zrem_effect:
  assumes "zset_coherent v"
  shows "zset_coherent (snd (fold zrem_one ms (b, v))) \<and>
    (fst (fold zrem_one ms (b, v)) \<longleftrightarrow> b \<or> (\<exists>m\<in>set ms. map_of (zset_member_to_score v) m \<noteq> None)) \<and>
    map_of (zset_member_to_score (snd (fold zrem_one ms (b, v)))) =
      (\<lambda>m. if m \<in> set ms then None else map_of (zset_member_to_score v) m)"
  using assms
proof (induction ms arbitrary: b v)
  case (Cons m ms)
  obtain b' v' where r: "zrem_one m (b, v) = (b', v')" by (cases "zrem_one m (b, v)")
  have one: "zset_coherent v'" "b' \<longleftrightarrow> b \<or> map_of (zset_member_to_score v) m \<noteq> None"
    "map_of (zset_member_to_score v') = (map_of (zset_member_to_score v))(m := None)"
    using zrem_one_effect [OF Cons.prems, of m b] by (simp_all add: r)
  show ?case using Cons.IH [OF one(1), of b'] one(2,3) by (auto simp: r fun_eq_iff)
qed simp

section \<open>Sorted sets in the database\<close>

lemma zadd_umap_wf: "umap_wf (zset_member_to_score v) \<Longrightarrow> umap_wf (zset_member_to_score (fold zadd_one ms v))"
proof (induction ms arbitrary: v)
  case (Cons p ms)
  then show ?case by (cases p) (simp add: umap_wf_update)
qed simp

lemma zadd_other_fields:
  "set_val (fold zadd_one ms v) = set_val v" "hash_val (fold zadd_one ms v) = hash_val v"
  "value_type (fold zadd_one ms v) = value_type v" "expiry_time (fold zadd_one ms v) = expiry_time v"
  "mod_count (fold zadd_one ms v) = mod_count v"
  by (induction ms arbitrary: v) (simp_all add: zadd_one_def case_prod_beta Let_def)

lemma zrem_other_fields:
  "set_val (snd (fold zrem_one ms bv)) = set_val (snd bv)"
  "hash_val (snd (fold zrem_one ms bv)) = hash_val (snd bv)"
  "value_type (snd (fold zrem_one ms bv)) = value_type (snd bv)"
  "expiry_time (snd (fold zrem_one ms bv)) = expiry_time (snd bv)"
  "mod_count (snd (fold zrem_one ms bv)) = mod_count (snd bv)"
  by (induction ms arbitrary: bv) (simp_all add: zrem_one_def case_prod_beta split: option.split)

lemma zrem_umap_wf:
  "umap_wf (zset_member_to_score (snd bv)) \<Longrightarrow> umap_wf (zset_member_to_score (snd (fold zrem_one ms bv)))"
  by (induction ms arbitrary: bv) (simp_all add: zrem_one_def case_prod_beta umap_wf_delete split: option.split)

lemma db_wf_zsets:
  assumes "db_wf db"
  shows "db_wf (snd (db_zadd k ms db))" "db_wf (snd (db_zrem k xs db))"
  unfolding db_zadd_def db_zrem_def
  by (rule db_wf_alter [OF assms],
      use db_wf_entry [OF assms] value_wf_at_key [OF assms, of k] in
        \<open>auto simp: value_wf_def zadd_other_fields zrem_other_fields zadd_umap_wf zrem_umap_wf
          case_prod_beta Let_def split: option.splits if_splits\<close>)+

definition zsets_ok :: "database \<Rightarrow> bool" where
  "zsets_ok db \<longleftrightarrow> all_values zset_coherent db"

lemma zsets_ok_entry: "zsets_ok db \<Longrightarrow> entry k db = Some v \<Longrightarrow> zset_coherent v"
  unfolding zsets_ok_def by (rule all_values_entry)

lemma zsets_ok_alter:
  "zsets_ok db \<Longrightarrow> (\<And>v. snd (f (entry key db)) = Some v \<Longrightarrow> zset_coherent v) \<Longrightarrow> zsets_ok (snd (alter key f db))"
  unfolding zsets_ok_def by (rule all_values_alter)

lemma zset_coherent_update [simp]:
  "zset_coherent (v\<lparr>value_type := t\<rparr>) = zset_coherent v"
  "zset_coherent (v\<lparr>expiry_time := x\<rparr>) = zset_coherent v"
  "zset_coherent (v\<lparr>mod_count := n\<rparr>) = zset_coherent v"
  "zset_coherent (v\<lparr>str_val := s\<rparr>) = zset_coherent v"
  "zset_coherent (v\<lparr>list_val := l\<rparr>) = zset_coherent v"
  "zset_coherent (v\<lparr>set_val := u\<rparr>) = zset_coherent v"
  "zset_coherent (v\<lparr>hash_val := h\<rparr>) = zset_coherent v"
  by (simp_all add: zset_coherent_def)

lemma zset_coherent_at_key: "zsets_ok db \<Longrightarrow> zset_coherent (at_key (entry k db))"
  by (simp add: zsets_ok_def all_values_at_key)

lemma zsets_ok_ops:
  assumes "zsets_ok db"
  shows "zsets_ok (snd (db_set key val db))" "zsets_ok (snd (db_get now key db))"
    "zsets_ok (snd (db_del key db))" "zsets_ok (snd (db_exists now key db))"
    "zsets_ok (snd (db_type now key db))" "zsets_ok (snd (db_expire now now' key n db))"
    "zsets_ok (snd (db_pexpire now now' key n db))" "zsets_ok (snd (db_ttl now now' key db))"
    "zsets_ok (snd (db_pttl now now' key db))" "zsets_ok (snd (db_persist now key db))"
    "zsets_ok (db_increment_mod_count key db)" "zsets_ok (snd (db_lpush key vals db))"
    "zsets_ok (snd (db_rpush key vals db))" "zsets_ok (snd (db_lpop key db))"
    "zsets_ok (snd (db_rpop key db))" "zsets_ok (snd (db_llen now key db))"
    "zsets_ok (snd (db_sadd key ms db))" "zsets_ok (snd (db_srem key ms db))"
    "zsets_ok (snd (db_hset key fld s db))" "zsets_ok (snd (db_hdel key flds db))"
  unfolding db_defs
  by (rule zsets_ok_alter [OF assms],
      use zsets_ok_entry [OF assms] zset_coherent_at_key [OF assms] in
        \<open>auto simp: Let_def set_expiry_seconds_def set_expiry_milliseconds_def persist_value_def
          split: option.splits if_splits list.splits\<close>)+

lemma zsets_ok_zadd:
  assumes "zsets_ok db" "\<forall>p\<in>set ms. \<not> is_nan (fst p)"
  shows "zsets_ok (snd (db_zadd k ms db))"
  unfolding db_zadd_def
  using assms zset_coherent_at_key [OF assms(1), of k]
  by (auto intro!: zsets_ok_alter zadd_coherent)

lemma zsets_ok_zrem:
  assumes "zsets_ok db"
  shows "zsets_ok (snd (db_zrem k ms db))"
  unfolding db_zrem_def
  using assms zsets_ok_entry [OF assms, of k] zrem_effect
  by (fastforce intro!: zsets_ok_alter simp: case_prod_beta Let_def split: option.splits if_splits)

section \<open>Sorted sets as maps from members to scores\<close>

definition scores :: "string \<Rightarrow> database \<Rightarrow> string \<rightharpoonup> double" where
  "scores k db = map_of (scores_of_entry (entry k db))"

definition stored_scores :: "string \<Rightarrow> database \<Rightarrow> string \<rightharpoonup> double" where
  "stored_scores k db = map_of (zset_member_to_score (at_key (entry k db)))"

lemma fold_zadd_scores:
  "map_of (zset_member_to_score (fold zadd_one ms v)) =
     map_of (zset_member_to_score v) ++ map_of (rev (map prod.swap ms))"
proof (induction ms arbitrary: v)
  case (Cons p ms)
  obtain s m where p: "p = (s, m)" by (cases p)
  have "map_of (zset_member_to_score (zadd_one (s, m) v)) = (map_of (zset_member_to_score v))(m \<mapsto> s)"
    by (simp add: fun_eq_iff)
  with Cons.IH [of "zadd_one (s, m) v"] show ?case by (simp add: p map_add_upd_left map_add_def fun_eq_iff split: option.split)
qed simp

lemma db_zadd_scores: "scores k (snd (db_zadd k ms db)) = stored_scores k db ++ map_of (rev (map prod.swap ms))"
  by (simp add: scores_def stored_scores_def db_zadd_def scores_of_entry_def has_type_def
      zadd_other_fields fold_zadd_scores)

lemma db_zrem_scores:
  assumes "zsets_ok db"
  shows "scores k (snd (db_zrem k ms db)) = (\<lambda>m. if m \<in> set ms then None else scores k db m)"
    and "fst (db_zrem k ms db) \<longleftrightarrow> (\<exists>m\<in>set ms. scores k db m \<noteq> None)"
  using zsets_ok_entry [OF assms, of k] zrem_effect [of _ ms False]
  by (auto simp: scores_def db_zrem_def scores_of_entry_def has_type_def case_prod_beta Let_def
      zrem_other_fields fun_eq_iff split: option.splits)

lemma db_zcard_scores: "db_wf db \<Longrightarrow> db_zcard k db = card (dom (scores k db))"
  using db_wf_entry [of db k]
  by (auto simp: db_zcard_def scores_def scores_of_entry_def has_type_def value_wf_def length_umap split: option.splits)

lemma db_zscore_scores: "db_zscore k m db = (case scores k db m of Some s \<Rightarrow> s | None \<Rightarrow> dzero)"
  by (simp add: db_zscore_def scores_def)

abbreviation ranking :: "string \<Rightarrow> database \<Rightarrow> (double \<times> string) list" where
  "ranking k db \<equiv> ranking_of_entry (entry k db)"

lemma ranking_facts:
  assumes "zsets_ok db"
  shows "ordered (ranking k db)" "distinct (map snd (ranking k db))"
    "(s, m) \<in> set (ranking k db) \<longleftrightarrow> scores k db m = Some s"
  using zsets_ok_entry [OF assms, of k] coherent_score
  by (auto simp: ranking_of_entry_def scores_def scores_of_entry_def has_type_def zset_coherent_def
      ordered_def split: option.splits)

lemma db_zrange_ranking:
  "db_zrange k start stop db =
     (let (i, j) = range_bounds (length (ranking k db)) start stop
      in if i \<le> j then map snd (slice i j (ranking k db)) else [])"
  "db_zrevrange k start stop db =
     (let (i, j) = range_bounds (length (ranking k db)) start stop
      in if i \<le> j then map snd (slice i j (rev (ranking k db))) else [])"
  using range_bounds_inside [of 0 start stop]
  by (fastforce simp: db_zrange_def db_zrevrange_def ranking_of_entry_def has_type_def slice_def
      case_prod_beta Let_def split: option.split)+

lemma slice_whole: "slice 0 (int (length xs) - 1) xs = xs"
  by (simp add: slice_def)

lemma db_zrange_all:
  assumes "length (ranking k db) < 2 ^ 31"
  shows "db_zrange k 0 (- 1) db = map snd (ranking k db)"
    and "db_zrevrange k 0 (- 1) db = rev (map snd (ranking k db))"
proof -
  have "slice 0 (int (length (ranking k db)) - 1) (rev (ranking k db)) = rev (ranking k db)"
    using slice_whole [of "rev (ranking k db)"] by simp
  then show "db_zrange k 0 (- 1) db = map snd (ranking k db)"
    "db_zrevrange k 0 (- 1) db = rev (map snd (ranking k db))"
    using assms by (auto simp: db_zrange_ranking range_bounds_exact slice_whole rev_map)
qed

section \<open>Ranks\<close>

text \<open>Entries of equal score stand in lexicographic order of their members.\<close>

definition ties_ordered :: "(double \<times> string) list \<Rightarrow> bool" where
  "ties_ordered ps \<longleftrightarrow> sorted_wrt (\<lambda>p q. deq (fst p) (fst q) \<longrightarrow> str_less (snd p) (snd q)) ps"

lemma str_less_irrefl [simp]: "\<not> str_less s s"
  by (induction s) auto

lemma zrank_loop_index:
  assumes "ordered ps" "ties_ordered ps" "i < length ps" "ps ! i = (s, m)"
  shows "zrank_loop s m r ps = r + int i"
  using assms
proof (induction ps arbitrary: i r)
  case (Cons p ps)
  show ?case
  proof (cases i)
    case 0
    then have p: "p = (s, m)" using Cons.prems(4) by simp
    then have "\<not> is_nan s" using Cons.prems(1) by (simp add: ordered_def)
    then show ?thesis using p 0 by simp
  next
    case (Suc i')
    then have at: "i' < length ps" "ps ! i' = (s, m)" using Cons.prems by simp_all
    then have mem: "(s, m) \<in> set ps" by (metis nth_mem)
    have ord: "ordered ps" "ties_ordered ps"
      using Cons.prems(1,2) by (auto simp: ordered_def ties_ordered_def)
    have "dbl_key (fst p) \<le> dbl_key s" "\<not> is_nan (fst p)" "\<not> is_nan s"
      using Cons.prems(1) mem by (force simp: ordered_def list_all_iff)+
    then have "dlt (fst p) s \<or> deq (fst p) s" by (auto simp: dlt_def deq_def)
    moreover have "deq (fst p) s \<Longrightarrow> str_less (snd p) m"
      using Cons.prems(2) mem by (auto simp: ties_ordered_def)
    ultimately have "zrank_loop s m r (p # ps) = zrank_loop s m (r + 1) ps" by auto
    also have "\<dots> = r + 1 + int i'" using Cons.IH [OF ord at] by simp
    finally show ?thesis using Suc by simp
  qed
qed simp

lemma db_zrank_index:
  assumes "zsets_ok db" "ties_ordered (ranking k db)" "scores k db m = Some s"
  obtains i where "i < length (ranking k db)" "ranking k db ! i = (s, m)" "db_zrank k m db = int i"
proof -
  have "(s, m) \<in> set (ranking k db)" using ranking_facts(3) [OF assms(1)] assms(3) by simp
  then obtain i where i: "i < length (ranking k db)" "ranking k db ! i = (s, m)"
    by (auto simp: in_set_conv_nth)
  then have "zrank_loop s m 0 (ranking k db) = 0 + int i"
    using ranking_facts(1) [OF assms(1)] assms(2) by (intro zrank_loop_index)
  then have "db_zrank k m db = int i" using assms(3) by (simp add: db_zrank_def scores_def)
  with i that show ?thesis by blast
qed

section \<open>A sample keyspace\<close>

text \<open>One key of several types; the concrete instances of the properties use it.\<close>

definition sample_db :: database where
  "sample_db =
     snd (db_pexpire 1 1 ''name'' 99 (snd (db_zadd ''z'' [(0, ''m''), (0x3FF0000000000000, ''n'')]
       (snd (db_hset ''h'' ''f'' ''x'' (snd (db_rpush ''l'' [''a'', ''b'']
         (snd (db_set ''name'' ''v'' empty_db)))))))))"

lemma sample_db_data:
  "data sample_db =
     [(''name'', (new_value String)\<lparr>str_val := ''v'', expiry_time := 100\<rparr>),
      (''l'', (new_value List)\<lparr>list_val := [''a'', ''b'']\<rparr>),
      (''h'', (new_value Hash)\<lparr>hash_val := [(''f'', ''x'')]\<rparr>),
      (''z'', (new_value ZSet)\<lparr>zset_score_to_member := [(0, ''m''), (0x3FF0000000000000, ''n'')],
         zset_member_to_score := [(''m'', 0), (''n'', 0x3FF0000000000000)]\<rparr>)]"
  by (simp add: sample_db_def empty_db_def db_defs db_zadd_def alter_def write_entry_def at_key_def Let_def
      new_value_def set_expiry_milliseconds_def is_expired_def zadd_one_def dlt_def is_nan_def dbl_key_def
      dbl_neg_def dbl_mag_def inf_bits_def)

lemmas score_simps = dlt_def deq_def is_nan_def dbl_key_def dbl_neg_def dbl_mag_def inf_bits_def dzero_def

lemma sample_db_ok: "db_wf sample_db" "zsets_ok sample_db" "pubsub sample_db = []"
proof -
  show p: "pubsub sample_db = []"
    by (simp add: sample_db_def db_defs db_zadd_def empty_db_def)
  then show "db_wf sample_db"
    by (simp add: db_wf_def all_values_def sample_db_data value_wf_def pubsub_wf_def)
  show "zsets_ok sample_db"
    by (simp add: zsets_ok_def all_values_def sample_db_data zset_coherent_def ordered_def score_simps)
qed

end
