(* ===== verification/Rdb.thy ===== *)
theory Rdb
  imports Sorted_Set
begin

text \<open>
  Snapshots (\<open>write_length_encoded\<close>, \<open>read_length_encoded\<close>, \<open>save_rdb\<close>, \<open>load_rdb\<close>,
  \<open>save_to_file\<close> and \<open>load_from_file\<close> of \<open>db.cpp\<close>).  A file is the list of its bytes; integers
  are little-endian, as the target machine stores them.  A writer returns the bytes it appends,
  a reader returns what it read and the rest of the file, or \<open>None\<close> when the stream fails.
  Every kind of item in the format is a self-delimiting codec, so the iterated readers come
  from the locale \<open>codec\<close>.
\<close>

section \<open>Bytes\<close>

definition le_bytes :: "nat \<Rightarrow> nat \<Rightarrow> string" where
  "le_bytes w n = map (\<lambda>i. char_of (n div 256 ^ i)) [0..<w]"

definition le_val :: "string \<Rightarrow> nat" where
  "le_val bs = foldr (\<lambda>b v. ord b + 256 * v) bs 0"

text \<open>\<open>file.read(p, n)\<close>: all \<open>n\<close> bytes or failure.\<close>

definition read_bytes :: "nat \<Rightarrow> string \<Rightarrow> (string \<times> string) option" where
  "read_bytes n bs = (if n \<le> length bs then Some (take n bs, drop n bs) else None)"

definition read_uint :: "nat \<Rightarrow> string \<Rightarrow> (nat \<times> string) option" where
  "read_uint w bs = map_option (\<lambda>(b, rest). (le_val b, rest)) (read_bytes w bs)"

section \<open>Strings\<close>

definition write_length_encoded :: "string \<Rightarrow> string" where
  "write_length_encoded str =
     (let len = length str mod 2 ^ 32
      in (if len < 64 then [char_of len] else char_of (0x80 :: nat) # le_bytes 4 len) @ take len str)"

text \<open>The two top bits of the first byte, \<open>first_byte & 0xC0\<close>, select the form.\<close>

definition read_length_encoded :: "string \<Rightarrow> (string \<times> string) option" where
  "read_length_encoded bs =
     (case bs of
        [] \<Rightarrow> None
      | b # rest \<Rightarrow>
          if ord b div 64 = 0 then read_bytes (ord b mod 64) rest
          else if ord b div 64 = 2 then
            (case read_uint 4 rest of None \<Rightarrow> None | Some (len, rest') \<Rightarrow> read_bytes len rest')
          else None)"

section \<open>Values\<close>

definition rdb_string :: nat where "rdb_string = 0"
definition rdb_list :: nat where "rdb_list = 1"
definition rdb_set :: nat where "rdb_set = 2"
definition rdb_zset :: nat where "rdb_zset = 3"
definition rdb_hash :: nat where "rdb_hash = 4"
definition rdb_expiretime_ms :: nat where "rdb_expiretime_ms = 0xFC"
definition rdb_selectdb :: nat where "rdb_selectdb = 0xFE"
definition rdb_eof :: nat where "rdb_eof = 0xFF"
definition rdb_magic :: string where "rdb_magic = ''REDIS''"
definition rdb_version :: nat where "rdb_version = 9"

lemmas rdb_codes = rdb_string_def rdb_list_def rdb_set_def rdb_zset_def rdb_hash_def
  rdb_expiretime_ms_def rdb_selectdb_def rdb_eof_def

definition write_score :: "double \<times> string \<Rightarrow> string" where
  "write_score p = write_length_encoded (snd p) @ le_bytes 8 (unat (fst p))"

definition write_field :: "string \<times> string \<Rightarrow> string" where
  "write_field p = write_length_encoded (fst p) @ write_length_encoded (snd p)"

definition write_count :: "nat \<Rightarrow> string" where
  "write_count n = le_bytes 4 (n mod 2 ^ 32)"

definition rdb_type :: "RedisType \<Rightarrow> nat" where
  "rdb_type t =
     (case t of String \<Rightarrow> rdb_string | List \<Rightarrow> rdb_list | Set \<Rightarrow> rdb_set | ZSet \<Rightarrow> rdb_zset | Hash \<Rightarrow> rdb_hash)"

definition write_body :: "redis_value \<Rightarrow> string" where
  "write_body v =
     (case value_type v of
        String \<Rightarrow> write_length_encoded (str_val v)
      | List \<Rightarrow> write_count (length (list_val v)) @ concat (map write_length_encoded (list_val v))
      | Set \<Rightarrow> write_count (length (set_val v)) @ concat (map write_length_encoded (set_val v))
      | ZSet \<Rightarrow> write_count (length (zset_member_to_score v)) @
                concat (map write_score (zset_score_to_member v))
      | Hash \<Rightarrow> write_count (length (hash_val v)) @ concat (map write_field (hash_val v)))"

definition expiry_stamp :: "redis_value \<Rightarrow> nat" where
  "expiry_stamp v = nat (expiry_time v mod 2 ^ 64)"

definition write_record :: "string \<times> redis_value \<Rightarrow> string" where
  "write_record p =
     (case p of (key, v) \<Rightarrow>
        (if 0 < expiry_time v
         then char_of rdb_expiretime_ms # le_bytes 8 (expiry_stamp v) else []) @
        [char_of (rdb_type (value_type v))] @ write_length_encoded key @ write_body v)"

definition rdb_image :: "database \<Rightarrow> string" where
  "rdb_image db =
     rdb_magic @ [char_of rdb_version, char_of rdb_selectdb, char_of (0 :: nat)] @
     concat (map write_record (data db)) @ [char_of rdb_eof]"

text \<open>
  \<open>save_rdb\<close>: \<open>opened\<close> is whether the output file could be opened.  Write errors after that are
  not looked at, and the function returns true.  The result is the file of a save that nothing
  interrupts: the code empties the file when it opens it and then appends piece by piece, without a
  temporary file, so that the file of an interrupted save is a prefix of this image.
\<close>

definition save_rdb :: "bool \<Rightarrow> database \<Rightarrow> bool \<times> string option" where
  "save_rdb opened db = (if opened then (True, Some (rdb_image db)) else (False, None))"

section \<open>Loading\<close>

definition read_score :: "string \<Rightarrow> ((double \<times> string) \<times> string) option" where
  "read_score bs =
     (case read_length_encoded bs of
        None \<Rightarrow> None
      | Some (member, bs') \<Rightarrow>
          (case read_uint 8 bs' of None \<Rightarrow> None | Some (n, bs'') \<Rightarrow> Some ((of_nat n, member), bs'')))"

definition read_counted :: "(string \<Rightarrow> ('a \<times> string) option) \<Rightarrow> string \<Rightarrow> ('a list \<times> string) option" where
  "read_counted rd bs =
     (case read_uint 4 bs of None \<Rightarrow> None | Some (n, bs') \<Rightarrow> read_many rd n bs')"

text \<open>The hash loop stores each field as soon as it is read, also when a later one fails.\<close>

fun load_fields :: "nat \<Rightarrow> string \<Rightarrow> string \<Rightarrow> database \<Rightarrow> string option \<times> database" where
  "load_fields n key bs db =
     (if n = 0 then (Some bs, db)
      else case read_length_encoded bs of
        None \<Rightarrow> (None, db)
      | Some (field, bs') \<Rightarrow>
          (case read_length_encoded bs' of
             None \<Rightarrow> (None, db)
           | Some (val, bs'') \<Rightarrow> load_fields (n - 1) key bs'' (snd (db_hset key field val db))))"

declare load_fields.simps [simp del]

definition restore_expiry :: "int \<Rightarrow> string \<Rightarrow> database \<Rightarrow> database" where
  "restore_expiry expiry_ms key db =
     (if 0 < expiry_ms then
        (case entry key db of
           Some v \<Rightarrow> write_entry key (Some (v\<lparr>expiry_time := expiry_ms\<rparr>)) db
         | None \<Rightarrow> db)
      else db)"

text \<open>
  The switch of \<open>load_rdb\<close>, after the key has been read: the rest of the file, or \<open>None\<close> for
  \<open>return false\<close>, and the database as it then is.
\<close>

definition load_value :: "nat \<Rightarrow> int \<Rightarrow> string \<Rightarrow> string \<Rightarrow> database \<Rightarrow> string option \<times> database" where
  "load_value type expiry_ms key bs db =
     (if type = rdb_string then
        (case read_length_encoded bs of
           None \<Rightarrow> (None, db)
         | Some (val, bs') \<Rightarrow> (Some bs', restore_expiry expiry_ms key (snd (db_set key val db))))
      else if type = rdb_list then
        (case read_counted read_length_encoded bs of
           None \<Rightarrow> (None, db)
         | Some (vals, bs') \<Rightarrow> (Some bs', fold (\<lambda>v d. snd (db_rpush key [v] d)) vals db))
      else if type = rdb_set then
        (case read_counted read_length_encoded bs of
           None \<Rightarrow> (None, db)
         | Some (ms, bs') \<Rightarrow> (Some bs', snd (db_sadd key ms db)))
      else if type = rdb_zset then
        (case read_counted read_score bs of
           None \<Rightarrow> (None, db)
         | Some (ms, bs') \<Rightarrow> (Some bs', snd (db_zadd key ms db)))
      else if type = rdb_hash then
        (case read_uint 4 bs of
           None \<Rightarrow> (None, db)
         | Some (n, bs') \<Rightarrow> load_fields n key bs' db)
      else if type = rdb_selectdb then
        (case bs of
           [] \<Rightarrow> (None, db)
         | db_num # bs' \<Rightarrow> if ord db_num \<noteq> 0 then (None, db) else (Some bs', db))
      else (Some bs, db))"

text \<open>The optional expiry prefix: the expiry time, the type byte and the rest.\<close>

definition read_type :: "nat \<Rightarrow> string \<Rightarrow> (int \<times> nat \<times> string) option" where
  "read_type opcode bs =
     (if opcode = rdb_expiretime_ms then
        (case read_uint 8 bs of
           None \<Rightarrow> None
         | Some (timestamp, bs') \<Rightarrow>
             (case bs' of [] \<Rightarrow> None | b # bs'' \<Rightarrow> Some (wrap64 (int timestamp), ord b, bs'')))
      else Some (- 1, opcode, bs))"

text \<open>One round of the loop behind the end-of-file test.\<close>

definition load_record :: "nat \<Rightarrow> string \<Rightarrow> database \<Rightarrow> string option \<times> database" where
  "load_record opcode bs db =
     (case read_type opcode bs of
        None \<Rightarrow> (None, db)
      | Some (expiry_ms, type, bs') \<Rightarrow>
          (case read_length_encoded bs' of
             None \<Rightarrow> (None, db)
           | Some (key, bs'') \<Rightarrow> load_value type expiry_ms key bs'' db))"

lemma read_bytes_length: "read_bytes n bs = Some (s, rest) \<Longrightarrow> length rest \<le> length bs"
  by (auto simp: read_bytes_def split: if_splits)

lemma read_uint_length: "read_uint n bs = Some (s, rest) \<Longrightarrow> length rest \<le> length bs"
  by (auto simp: read_uint_def dest: read_bytes_length)

lemma read_length_encoded_length: "read_length_encoded bs = Some (s, rest) \<Longrightarrow> length rest < length bs"
  by (auto simp: read_length_encoded_def split: list.splits if_splits option.splits
      dest!: read_bytes_length read_uint_length)

lemma read_score_length: "read_score bs = Some (s, rest) \<Longrightarrow> length rest < length bs"
  by (auto simp: read_score_def split: option.splits dest!: read_length_encoded_length read_uint_length)

lemma read_many_length:
  assumes "\<And>bs x rest. rd bs = Some (x, rest) \<Longrightarrow> length rest < length bs"
  shows "read_many rd n bs = Some (xs, rest) \<Longrightarrow> length rest \<le> length bs"
proof (induction n arbitrary: bs xs)
  case (Suc n)
  then show ?case using assms by (fastforce split: option.splits)
qed simp

lemma read_counted_length:
  assumes "\<And>bs x rest. rd bs = Some (x, rest) \<Longrightarrow> length rest < length bs"
  shows "read_counted rd bs = Some (xs, rest) \<Longrightarrow> length rest \<le> length bs"
  using read_many_length [OF assms] by (fastforce simp: read_counted_def split: option.splits dest: read_uint_length)

lemma read_counted_lengths:
  "read_counted read_length_encoded bs = Some (ss, rest) \<Longrightarrow> length rest \<le> length bs"
  "read_counted read_score bs = Some (ps, rest) \<Longrightarrow> length rest \<le> length bs"
  by (erule read_counted_length [rotated], erule read_length_encoded_length read_score_length)+

lemma load_fields_length: "fst (load_fields n key bs db) = Some rest \<Longrightarrow> length rest \<le> length bs"
proof (induction n key bs db rule: load_fields.induct)
  case (1 n key bs db)
  then show ?case
    by (subst (asm) (2) load_fields.simps)
      (fastforce split: if_splits option.splits dest: read_length_encoded_length)
qed

lemma load_value_length: "fst (load_value type e key bs db) = Some rest \<Longrightarrow> length rest \<le> length bs"
  unfolding load_value_def
  by (auto split: if_splits option.splits list.splits
      dest!: read_counted_lengths
        read_length_encoded_length read_uint_length load_fields_length)

lemma load_record_length: "fst (load_record opcode bs db) = Some rest \<Longrightarrow> length rest < length bs"
  unfolding load_record_def read_type_def
  by (auto split: if_splits option.splits list.splits
      dest!: load_value_length read_length_encoded_length read_uint_length)

text \<open>The loop of \<open>load_rdb\<close>; a file that ends without the end opcode also loads.\<close>

function load_loop :: "string \<Rightarrow> database \<Rightarrow> bool \<times> database" where
  "load_loop bs db =
     (case bs of
        [] \<Rightarrow> (True, db)
      | opcode # bs' \<Rightarrow>
          if ord opcode = rdb_eof then (True, db)
          else case load_record (ord opcode) bs' db of
            (None, db') \<Rightarrow> (False, db')
          | (Some bs'', db') \<Rightarrow> load_loop bs'' db')"
  by pat_completeness auto
termination load_loop
proof (relation "measure (\<lambda>(bs, db). length bs)", goal_cases)
  case (2 bs db opcode bs' a db' bs'')
  then have "fst (load_record (ord opcode) bs' db) = Some bs''" by (metis fst_conv)
  then show ?case using 2 load_record_length [of "ord opcode" bs' db bs''] by simp
qed simp

declare load_loop.simps [simp del]

definition load_rdb :: "string option \<Rightarrow> database \<Rightarrow> bool \<times> database" where
  "load_rdb file db =
     (case file of
        None \<Rightarrow> (False, db)
      | Some bs \<Rightarrow>
          (case read_bytes 5 bs of
             None \<Rightarrow> (False, db)
           | Some (magic, bs') \<Rightarrow>
               if magic \<noteq> rdb_magic then (False, db)
               else case bs' of
                 [] \<Rightarrow> (False, db)
               | version # bs'' \<Rightarrow> load_loop bs'' db))"

text \<open>Whatever the file holds, loading keeps the keyspace well formed.\<close>

lemma load_fields_wf: "db_wf db \<Longrightarrow> db_wf (snd (load_fields n key bs db))"
proof (induction n key bs db rule: load_fields.induct)
  case (1 n key bs db)
  then show ?case
    by (subst load_fields.simps) (auto simp: db_wf_collections split: option.split)
qed

lemma load_value_wf:
  assumes "db_wf db"
  shows "db_wf (snd (load_value type e key bs db))"
proof -
  have "db_wf (fold (\<lambda>v d. snd (db_rpush key [v] d)) vs d)" if "db_wf d" for vs d
    using that by (induction vs arbitrary: d) (simp_all add: db_wf_ops)
  moreover have "db_wf (restore_expiry e key d)" if "db_wf d" for d
    using that by (auto simp: restore_expiry_def split: option.split intro!: db_wf_write_entry dest: db_wf_entry)
  ultimately show ?thesis
    using assms by (simp add: load_value_def load_fields_wf db_wf_ops db_wf_collections db_wf_zsets
        split: option.split list.split)
qed

lemma load_loop_wf: "db_wf db \<Longrightarrow> db_wf (snd (load_loop bs db))"
proof (induction bs db rule: load_loop.induct)
  case (1 bs db)
  show ?case
  proof (cases bs)
    case (Cons opcode bs')
    have "db_wf (snd (load_record (ord opcode) bs' db))"
      using 1(2) by (simp add: load_record_def load_value_wf split: option.split)
    then show ?thesis
      using 1 Cons by (auto simp: load_loop.simps [of "opcode # bs'"] split: prod.split option.split)
  qed (use 1 in \<open>simp add: load_loop.simps\<close>)
qed

lemma load_rdb_wf: "db_wf db \<Longrightarrow> db_wf (snd (load_rdb img db))"
  by (auto simp: load_rdb_def load_loop_wf split: option.split list.split)

section \<open>Codecs\<close>

lemma le_bytes_Suc: "le_bytes (Suc w) n = char_of n # le_bytes w (n div 256)"
  by (simp add: le_bytes_def upt_conv_Cons div_mult2_eq flip: map_Suc_upt del: upt_Suc)

lemma length_le_bytes [simp]: "length (le_bytes w n) = w"
  by (simp add: le_bytes_def)

lemma le_val_le_bytes: "n < 256 ^ w \<Longrightarrow> le_val (le_bytes w n) = n"
proof (induction w arbitrary: n)
  case (Suc w)
  then have "n div 256 < 256 ^ w" by (simp add: less_mult_imp_div_less mult.commute)
  then show ?case using Suc.IH by (simp add: le_bytes_Suc le_val_def)
qed (simp add: le_bytes_def le_val_def)

lemma read_bytes_append [simp]: "length s = n \<Longrightarrow> read_bytes n (s @ rest) = Some (s, rest)"
  by (simp add: read_bytes_def)

lemma read_uint_le_bytes: "n < 256 ^ w \<Longrightarrow> read_uint w (le_bytes w n @ rest) = Some (n, rest)"
  by (simp add: read_uint_def le_val_le_bytes)

lemma read_count: "n < 2 ^ 32 \<Longrightarrow> read_uint 4 (write_count n @ rest) = Some (n, rest)"
  by (simp add: write_count_def read_uint_le_bytes)

abbreviation short :: "string \<Rightarrow> bool" where
  "short s \<equiv> length s < 2 ^ 32"

interpretation str: codec write_length_encoded read_length_encoded short
proof
  fix s rest assume "short s"
  then have "read_uint 4 (le_bytes 4 (length s) @ s @ rest) = Some (length s, s @ rest)"
    by (intro read_uint_le_bytes) simp
  with \<open>short s\<close> show "read_length_encoded (write_length_encoded s @ rest) = Some (s, rest)"
    by (simp add: write_length_encoded_def read_length_encoded_def Let_def)
qed

interpretation score: codec write_score read_score "\<lambda>p. short (snd p)"
proof
  fix p :: "double \<times> string" and rest assume "short (snd p)"
  moreover have "read_uint 8 (le_bytes 8 (unat (fst p)) @ rest) = Some (unat (fst p), rest)"
    using unsigned_less [of "fst p"] by (intro read_uint_le_bytes) simp
  ultimately show "read_score (write_score p @ rest) = Some (p, rest)"
    by (simp add: write_score_def read_score_def str.dec_enc)
qed

definition read_field :: "string \<Rightarrow> ((string \<times> string) \<times> string) option" where
  "read_field bs =
     (case read_length_encoded bs of
        None \<Rightarrow> None
      | Some (field, bs') \<Rightarrow>
          (case read_length_encoded bs' of
             None \<Rightarrow> None | Some (val, bs'') \<Rightarrow> Some ((field, val), bs'')))"

interpretation field: codec write_field read_field "\<lambda>p. short (fst p) \<and> short (snd p)"
  by unfold_locales (simp add: write_field_def read_field_def str.dec_enc)

lemma read_counted_items:
  "list_all short xs \<Longrightarrow> length xs < 2 ^ 32 \<Longrightarrow>
     read_counted read_length_encoded (write_count (length xs) @ concat (map write_length_encoded xs) @ rest) =
       Some (xs, rest)"
  "list_all (\<lambda>p. short (snd p)) ps \<Longrightarrow> length ps < 2 ^ 32 \<Longrightarrow>
     read_counted read_score (write_count (length ps) @ concat (map write_score ps) @ rest) = Some (ps, rest)"
  by (simp_all add: read_counted_def read_count str.read_many_enc score.read_many_enc)

lemma load_fields_read:
  "read_many read_field n bs = Some (ps, rest) \<Longrightarrow>
     load_fields n key bs db = (Some rest, fold (\<lambda>(f, x) d. snd (db_hset key f x d)) ps db)"
proof (induction n arbitrary: bs ps db)
  case 0
  then show ?case by (simp add: load_fields.simps)
next
  case (Suc n)
  then show ?case
    by (subst load_fields.simps) (auto simp: read_field_def split: option.splits)
qed

section \<open>Loading a record back\<close>

text \<open>What a record restores: the contents of its own type, and the expiry time of a string.\<close>

definition restored :: "redis_value \<Rightarrow> redis_value option" where
  "restored v =
     (case value_type v of
        String \<Rightarrow> Some ((new_value String)\<lparr>str_val := str_val v, expiry_time := max 0 (expiry_time v)\<rparr>)
      | List \<Rightarrow> if list_val v = [] then None else Some ((new_value List)\<lparr>list_val := list_val v\<rparr>)
      | Set \<Rightarrow> Some ((new_value Set)\<lparr>set_val := set_val v\<rparr>)
      | ZSet \<Rightarrow> Some ((new_value ZSet)\<lparr>zset_score_to_member := zset_score_to_member v,
                  zset_member_to_score := map prod.swap (zset_score_to_member v)\<rparr>)
      | Hash \<Rightarrow> if hash_val v = [] then None else Some ((new_value Hash)\<lparr>hash_val := hash_val v\<rparr>))"

definition storable :: "redis_value \<Rightarrow> bool" where
  "storable v \<longleftrightarrow> expiry_time v < 2 ^ 63 \<and>
     (case value_type v of
        String \<Rightarrow> short (str_val v)
      | List \<Rightarrow> length (list_val v) < 2 ^ 32 \<and> list_all short (list_val v)
      | Set \<Rightarrow> length (set_val v) < 2 ^ 32 \<and> list_all short (set_val v)
      | ZSet \<Rightarrow> length (zset_score_to_member v) < 2 ^ 32 \<and>
                list_all (\<lambda>p. short (snd p)) (zset_score_to_member v)
      | Hash \<Rightarrow> length (hash_val v) < 2 ^ 32 \<and> list_all (\<lambda>p. short (fst p) \<and> short (snd p)) (hash_val v))"

lemma update_fresh: "k \<notin> fst ` set m \<Longrightarrow> AList.update k x m = m @ [(k, x)]"
  by (induction m) auto

lemma fold_rpush_entry:
  "entry key db = Some v \<Longrightarrow> value_type v = List \<Longrightarrow>
     entry k (fold (\<lambda>x d. snd (db_rpush key [x] d)) xs db) =
       (if k = key then Some (v\<lparr>list_val := list_val v @ xs\<rparr>) else entry k db)"
proof (induction xs arbitrary: db v)
  case (Cons x xs)
  let ?db = "snd (db_rpush key [x] db)"
  have "entry key ?db = Some (v\<lparr>list_val := list_val v @ [x]\<rparr>)"
    using Cons.prems by (simp add: db_rpush_def at_key_def Let_def)
  from Cons.IH [OF this] show ?case using Cons.prems by (simp add: db_rpush_def)
qed auto

lemma fold_hset_entry:
  "entry key db = Some v \<Longrightarrow> value_type v = Hash \<Longrightarrow> umap_wf (hash_val v @ ps) \<Longrightarrow>
     entry k (fold (\<lambda>(f, x) d. snd (db_hset key f x d)) ps db) =
       (if k = key then Some (v\<lparr>hash_val := hash_val v @ ps\<rparr>) else entry k db)"
proof (induction ps arbitrary: db v)
  case (Cons p ps)
  let ?db = "snd (db_hset key (fst p) (snd p) db)"
  have "entry key ?db = Some (v\<lparr>hash_val := hash_val v @ [p]\<rparr>)"
    using Cons.prems by (simp add: db_hset_def at_key_def Let_def update_fresh)
  from Cons.IH [OF this] show ?case using Cons.prems by (simp add: db_hset_def case_prod_beta)
qed auto

lemma mm_insert_last: "ordered (ps @ [(s, m)]) \<Longrightarrow> mm_insert s m ps = ps @ [(s, m)]"
  by (induction ps) (auto simp: ordered_def sorted_append dlt_def)

lemma fold_zadd_one_ordered:
  "zset_score_to_member v = ps \<Longrightarrow> zset_member_to_score v = map prod.swap ps \<Longrightarrow>
     ordered (ps @ qs) \<Longrightarrow> distinct (map snd (ps @ qs)) \<Longrightarrow>
     fold zadd_one qs v =
       v\<lparr>zset_score_to_member := ps @ qs, zset_member_to_score := map prod.swap (ps @ qs)\<rparr>"
proof (induction qs arbitrary: v ps)
  case (Cons q qs)
  obtain s m where q: "q = (s, m)" by (cases q)
  have ord: "ordered (ps @ [(s, m)])" using Cons.prems(3) by (simp add: q ordered_def sorted_append)
  have fresh: "m \<notin> fst ` set (map prod.swap ps)" using Cons.prems(4) by (force simp: q)
  then have "map_of (zset_member_to_score v) m = None" using Cons.prems(2) by (simp add: map_of_eq_None_iff)
  then have one: "zadd_one q v =
      v\<lparr>zset_member_to_score := map prod.swap (ps @ [q]), zset_score_to_member := ps @ [q]\<rparr>"
    using fresh Cons.prems(1,2) by (simp add: q zadd_one_def mm_insert_last [OF ord] update_fresh)
  have "fold zadd_one qs (zadd_one q v) = (zadd_one q v)\<lparr>zset_score_to_member := (ps @ [q]) @ qs,
      zset_member_to_score := map prod.swap ((ps @ [q]) @ qs)\<rparr>"
    using Cons.prems(3,4) by (intro Cons.IH) (simp_all add: one)
  then show ?case by (simp add: one)
qed simp

lemma coherent_length:
  assumes "zset_coherent v"
  shows "length (zset_member_to_score v) = length (zset_score_to_member v)"
proof -
  have "distinct (map prod.swap (zset_score_to_member v))"
    using assms by (auto simp: zset_coherent_def distinct_map intro: inj_onI)
  moreover have "distinct (zset_member_to_score v)" using assms by (simp add: zset_coherent_def distinct_map)
  ultimately show ?thesis
    using assms distinct_card by (metis (no_types, lifting) length_map list.set_map zset_coherent_def)
qed

lemma load_fields_entry:
  assumes "entry key db = None" "umap_wf ps"
  shows "entry k (fold (\<lambda>(f, x) d. snd (db_hset key f x d)) ps db) =
    (if k = key then (if ps = [] then None else Some ((new_value Hash)\<lparr>hash_val := ps\<rparr>)) else entry k db)"
proof (cases ps)
  case (Cons p qs)
  let ?db = "snd (db_hset key (fst p) (snd p) db)"
  have "entry key ?db = Some ((new_value Hash)\<lparr>hash_val := [p]\<rparr>)"
    using assms(1) by (simp add: db_hset_def at_key_def Let_def new_value_def)
  from fold_hset_entry [OF this, of qs] show ?thesis
    using assms(2) by (simp add: Cons case_prod_beta db_hset_def)
qed (use assms in auto)

lemma load_items_entry:
  assumes "entry key db = None"
  shows "entry k (fold (\<lambda>x d. snd (db_rpush key [x] d)) xs db) =
    (if k = key then (if xs = [] then None else Some ((new_value List)\<lparr>list_val := xs\<rparr>)) else entry k db)"
proof (cases xs)
  case (Cons x ys)
  let ?db = "snd (db_rpush key [x] db)"
  have "entry key ?db = Some ((new_value List)\<lparr>list_val := [x]\<rparr>)"
    using assms by (simp add: db_rpush_def at_key_def Let_def new_value_def)
  from fold_rpush_entry [OF this, where k = k and xs = ys] show ?thesis by (simp add: Cons db_rpush_def)
qed (use assms in auto)

text \<open>Reading a written record: nothing else is consumed, and only its key changes.\<close>

definition loads :: "string option \<times> database \<Rightarrow> string \<Rightarrow> string \<Rightarrow> redis_value option \<Rightarrow> database \<Rightarrow> bool" where
  "loads r rest key e db \<longleftrightarrow> fst r = Some rest \<and> (\<forall>k. entry k (snd r) = (if k = key then e else entry k db))"

lemma load_value_written:
  assumes "entry key db = None" "value_wf v" "zset_coherent v" "storable v"
    and "x = (if 0 < expiry_time v then expiry_time v else - 1)"
  shows "loads (load_value (rdb_type (value_type v)) x key (write_body v @ rest) db) rest key (restored v) db"
proof (cases "value_type v")
  case String
  then show ?thesis
    using assms by (auto simp: loads_def load_value_def rdb_type_def write_body_def storable_def restored_def
        str.dec_enc restore_expiry_def db_set_def at_key_def new_value_def rdb_codes)
next
  case List
  then have "read_counted read_length_encoded (write_body v @ rest) = Some (list_val v, rest)"
    using assms(4) by (simp add: write_body_def storable_def read_counted_items)
  with List show ?thesis
    using load_items_entry [OF assms(1)] by (simp add: loads_def load_value_def rdb_type_def restored_def rdb_codes)
next
  case Set
  then have "read_counted read_length_encoded (write_body v @ rest) = Some (set_val v, rest)"
    using assms(4) by (simp add: write_body_def storable_def read_counted_items)
  moreover have "uset_insert_all (set_val v) [] = set_val v"
    using assms(2) uset_insert_all_fresh [of "[]" "set_val v"] by (simp add: value_wf_def)
  ultimately show ?thesis
    using Set assms(1) by (simp add: loads_def load_value_def rdb_type_def restored_def rdb_codes db_sadd_def
        at_key_def new_value_def Let_def)
next
  case Hash
  then have "read_uint 4 (write_body v @ rest) = Some (length (hash_val v), concat (map write_field (hash_val v)) @ rest)"
    using assms(4) by (simp add: write_body_def storable_def read_count)
  moreover have "load_fields (length (hash_val v)) key (concat (map write_field (hash_val v)) @ rest) db =
      (Some rest, fold (\<lambda>(f, x) d. snd (db_hset key f x d)) (hash_val v) db)"
    using Hash assms(4) by (intro load_fields_read field.read_many_enc) (simp add: storable_def)
  ultimately show ?thesis
    using Hash load_fields_entry [OF assms(1)] assms(2)
    by (simp add: loads_def load_value_def rdb_type_def restored_def rdb_codes value_wf_def)
next
  case ZSet
  then have "read_counted read_score (write_body v @ rest) = Some (zset_score_to_member v, rest)"
    using assms(3,4) by (simp add: write_body_def storable_def coherent_length read_counted_items)
  moreover have "fold zadd_one (zset_score_to_member v) ((new_value String)\<lparr>value_type := ZSet\<rparr>) =
      (new_value String)\<lparr>value_type := ZSet, zset_score_to_member := zset_score_to_member v,
        zset_member_to_score := map prod.swap (zset_score_to_member v)\<rparr>"
    using assms(3) by (subst fold_zadd_one_ordered [where ps = "[]"]) (simp_all add: zset_coherent_def)
  ultimately show ?thesis
    using ZSet assms(1) by (simp add: loads_def load_value_def rdb_type_def restored_def rdb_codes db_zadd_def
        at_key_def new_value_def)
qed

lemma rdb_type_byte: "rdb_type t < 5"
  by (cases t) (simp_all add: rdb_type_def rdb_codes)

lemma write_record_Cons:
  obtains b bs where "write_record (key, v) = b # bs" "ord b \<noteq> rdb_eof"
    "\<And>rest db. load_record (ord b) (bs @ rest) db =
       (case read_length_encoded (write_length_encoded key @ write_body v @ rest) of
          None \<Rightarrow> (None, db)
        | Some (k, bs') \<Rightarrow> load_value (rdb_type (value_type v))
            (if 0 < expiry_time v then wrap64 (int (expiry_stamp v)) else - 1) k bs' db)"
proof -
  let ?n = "expiry_stamp v"
  have "expiry_time v mod 2 ^ 64 < 2 ^ 64" by (simp only: pos_mod_bound zero_less_power zero_less_numeral)
  then have "?n < 256 ^ 8" by (simp add: expiry_stamp_def nat_less_iff)
  then have exp: "read_uint 8 (le_bytes 8 ?n @ rest) = Some (?n, rest)" for rest by (rule read_uint_le_bytes)
  have ty: "rdb_type (value_type v) mod 256 = rdb_type (value_type v)"
    "rdb_type (value_type v) \<noteq> rdb_expiretime_ms" "rdb_type (value_type v) \<noteq> rdb_eof"
    using rdb_type_byte [of "value_type v"] by (simp_all add: rdb_codes)
  show ?thesis
  proof (cases "0 < expiry_time v")
    case True
    then show ?thesis
      by (intro that [of "char_of rdb_expiretime_ms" "le_bytes 8 ?n @ char_of (rdb_type (value_type v)) #
            write_length_encoded key @ write_body v"])
        (simp_all add: write_record_def load_record_def read_type_def exp ty rdb_codes)
  next
    case False
    then show ?thesis
      by (intro that [of "char_of (rdb_type (value_type v))" "write_length_encoded key @ write_body v"])
        (simp_all add: write_record_def load_record_def read_type_def ty)
  qed
qed

lemma load_loop_record:
  assumes "entry key db = None" "short key" "value_wf v" "zset_coherent v" "storable v"
  obtains db' where "load_loop (write_record (key, v) @ rest) db = load_loop rest db'"
    "\<And>k. entry k db' = (if k = key then restored v else entry k db)"
proof -
  obtain b bs where b: "write_record (key, v) = b # bs" "ord b \<noteq> rdb_eof"
    and r: "load_record (ord b) (bs @ rest) db =
      (case read_length_encoded (write_length_encoded key @ write_body v @ rest) of
          None \<Rightarrow> (None, db)
        | Some (k, bs') \<Rightarrow> load_value (rdb_type (value_type v))
            (if 0 < expiry_time v then wrap64 (int (expiry_stamp v)) else - 1) k bs' db)"
    by (rule write_record_Cons [of key v]) blast
  have "loads (load_record (ord b) (bs @ rest) db) rest key (restored v) db"
    unfolding r str.dec_enc [OF assms(2)] option.case prod.case
    using assms by (intro load_value_written) (auto simp: storable_def expiry_stamp_def)
  then obtain db' where "load_record (ord b) (bs @ rest) db = (Some rest, db')"
    "\<And>k. entry k db' = (if k = key then restored v else entry k db)"
    by (cases "load_record (ord b) (bs @ rest) db") (auto simp: loads_def)
  then show ?thesis using b by (intro that [of db']) (simp_all add: load_loop.simps [of "b # bs @ rest"])
qed

lemma load_loop_records:
  assumes "umap_wf m" "\<And>k v. (k, v) \<in> set m \<Longrightarrow> entry k db = None"
    "\<And>k v. (k, v) \<in> set m \<Longrightarrow> short k \<and> value_wf v \<and> zset_coherent v \<and> storable v"
  shows "\<exists>db'. load_loop (concat (map write_record m) @ rest) db = load_loop rest db' \<and>
    (\<forall>k. entry k db' = (case map_of m k of Some v \<Rightarrow> restored v | None \<Rightarrow> entry k db))"
  using assms
proof (induction m arbitrary: db)
  case (Cons p m)
  obtain key v where p: "p = (key, v)" by (cases p)
  have ok: "entry key db = None" "short key" "value_wf v" "zset_coherent v" "storable v"
    using Cons.prems(2,3) [of key v] unfolding p by (blast intro: list.set_intros)+
  obtain db1 where db1: "load_loop (write_record (key, v) @ concat (map write_record m) @ rest) db =
      load_loop (concat (map write_record m) @ rest) db1"
    "\<And>k. entry k db1 = (if k = key then restored v else entry k db)"
    by (rule load_loop_record [OF ok, of "concat (map write_record m) @ rest"], rule that)
  have fresh: "key \<notin> fst ` set m" using Cons.prems(1) by (simp add: p)
  have "\<exists>db'. load_loop (concat (map write_record m) @ rest) db1 = load_loop rest db' \<and>
      (\<forall>k. entry k db' = (case map_of m k of Some v \<Rightarrow> restored v | None \<Rightarrow> entry k db1))"
  proof (rule Cons.IH)
    show "entry k db1 = None" if "(k, w) \<in> set m" for k w
      using that fresh Cons.prems(2) [of k w] by (force simp: db1(2) p)
  qed (use Cons.prems(1) in simp, rule Cons.prems(3), simp)
  then obtain db' where "load_loop (concat (map write_record m) @ rest) db1 = load_loop rest db'"
    "\<And>k. entry k db' = (case map_of m k of Some v \<Rightarrow> restored v | None \<Rightarrow> entry k db1)" by blast
  moreover have "map_of m key = None" using fresh by (simp add: map_of_eq_None_iff)
  ultimately show ?case using db1 by (intro exI [of _ db']) (simp add: p split: option.split)
qed auto

section \<open>The text format\<close>

text \<open>\<open>std::getline(stream, s, d)\<close>: fails on an exhausted stream, drops the delimiter.\<close>

definition getline :: "char \<Rightarrow> string \<Rightarrow> (string \<times> string) option" where
  "getline d s =
     (if s = [] then None else Some (takeWhile (\<lambda>c. c \<noteq> d) s, drop 1 (dropWhile (\<lambda>c. c \<noteq> d) s)))"

definition text_line :: "string \<times> redis_value \<Rightarrow> string" where
  "text_line p =
     (if value_type (snd p) = String then ''string:'' @ fst p @ ''='' @ str_val (snd p) @ [LF] else [])"

definition save_to_file :: "bool \<Rightarrow> database \<Rightarrow> bool \<times> string option" where
  "save_to_file opened db =
     (if opened then (True, Some (concat (map text_line (data db)))) else (False, None))"

definition load_line :: "string \<Rightarrow> database \<Rightarrow> database" where
  "load_line line db =
     (case getline (CHR '':'') line of
        None \<Rightarrow> db
      | Some (type_str, r1) \<Rightarrow>
          (case getline (CHR ''='') r1 of
             None \<Rightarrow> db
           | Some (key, r2) \<Rightarrow>
               (case getline LF r2 of
                  None \<Rightarrow> db
                | Some (val, _) \<Rightarrow> if type_str = ''string'' then snd (db_set key val db) else db)))"

lemma getline_length: "getline d s = Some (l, r) \<Longrightarrow> length r < length s"
proof -
  assume "getline d s = Some (l, r)"
  then have "s \<noteq> []" "r = drop 1 (dropWhile (\<lambda>c. c \<noteq> d) s)" by (auto simp: getline_def split: if_splits)
  moreover have "length (dropWhile (\<lambda>c. c \<noteq> d) s) \<le> length s" by (rule length_dropWhile_le)
  ultimately show ?thesis by (cases s) auto
qed

function load_lines :: "string \<Rightarrow> database \<Rightarrow> database" where
  "load_lines bs db =
     (case getline LF bs of None \<Rightarrow> db | Some (line, rest) \<Rightarrow> load_lines rest (load_line line db))"
  by pat_completeness auto
termination load_lines
  by (relation "measure (\<lambda>(bs, db). length bs)") (auto dest: getline_length)

declare load_lines.simps [simp del]

definition load_from_file :: "string option \<Rightarrow> database \<Rightarrow> bool \<times> database" where
  "load_from_file file db = (case file of None \<Rightarrow> (False, db) | Some bs \<Rightarrow> (True, load_lines bs db))"

text \<open>What the text format can carry: no line end anywhere, no \<open>=\<close> in the key, a nonempty value.\<close>

definition text_ok :: "string \<times> redis_value \<Rightarrow> bool" where
  "text_ok p \<longleftrightarrow> value_type (snd p) = String \<longrightarrow>
     LF \<notin> set (fst p) \<and> CHR ''='' \<notin> set (fst p) \<and> LF \<notin> set (str_val (snd p)) \<and> str_val (snd p) \<noteq> []"

lemma getline_at: "d \<notin> set s \<Longrightarrow> getline d (s @ d # rest) = Some (s, rest)"
  by (auto simp: getline_def takeWhile_append dropWhile_append dropWhile_eq_Nil_conv)

lemma getline_last: "d \<notin> set s \<Longrightarrow> s \<noteq> [] \<Longrightarrow> getline d s = Some (s, [])"
proof -
  assume "d \<notin> set s" "s \<noteq> []"
  then have "takeWhile (\<lambda>c. c \<noteq> d) s = s" "dropWhile (\<lambda>c. c \<noteq> d) s = []"
    by (simp_all only: takeWhile_eq_all_conv dropWhile_eq_Nil_conv) auto
  with \<open>s \<noteq> []\<close> show ?thesis unfolding getline_def by (simp only: if_False drop_Nil)
qed

lemma load_line_text:
  assumes "CHR ''='' \<notin> set key" "LF \<notin> set x" "x \<noteq> []"
  shows "load_line (''string:'' @ key @ ''='' @ x) db = snd (db_set key x db)"
proof -
  have "getline (CHR '':'') (''string'' @ CHR '':'' # key @ CHR ''='' # x) = Some (''string'', key @ CHR ''='' # x)"
    by (rule getline_at) simp
  moreover have "getline (CHR ''='') (key @ CHR ''='' # x) = Some (key, x)"
    using assms(1) by (rule getline_at)
  ultimately show ?thesis using assms(2,3) by (simp add: load_line_def getline_last)
qed

lemma load_lines_step:
  assumes "text_ok (key, v)"
  shows "load_lines (text_line (key, v) @ rest) db =
    load_lines rest (if value_type v = String then snd (db_set key (str_val v) db) else db)"
proof (cases "value_type v = String")
  case True
  have "getline LF ((''string:'' @ key @ ''='' @ str_val v) @ LF # rest) =
      Some (''string:'' @ key @ ''='' @ str_val v, rest)"
    using assms True by (intro getline_at) (simp add: text_ok_def)
  then show ?thesis
    using assms True load_line_text [of key "str_val v" db]
    by (subst load_lines.simps) (simp add: text_line_def text_ok_def)
qed (simp add: text_line_def)

lemma load_lines_text:
  "list_all text_ok m \<Longrightarrow> umap_wf m \<Longrightarrow> (\<And>k v. (k, v) \<in> set m \<Longrightarrow> entry k db = None) \<Longrightarrow>
     entry k (load_lines (concat (map text_line m)) db) =
       (case map_of m k of
          Some v \<Rightarrow> if value_type v = String then Some ((new_value String)\<lparr>str_val := str_val v\<rparr>) else None
        | None \<Rightarrow> entry k db)"
proof (induction m arbitrary: db)
  case Nil
  then show ?case by (simp add: load_lines.simps getline_def)
next
  case (Cons p m)
  obtain key v where p: "p = (key, v)" by (cases p)
  define db1 where "db1 = (if value_type v = String then snd (db_set key (str_val v) db) else db)"
  have e1: "entry k' db1 = (if k' = key \<and> value_type v = String
      then Some ((new_value String)\<lparr>str_val := str_val v\<rparr>) else entry k' db)" for k'
    using Cons.prems(3) [of key v] by (simp add: db1_def p db_set_def at_key_def new_value_def)
  have "entry k (load_lines (concat (map text_line m)) db1) =
       (case map_of m k of
          Some v \<Rightarrow> if value_type v = String then Some ((new_value String)\<lparr>str_val := str_val v\<rparr>) else None
        | None \<Rightarrow> entry k db1)"
    using Cons.prems by (intro Cons.IH) (force simp: p e1)+
  moreover have "load_lines (concat (map text_line (p # m))) db = load_lines (concat (map text_line m)) db1"
    using load_lines_step [of key v "concat (map text_line m)" db] Cons.prems(1) by (simp add: p db1_def)
  moreover have "map_of m key = None" "entry key db = None"
    using Cons.prems(2,3) by (auto simp: p map_of_eq_None_iff)
  ultimately show ?case by (simp add: p e1 split: option.split)
qed

section \<open>Properties\<close>

text \<open>C11. The record section of a snapshot loads back: reading the records of any well-formed
  keyspace into an empty one succeeds, and the entry of each key is then \<open>restored\<close> of its old
  entry: a string has its value and expiry time; a set, a sorted set, a nonempty list and a
  nonempty hash have their elements, order and scores, and no expiry time any more; an empty list
  or hash, which LPOP or HDEL can leave, is no key any more; the modification counts start anew.\<close>

theorem snapshot_records_roundtrip:
  assumes "db_wf db" "zsets_ok db" "\<forall>(k, v)\<in>set (data db). short k \<and> storable v"
  shows "\<exists>db'. load_loop (concat (map write_record (data db)) @ [char_of rdb_eof]) empty_db = (True, db') \<and>
    (\<forall>k. entry k db' = Option.bind (entry k db) restored)"
proof -
  have "\<exists>db'. load_loop (concat (map write_record (data db)) @ [char_of rdb_eof]) empty_db =
      load_loop [char_of rdb_eof] db' \<and>
      (\<forall>k. entry k db' = (case entry k db of Some v \<Rightarrow> restored v | None \<Rightarrow> entry k empty_db))"
    using assms by (intro load_loop_records) (auto simp: db_wf_def zsets_ok_def all_values_def list_all_iff)
  moreover have "(case e of Some v \<Rightarrow> restored v | None \<Rightarrow> None) = Option.bind e restored" for e
    by (cases e) simp_all
  ultimately show ?thesis unfolding entry_empty by (simp add: load_loop.simps [of "[_]"] rdb_eof_def)
qed

theorem snapshot_records_roundtrip_witness:
  "\<exists>db'. load_loop (concat (map write_record (data sample_db)) @ [char_of rdb_eof]) empty_db = (True, db') \<and>
     (\<forall>k. entry k db' = Option.bind (entry k sample_db) restored)"
  using snapshot_records_roundtrip [OF sample_db_ok(1,2)] by (simp add: sample_db_data storable_def)

text \<open>A snapshot file as \<open>save_rdb\<close> writes it does not load: \<open>load_rdb\<close> reads a key behind every
  opcode, also behind the database selector, so it takes the selector's number for an empty key
  and the first record's type byte for the number.  Loading fails and leaves the database as it
  was whenever the keyspace is empty, or its first record is not a plain string, or that record's
  key has less than 64 bytes and starts with a byte from 0x40 to 0x7F (every letter).\<close>

definition first_record_misread :: "database \<Rightarrow> bool" where
  "first_record_misread db \<longleftrightarrow>
     (case data db of
        [] \<Rightarrow> True
      | (k, v) # _ \<Rightarrow> value_type v \<noteq> String \<or> 0 < expiry_time v \<or>
          k \<noteq> [] \<and> length k < 64 \<and> ord (hd k) div 64 = 1)"

lemma load_saved:
  assumes "first_record_misread db"
  shows "load_rdb (snd (save_rdb True db)) d = (False, d)"
proof -
  let ?r = "concat (map write_record (data db)) @ [char_of rdb_eof]"
  have "load_rdb (snd (save_rdb True db)) d = load_loop (char_of rdb_selectdb # char_of (0 :: nat) # ?r) d"
    by (simp add: save_rdb_def rdb_image_def load_rdb_def rdb_magic_def read_bytes_def)
  moreover have "load_loop (char_of rdb_selectdb # char_of (0 :: nat) # ?r) d =
      (if ord (hd ?r) \<noteq> 0 then (False, d) else load_loop (tl ?r) d)"
    by (subst load_loop.simps, cases ?r)
      (simp_all add: load_record_def read_type_def read_length_encoded_def read_bytes_def load_value_def rdb_codes)
  moreover have "ord (hd ?r) \<noteq> 0 \<or> load_loop (tl ?r) d = (False, d)"
  proof (cases "data db")
    case Nil
    then show ?thesis by (simp add: rdb_eof_def)
  next
    case (Cons p m)
    obtain k v where p: "p = (k, v)" by (cases p)
    show ?thesis
    proof (cases "value_type v = String \<and> \<not> 0 < expiry_time v")
      case True
      then have k: "k \<noteq> []" "length k < 64" "ord (hd k) div 64 = 1" using assms Cons p by (auto simp: first_record_misread_def)
      then obtain c cs where c: "k = c # cs" by (cases k) auto
      have "tl ?r = char_of (length k) # k @ write_body v @ concat (map write_record m) @ [char_of rdb_eof]"
        using True k Cons p by (simp add: write_record_def rdb_type_def rdb_codes write_length_encoded_def Let_def)
      then show ?thesis
        using k by (subst load_loop.simps)
          (simp add: c load_record_def read_type_def read_length_encoded_def rdb_codes)
    qed (use Cons p in \<open>auto simp: write_record_def rdb_type_def rdb_codes split: RedisType.split\<close>)
  qed
  ultimately show ?thesis by (auto split: if_splits)
qed

text \<open>A save that is cut off within the header has emptied the file of the last one: loading it adds
  nothing to the keyspace, whatever was saved before.\<close>

theorem interrupted_save_loses_data:
  assumes "n \<le> 8"
  shows "snd (load_rdb (Some (take n (rdb_image db))) d) = d"
proof -
  let ?r = "concat (map write_record (data db)) @ [char_of rdb_eof]"
  have image: "rdb_image db = rdb_magic @ [char_of rdb_version, char_of rdb_selectdb, char_of (0 :: nat)] @ ?r"
    by (simp add: rdb_image_def)
  consider "n < 6" | "n = 6" | "n = 7" | "n = 8" using assms by linarith
  then show ?thesis
  proof cases
    case 1
    then have "take n (rdb_image db) = take n (rdb_magic @ [char_of rdb_version])" "length rdb_magic = 5"
      by (simp_all add: image rdb_magic_def take_Cons' numeral_eq_Suc)
    then show ?thesis using 1 by (cases "n = 5") (auto simp: load_rdb_def read_bytes_def)
  qed (simp_all add: image load_rdb_def read_bytes_def rdb_magic_def load_loop.simps load_record_def read_type_def
      read_length_encoded_def load_value_def rdb_codes)
qed

theorem interrupted_save_loses_data_witness:
  "snd (load_rdb (Some (take 8 (rdb_image sample_db))) empty_db) = empty_db"
  by (rule interrupted_save_loses_data) simp

text \<open>The text format keeps exactly the strings: after \<open>save_to_file\<close> and \<open>load_from_file\<close> into an
  empty keyspace every string key without a line end or \<open>=\<close> whose value is nonempty and has no line
  end is there with its value, and the keys of other types are not.\<close>

theorem text_file_roundtrip:
  assumes "db_wf db" "\<forall>p\<in>set (data db). text_ok p"
  shows "fst (load_from_file (snd (save_to_file True db)) empty_db) \<and>
    entry k (snd (load_from_file (snd (save_to_file True db)) empty_db)) =
      (case entry k db of
         Some v \<Rightarrow> if value_type v = String then Some ((new_value String)\<lparr>str_val := str_val v\<rparr>) else None
       | None \<Rightarrow> None)"
proof -
  have "entry k (load_lines (concat (map text_line (data db))) empty_db) =
      (case entry k db of
         Some v \<Rightarrow> if value_type v = String then Some ((new_value String)\<lparr>str_val := str_val v\<rparr>) else None
       | None \<Rightarrow> entry k empty_db)"
    using assms by (intro load_lines_text) (auto simp: db_wf_def list_all_iff)
  then show ?thesis
    unfolding entry_empty by (simp add: load_from_file_def save_to_file_def)
qed

theorem text_file_roundtrip_witness:
  "entry ''name'' (snd (load_from_file (snd (save_to_file True sample_db)) empty_db)) =
     Some ((new_value String)\<lparr>str_val := ''v''\<rparr>)"
  using text_file_roundtrip [OF sample_db_ok(1), of "''name''"] by (simp add: sample_db_data text_ok_def)

end
