(* ===== verification/Resp.thy ===== *)
theory Resp
  imports Cpp_Std
begin

text \<open>
  The wire protocol (\<open>resp.h\<close>, \<open>resp.cpp\<close>): the class \<open>RespValue\<close> as a datatype with all its
  fields, and the recursive-descent parser \<open>RespParser\<close> over a buffer and a position, with the
  exceptions it throws as results.  The buffer is the list of its \<open>len\<close> bytes.  Sizes are
  64-bit, so the bound check of \<open>read_bulk_string\<close> wraps where the code wraps.
\<close>

section \<open>Values\<close>

datatype RespType = SimpleString | Error | Integer | BulkString | Array

datatype RespValue =
  RespValue (resp_type: RespType) (resp_str: string) (resp_int: int) (resp_array: "RespValue list")

text \<open>The constructor \<open>RespValue(RespType t)\<close>: the other fields are empty or 0.\<close>

definition make_RespValue :: "RespType \<Rightarrow> RespValue" where
  "make_RespValue t = RespValue t [] 0 []"

definition bulk :: "string \<Rightarrow> RespValue" where
  "bulk s = RespValue BulkString s 0 []"

section \<open>Reading lines and byte counts\<close>

text \<open>
  \<open>std::string(ptr, n)\<close> throws when \<open>n\<close> exceeds the largest string; \<open>vector::reserve\<close> throws
  when the count exceeds the largest vector of 16-byte shared pointers.  Memory is otherwise
  unbounded: a failed allocation has no model.
\<close>

definition max_string :: nat where "max_string = 2 ^ 63 - 1"
definition max_vector :: nat where "max_vector = 2 ^ 59 - 1"

definition mk_string :: "string \<Rightarrow> nat \<Rightarrow> nat \<Rightarrow> string result" where
  "mk_string buf start n =
     (if max_string < n then Inl Length_error else Inr (take n (drop start buf)))"

function find_lf :: "string \<Rightarrow> nat \<Rightarrow> nat" where
  "find_lf buf pos = (if pos < length buf \<and> buf ! pos \<noteq> LF then find_lf buf (Suc pos) else pos)"
  by pat_completeness auto
termination
  by (relation "measure (\<lambda>(buf, pos). length buf - pos)") auto

declare find_lf.simps [simp del]

definition read_line :: "string \<Rightarrow> nat \<Rightarrow> (string \<times> nat) result" where
  "read_line buf start =
     (let pos = find_lf buf start
      in if length buf \<le> pos then Inl (Runtime_error ''Incomplete line'')
         else case mk_string buf start (size_wrap (int pos - int start - 1)) of
           Inl e \<Rightarrow> Inl e
         | Inr s \<Rightarrow> Inr (s, Suc pos))"

text \<open>
  The comparison of \<open>read_bulk_string\<close> is in \<open>size_t\<close> and wraps; once the string of \<open>length\<close>
  bytes has been built, \<open>pos + length + 2\<close> is below $2^{64}$ and the final addition does not.
\<close>

definition read_bulk_string :: "string \<Rightarrow> nat \<Rightarrow> nat \<Rightarrow> (string \<times> nat) result" where
  "read_bulk_string buf pos len =
     (if length buf < size_wrap (int pos + int len + 2)
      then Inl (Runtime_error ''Incomplete bulk string'')
      else case mk_string buf pos len of
        Inl e \<Rightarrow> Inl e
      | Inr s \<Rightarrow> Inr (s, pos + len + 2))"

definition pop_cr :: "string \<Rightarrow> string" where
  "pop_cr s = (if s \<noteq> [] \<and> last s = CR then butlast s else s)"

section \<open>The parser\<close>

definition parse_simple_string :: "string \<Rightarrow> nat \<Rightarrow> (RespValue \<times> nat) result" where
  "parse_simple_string buf pos =
     (case read_line buf pos of
        Inl e \<Rightarrow> Inl e
      | Inr (line, pos') \<Rightarrow> Inr (RespValue SimpleString (pop_cr line) 0 [], pos'))"

definition parse_error :: "string \<Rightarrow> nat \<Rightarrow> (RespValue \<times> nat) result" where
  "parse_error buf pos =
     (case read_line buf pos of
        Inl e \<Rightarrow> Inl e
      | Inr (line, pos') \<Rightarrow> Inr (RespValue Error (pop_cr line) 0 [], pos'))"

definition parse_integer :: "string \<Rightarrow> nat \<Rightarrow> (RespValue \<times> nat) result" where
  "parse_integer buf pos =
     (case read_line buf pos of
        Inl e \<Rightarrow> Inl e
      | Inr (line, pos') \<Rightarrow>
          (case stoll line of
             Inl _ \<Rightarrow> Inl (Runtime_error ''Invalid integer format'')
           | Inr n \<Rightarrow> Inr (RespValue Integer [] n [], pos')))"

definition parse_bulk_string :: "string \<Rightarrow> nat \<Rightarrow> (RespValue \<times> nat) result" where
  "parse_bulk_string buf pos =
     (case read_line buf pos of
        Inl e \<Rightarrow> Inl e
      | Inr (length_str, pos') \<Rightarrow>
          if length_str = ''-1'' then Inr (bulk [], pos')
          else case stoul length_str of
            Inl _ \<Rightarrow> Inl (Runtime_error ''Invalid bulk string length'')
          | Inr len \<Rightarrow>
              (case read_bulk_string buf pos' len of
                 Inl e \<Rightarrow> Inl e
               | Inr (s, pos'') \<Rightarrow> Inr (bulk s, pos'')))"

text \<open>The head of \<open>parse_array\<close>: the element count, once the vector is reserved.\<close>

definition array_count :: "string \<Rightarrow> nat \<Rightarrow> (nat \<times> nat) result" where
  "array_count buf pos =
     (case read_line buf pos of
        Inl e \<Rightarrow> Inl e
      | Inr (count_str, pos') \<Rightarrow>
          (case stoul count_str of
             Inl _ \<Rightarrow> Inl (Runtime_error ''Invalid array length'')
           | Inr count \<Rightarrow> if max_vector < count then Inl Length_error else Inr (count, pos')))"

function parse :: "string \<Rightarrow> nat \<Rightarrow> (RespValue \<times> nat) result"
  and parse_array :: "string \<Rightarrow> nat \<Rightarrow> (RespValue \<times> nat) result"
  and parse_elements :: "string \<Rightarrow> nat \<Rightarrow> nat \<Rightarrow> (RespValue list \<times> nat) result" where
  "parse buf pos =
     (if length buf \<le> pos then Inl (Runtime_error ''Incomplete command'')
      else if buf ! pos = CHR ''+'' then parse_simple_string buf (Suc pos)
      else if buf ! pos = CHR ''-'' then parse_error buf (Suc pos)
      else if buf ! pos = CHR '':'' then parse_integer buf (Suc pos)
      else if buf ! pos = CHR ''$'' then parse_bulk_string buf (Suc pos)
      else if buf ! pos = CHR ''*'' then parse_array buf (Suc pos)
      else Inl (Runtime_error ''Unknown RESP type''))"
| "parse_array buf pos =
     (case array_count buf pos of
        Inl e \<Rightarrow> Inl e
      | Inr (count, pos') \<Rightarrow>
          (case parse_elements buf pos' count of
             Inl e \<Rightarrow> Inl e
           | Inr (vs, pos'') \<Rightarrow> Inr (RespValue Array [] 0 vs, pos'')))"
| "parse_elements buf pos n =
     (if n = 0 then Inr ([], pos)
      else case parse buf pos of
        Inl e \<Rightarrow> Inl e
      | Inr (v, pos') \<Rightarrow>
          (case parse_elements buf pos' (n - 1) of
             Inl e \<Rightarrow> Inl e
           | Inr (vs, pos'') \<Rightarrow> Inr (v # vs, pos'')))"
  by pat_completeness auto

section \<open>Every successful read moves forward\<close>

lemma find_lf_bounds: "pos \<le> find_lf buf pos \<and> (pos \<le> length buf \<longrightarrow> find_lf buf pos \<le> length buf)"
proof (induction buf pos rule: find_lf.induct)
  case (1 buf pos)
  then show ?case using find_lf.simps [of buf pos] by (cases "pos < length buf \<and> buf ! pos \<noteq> LF") auto
qed

lemma read_line_progress:
  "read_line buf pos = Inr (s, pos') \<Longrightarrow> pos < pos' \<and> pos' \<le> length buf"
  using find_lf_bounds [of pos buf]
  by (auto simp: read_line_def Let_def split: if_splits sum.splits)

lemma read_bulk_string_progress: "read_bulk_string buf pos len = Inr (s, pos') \<Longrightarrow> pos < pos'"
  by (auto simp: read_bulk_string_def split: if_splits sum.splits)

lemma leaf_progress:
  "parse_simple_string buf pos = Inr (v, pos') \<Longrightarrow> pos < pos'"
  "parse_error buf pos = Inr (v, pos') \<Longrightarrow> pos < pos'"
  "parse_integer buf pos = Inr (v, pos') \<Longrightarrow> pos < pos'"
  "parse_bulk_string buf pos = Inr (v, pos') \<Longrightarrow> pos < pos'"
  "array_count buf pos = Inr (n, pos') \<Longrightarrow> pos < pos'"
  by (auto simp: parse_simple_string_def parse_error_def parse_integer_def parse_bulk_string_def
      array_count_def split: sum.splits if_splits
      dest!: read_line_progress read_bulk_string_progress)

text \<open>
  Termination: an array's elements are parsed at positions that earlier calls returned, so
  progress of the calls that have already returned is shown first, on the domain.
\<close>

lemma parse_dom_progress:
  "parse_parse_array_parse_elements_dom (Inl (buf, pos)) \<Longrightarrow>
     (\<forall>v pos'. parse buf pos = Inr (v, pos') \<longrightarrow> pos < pos' \<and> pos < length buf)"
  "parse_parse_array_parse_elements_dom (Inr (Inl (buf, pos))) \<Longrightarrow>
     (\<forall>v pos'. parse_array buf pos = Inr (v, pos') \<longrightarrow> pos < pos')"
  "parse_parse_array_parse_elements_dom (Inr (Inr (buf, pos, n))) \<Longrightarrow>
     (\<forall>vs pos'. parse_elements buf pos n = Inr (vs, pos') \<longrightarrow> pos \<le> pos')"
proof (induction buf pos and buf pos and buf pos n rule: parse_parse_array_parse_elements.pinduct)
  case (1 buf pos)
  then show ?case
    by (auto simp: parse.psimps split: if_splits dest: leaf_progress Suc_lessD)
next
  case (2 buf pos)
  then show ?case
    by (fastforce simp: parse_array.psimps split: sum.splits if_splits dest: leaf_progress)
next
  case (3 buf pos n)
  then show ?case
    by (fastforce simp: parse_elements.psimps split: sum.splits if_splits)
qed

lemma array_count_bound: "array_count buf pos = Inr (n, pos') \<Longrightarrow> pos < pos' \<and> pos' \<le> length buf"
  by (auto simp: array_count_def split: sum.splits if_splits dest!: read_line_progress)

termination parse
proof (relation "measure (\<lambda>x. case x of
      Inl (buf, pos) \<Rightarrow> 2 * (length buf - pos)
    | Inr (Inl (buf, pos)) \<Rightarrow> 2 * (length buf - pos)
    | Inr (Inr (buf, pos, n)) \<Rightarrow> 2 * (length buf - pos) + 1)", goal_cases)
  case (3 buf pos z count pos')
  then show ?case by (auto dest: array_count_bound)
next
  case (5 buf pos n z v pos')
  then have "pos < pos'" "pos < length buf" using parse_dom_progress(1) [of buf pos] by auto
  then show ?case by simp
qed auto

declare parse.simps [simp del] parse_array.simps [simp del] parse_elements.simps [simp del]

lemma parse_forward_all:
  "parse buf pos = Inr (v, pos') \<Longrightarrow> pos < pos'"
  "parse_array buf pos = Inr (v, pos') \<Longrightarrow> pos < pos'"
  "parse_elements buf pos n = Inr (vs, pos') \<Longrightarrow> pos \<le> pos'"
proof (induction buf pos and buf pos and buf pos n arbitrary: v pos' and v pos' and vs pos'
    rule: parse_parse_array_parse_elements.induct)
  case (1 buf pos)
  then show ?case
    by (auto simp: parse.simps [of buf pos] split: if_splits dest: leaf_progress Suc_lessD)
next
  case (2 buf pos)
  then show ?case
    by (fastforce simp: parse_array.simps [of buf pos] split: sum.splits dest: array_count_bound)
next
  case (3 buf pos n)
  then show ?case
    by (fastforce simp: parse_elements.simps [of buf pos n] split: sum.splits if_splits)
qed

lemmas parse_forward = parse_forward_all(1)

text \<open>A buffer that fits into memory: its bytes can also be counted by a vector of pointers.\<close>

definition small :: "string \<Rightarrow> bool" where
  "small buf \<longleftrightarrow> length buf < 2 ^ 59"

lemma small_appendD: "small (buf @ ext) \<Longrightarrow> small buf" "small (buf @ ext) \<Longrightarrow> small ext"
  by (simp_all add: small_def)

lemma size_wrap_id': "x = int n \<Longrightarrow> n < 2 ^ 64 \<Longrightarrow> size_wrap x = n"
  by (simp only: size_wrap_id)

lemma read_bulk_string_iff:
  assumes "small buf" "pos \<le> length buf"
  shows "read_bulk_string buf pos len = Inr (s, pos') \<longleftrightarrow>
    pos + len + 2 \<le> length buf \<and> s = take len (drop pos buf) \<and> pos' = pos + len + 2"
proof (cases "len \<le> max_string")
  case True
  then have "size_wrap (int pos + int len + 2) = pos + len + 2"
    using assms by (intro size_wrap_id') (simp_all add: max_string_def small_def)
  then show ?thesis using True by (auto simp: read_bulk_string_def mk_string_def)
next
  case False
  then have "length buf < pos + len + 2" using assms(1) by (simp add: max_string_def small_def)
  then show ?thesis using False by (auto simp: read_bulk_string_def mk_string_def)
qed

lemma parse_bulk_string_bound:
  "small buf \<Longrightarrow> parse_bulk_string buf pos = Inr (v, pos') \<Longrightarrow> pos' \<le> length buf"
  by (auto simp: parse_bulk_string_def read_bulk_string_iff split: sum.splits if_splits
      dest!: read_line_progress)

lemma leaf_bound:
  "parse_simple_string buf pos = Inr (v, pos') \<Longrightarrow> pos' \<le> length buf"
  "parse_error buf pos = Inr (v, pos') \<Longrightarrow> pos' \<le> length buf"
  "parse_integer buf pos = Inr (v, pos') \<Longrightarrow> pos' \<le> length buf"
  by (auto simp: parse_simple_string_def parse_error_def parse_integer_def split: sum.splits
      dest!: read_line_progress)

lemma parse_bounds_all:
  "small buf \<Longrightarrow> parse buf pos = Inr (v, pos') \<Longrightarrow> pos < pos' \<and> pos' \<le> length buf"
  "small buf \<Longrightarrow> parse_array buf pos = Inr (v, pos') \<Longrightarrow> pos < pos' \<and> pos' \<le> length buf"
  "small buf \<Longrightarrow> parse_elements buf pos n = Inr (vs, pos') \<Longrightarrow>
     pos \<le> length buf \<Longrightarrow> pos \<le> pos' \<and> pos' \<le> length buf"
proof (induction buf pos and buf pos and buf pos n arbitrary: v pos' and v pos' and vs pos'
    rule: parse_parse_array_parse_elements.induct)
  case (1 buf pos)
  then show ?case
    by (auto simp: parse.simps [of buf pos] split: if_splits
        dest: leaf_progress leaf_bound parse_bulk_string_bound Suc_lessD)
next
  case (2 buf pos)
  then show ?case
    by (fastforce simp: parse_array.simps [of buf pos] split: sum.splits dest: array_count_bound)
next
  case (3 buf pos n)
  then show ?case
    by (fastforce simp: parse_elements.simps [of buf pos n] split: sum.splits if_splits)
qed

lemmas parse_bounds = parse_bounds_all(1)

section \<open>More input does not change a parse\<close>

lemma find_lf_append: "find_lf buf pos < length buf \<Longrightarrow> find_lf (buf @ ext) pos = find_lf buf pos"
proof (induction buf pos rule: find_lf.induct)
  case (1 buf pos)
  then show ?case
    using find_lf.simps [of buf pos] find_lf.simps [of "buf @ ext" pos]
    by (cases "pos < length buf \<and> buf ! pos \<noteq> LF") (auto simp: nth_append split: if_splits)
qed

lemma read_line_append:
  assumes "read_line buf pos = Inr r"
  shows "read_line (buf @ ext) pos = Inr r"
proof -
  have "find_lf buf pos < length buf" using assms by (auto simp: read_line_def Let_def split: if_splits)
  moreover have "size_wrap (int (find_lf buf pos) - int pos - 1) \<le> length buf - pos"
  proof (cases "find_lf buf pos = pos")
    case True
    then have "size_wrap (int (find_lf buf pos) - int pos - 1) = 2 ^ 64 - 1" by (simp add: size_wrap_def)
    with assms show ?thesis
      by (auto simp: read_line_def Let_def mk_string_def max_string_def split: if_splits)
  next
    case False
    then have "find_lf buf pos > pos" using find_lf_bounds [of pos buf] by simp
    then have eq: "int (find_lf buf pos) - int pos - 1 = int (find_lf buf pos - pos - 1)" by simp
    have "size_wrap (int (find_lf buf pos - pos - 1)) \<le> find_lf buf pos - pos - 1"
      by (simp add: size_wrap_def nat_mod_distrib)
    then show ?thesis unfolding eq using \<open>find_lf buf pos < length buf\<close> by linarith
  qed
  ultimately show ?thesis
    using assms by (auto simp: read_line_def Let_def find_lf_append mk_string_def split: if_splits)
qed

lemma read_bulk_string_append:
  assumes "small (buf @ ext)" "pos \<le> length buf" "read_bulk_string buf pos len = Inr (s, pos')"
  shows "read_bulk_string (buf @ ext) pos len = Inr (s, pos')"
proof -
  have "pos + len + 2 \<le> length buf" "s = take len (drop pos buf)" "pos' = pos + len + 2"
    using assms read_bulk_string_iff [OF small_appendD(1) [OF assms(1)] assms(2)] by auto
  then show ?thesis using assms(1,2) by (subst read_bulk_string_iff) auto
qed

text \<open>\<open>keeps f g\<close>: where \<open>f\<close> succeeds, \<open>g\<close> succeeds with the same result.\<close>

definition keeps :: "'a result \<Rightarrow> 'a result \<Rightarrow> bool" where
  "keeps x y \<longleftrightarrow> (\<forall>r. x = Inr r \<longrightarrow> y = Inr r)"

lemma keeps_Inl [simp]: "keeps (Inl e) y"
  by (simp add: keeps_def)

lemma keeps_refl [simp]: "keeps x x"
  by (simp add: keeps_def)

lemma keeps_bind:
  assumes "keeps x y" "\<And>r. x = Inr r \<Longrightarrow> keeps (f r) (g r)"
  shows "keeps (case x of Inl e \<Rightarrow> Inl e | Inr r \<Rightarrow> f r) (case y of Inl e \<Rightarrow> Inl e | Inr r \<Rightarrow> g r)"
  using assms by (auto simp: keeps_def split: sum.splits)

lemma keeps_read_line: "keeps (read_line buf pos) (read_line (buf @ ext) pos)"
  by (simp add: keeps_def read_line_append)

lemma leaf_append:
  "keeps (parse_simple_string buf pos) (parse_simple_string (buf @ ext) pos)"
  "keeps (parse_error buf pos) (parse_error (buf @ ext) pos)"
  "keeps (parse_integer buf pos) (parse_integer (buf @ ext) pos)"
  "keeps (array_count buf pos) (array_count (buf @ ext) pos)"
  unfolding parse_simple_string_def parse_error_def parse_integer_def array_count_def
  by (rule keeps_bind [OF keeps_read_line], simp)+

lemma parse_bulk_string_append:
  assumes "small (buf @ ext)"
  shows "keeps (parse_bulk_string buf pos) (parse_bulk_string (buf @ ext) pos)"
  unfolding parse_bulk_string_def
proof (rule keeps_bind [OF keeps_read_line], clarify, goal_cases)
  case (1 line p)
  then have "p \<le> length buf" by (auto dest: read_line_progress)
  then have "keeps (read_bulk_string buf p len) (read_bulk_string (buf @ ext) p len)" for len
    using assms by (auto simp: keeps_def read_bulk_string_append)
  then show ?case
    by (cases "stoul line") (auto intro!: keeps_bind)
qed

lemma parse_append_all:
  "small (buf @ ext) \<Longrightarrow> keeps (parse buf pos) (parse (buf @ ext) pos)"
  "small (buf @ ext) \<Longrightarrow> keeps (parse_array buf pos) (parse_array (buf @ ext) pos)"
  "small (buf @ ext) \<Longrightarrow> keeps (parse_elements buf pos n) (parse_elements (buf @ ext) pos n)"
proof (induction buf pos and buf pos and buf pos n rule: parse_parse_array_parse_elements.induct)
  case (1 buf pos)
  then show ?case
    by (simp add: parse.simps [of buf pos] parse.simps [of "buf @ ext" pos] nth_append
        leaf_append parse_bulk_string_append)
next
  case (2 buf pos)
  show ?case
    unfolding parse_array.simps [of buf pos] parse_array.simps [of "buf @ ext" pos]
  proof (rule keeps_bind [OF leaf_append(4)], clarify, goal_cases)
    case (1 count p)
    then show ?case using "2.IH" "2.prems" by (auto intro!: keeps_bind)
  qed
next
  case (3 buf pos n)
  show ?case
  proof (cases "n = 0")
    case False
    with 3 have ih: "keeps (parse buf pos) (parse (buf @ ext) pos)"
      "\<And>v p. parse buf pos = Inr (v, p) \<Longrightarrow>
        keeps (parse_elements buf p (n - 1)) (parse_elements (buf @ ext) p (n - 1))"
      by auto
    show ?thesis
      unfolding parse_elements.simps [of buf pos n] parse_elements.simps [of "buf @ ext" pos n]
        if_not_P [OF False]
      by (intro keeps_bind ih) (auto intro!: keeps_bind ih simp del: One_nat_def)
  qed (simp add: parse_elements.simps)
qed

lemma parse_append: "small (buf @ ext) \<Longrightarrow> parse buf pos = Inr r \<Longrightarrow> parse (buf @ ext) pos = Inr r"
  using parse_append_all(1) [of buf ext pos] by (simp add: keeps_def)

section \<open>A value depends on its own bytes only\<close>

lemma find_lf_take: "find_lf buf pos < m \<Longrightarrow> m \<le> length buf \<Longrightarrow> find_lf (take m buf) pos = find_lf buf pos"
proof (induction buf pos rule: find_lf.induct)
  case (1 buf pos)
  have "pos < m" using 1(2) find_lf_bounds [of pos buf] by linarith
  then show ?case
    using 1 find_lf.simps [of buf pos] find_lf.simps [of "take m buf" pos]
    by (cases "pos < length buf \<and> buf ! pos \<noteq> LF") auto
qed

lemma read_line_take:
  assumes "read_line buf pos = Inr (s, p)" "p \<le> m" "m \<le> length buf"
  shows "read_line (take m buf) pos = Inr (s, p)"
proof -
  let ?f = "find_lf buf pos"
  have f: "?f < length buf" "p = Suc ?f" "size_wrap (int ?f - int pos - 1) \<le> max_string" "s = take (size_wrap (int ?f - int pos - 1)) (drop pos buf)"
    using assms(1) by (auto simp: read_line_def mk_string_def Let_def split: if_splits)
  have "?f \<noteq> pos"
  proof
    assume "?f = pos"
    then have "size_wrap (int ?f - int pos - 1) = 2 ^ 64 - 1" by (simp add: size_wrap_def)
    then show False using f(3) by (simp add: max_string_def)
  qed
  then have "pos < ?f" using find_lf_bounds [of pos buf] by linarith
  then have n: "size_wrap (int ?f - int pos - 1) \<le> m - pos"
    using f(2) assms(2) unfolding size_wrap_def by (simp add: nat_le_iff zmod_le_nonneg_dividend le_diff_conv order_trans [OF zmod_le_nonneg_dividend])
  have "find_lf (take m buf) pos = ?f" using f(2) assms(2,3) by (intro find_lf_take) auto
  then show ?thesis
    using f n assms(2,3) by (simp add: read_line_def mk_string_def Let_def drop_take min_absorb1)
qed

text \<open>Parsing succeeds on the bytes it consumes alone.\<close>

lemma leaf_take:
  assumes "m \<le> length buf"
  shows "parse_simple_string buf pos = Inr (v, p) \<Longrightarrow> p \<le> m \<Longrightarrow> parse_simple_string (take m buf) pos = Inr (v, p)"
    "parse_error buf pos = Inr (v, p) \<Longrightarrow> p \<le> m \<Longrightarrow> parse_error (take m buf) pos = Inr (v, p)"
    "parse_integer buf pos = Inr (v, p) \<Longrightarrow> p \<le> m \<Longrightarrow> parse_integer (take m buf) pos = Inr (v, p)"
    "array_count buf pos = Inr (n, p) \<Longrightarrow> p \<le> m \<Longrightarrow> array_count (take m buf) pos = Inr (n, p)"
  using read_line_take [OF _ _ assms]
  by (auto simp: parse_simple_string_def parse_error_def parse_integer_def array_count_def split: sum.splits if_splits)

lemma bulk_take:
  assumes "small buf" "m \<le> length buf" "parse_bulk_string buf pos = Inr (v, p)" "p \<le> m"
  shows "parse_bulk_string (take m buf) pos = Inr (v, p)"
proof -
  obtain line q where l: "read_line buf pos = Inr (line, q)"
    using assms(3) by (auto simp: parse_bulk_string_def split: sum.splits)
  then have q: "q \<le> length buf" by (auto dest: read_line_progress)
  show ?thesis
  proof (cases "line = ''-1''")
    case True
    then show ?thesis using assms l read_line_take [OF l _ assms(2)] by (simp add: parse_bulk_string_def)
  next
    case False
    then obtain len s where len: "stoul line = Inr len" "read_bulk_string buf q len = Inr (s, p)" "v = bulk s"
      using assms(3) l by (auto simp: parse_bulk_string_def split: sum.splits)
    then have b: "q + len + 2 \<le> length buf" "s = take len (drop q buf)" "p = q + len + 2"
      using read_bulk_string_iff [OF assms(1) q] by auto
    have "small (take m buf)" using assms(1) by (simp add: small_def)
    then have "read_bulk_string (take m buf) q len = Inr (s, p)"
      using b assms(2,4) by (subst read_bulk_string_iff) (auto simp: drop_take min_absorb1)
    then show ?thesis
      using False len b(3) assms(4) read_line_take [OF l _ assms(2)] by (simp add: parse_bulk_string_def)
  qed
qed

lemma parse_take_all:
  "small buf \<Longrightarrow> m \<le> length buf \<Longrightarrow> parse buf pos = Inr (v, p) \<Longrightarrow> p \<le> m \<Longrightarrow> parse (take m buf) pos = Inr (v, p)"
  "small buf \<Longrightarrow> m \<le> length buf \<Longrightarrow> parse_array buf pos = Inr (v, p) \<Longrightarrow> p \<le> m \<Longrightarrow> parse_array (take m buf) pos = Inr (v, p)"
  "small buf \<Longrightarrow> m \<le> length buf \<Longrightarrow> pos \<le> length buf \<Longrightarrow> parse_elements buf pos n = Inr (vs, p) \<Longrightarrow> p \<le> m \<Longrightarrow>
     parse_elements (take m buf) pos n = Inr (vs, p)"
proof (induction buf pos and buf pos and buf pos n arbitrary: v p and v p and vs p rule: parse_parse_array_parse_elements.induct)
  case (1 buf pos)
  have "pos < m" using parse_bounds [OF 1(2,4)] 1(5) by linarith
  then show ?case
    using 1 leaf_take [OF 1(3)] bulk_take [OF 1(2,3)]
    by (auto simp: parse.simps [of buf pos] parse.simps [of "take m buf" pos] split: if_splits)
next
  case (2 buf pos)
  obtain count q where c: "array_count buf pos = Inr (count, q)" using 2(4) by (auto simp: parse_array.simps [of buf pos] split: sum.splits)
  then obtain vs where e: "parse_elements buf q count = Inr (vs, p)" "v = RespValue Array [] 0 vs"
    using 2(4) by (auto simp: parse_array.simps [of buf pos] split: sum.splits)
  have "q \<le> length buf" using array_count_bound [OF c] by simp
  moreover from this have "q \<le> p" using parse_bounds_all(3) [OF 2(2) e(1)] by simp
  ultimately show ?case
    using 2 c e leaf_take(4) [OF 2(3) c] by (simp add: parse_array.simps [of "take m buf" pos])
next
  case (3 buf pos n)
  show ?case
  proof (cases "n = 0")
    case False
    then obtain w q ws where w: "parse buf pos = Inr (w, q)" "parse_elements buf q (n - 1) = Inr (ws, p)" "vs = w # ws"
      using 3(6) by (auto simp: parse_elements.simps [of buf pos n] split: sum.splits)
    have "q \<le> length buf" using parse_bounds [OF 3(3) w(1)] by simp
    moreover from this have "q \<le> p" using parse_bounds_all(3) [OF 3(3) w(2)] by simp
    ultimately show ?thesis
      using False w 3(1) [OF False 3(3,4) w(1)] 3(2) [OF False w(1) _ 3(3,4) _ w(2) 3(7)] 3(7)
      by (simp add: parse_elements.simps [of "take m buf" pos n])
  qed (use 3 in \<open>simp add: parse_elements.simps\<close>)
qed

lemma parse_consumed:
  assumes "small buf" "parse buf 0 = Inr (v, n)"
  shows "parse (take n buf) 0 = Inr (v, n)" "0 < n" "n \<le> length buf"
  using parse_bounds [OF assms] parse_take_all(1) [OF assms(1) _ assms(2), of n] by simp_all

section \<open>The printed form of a value\<close>

text \<open>
  The replies of the server and the requests of the client are built from these pieces; the
  printer of whole values is the protocol's reference form.
\<close>

definition bulk_reply :: "string \<Rightarrow> string" where
  "bulk_reply s = ''$'' @ size_string (length s) @ CRLF @ s @ CRLF"

definition int_reply :: "int \<Rightarrow> string" where
  "int_reply n = '':'' @ to_string n @ CRLF"

definition array_reply :: "string list \<Rightarrow> string" where
  "array_reply xs = ''*'' @ size_string (length xs) @ CRLF @ concat (map bulk_reply xs)"

definition simple_reply :: "string \<Rightarrow> string" where
  "simple_reply s = ''+'' @ s @ CRLF"

definition minus_reply :: "string \<Rightarrow> string" where
  "minus_reply s = ''-'' @ s @ CRLF"

fun print_resp :: "RespValue \<Rightarrow> string" where
  "print_resp (RespValue t s n vs) =
     (case t of
        SimpleString \<Rightarrow> simple_reply s
      | Error \<Rightarrow> minus_reply s
      | Integer \<Rightarrow> int_reply n
      | BulkString \<Rightarrow> bulk_reply s
      | Array \<Rightarrow> ''*'' @ size_string (length vs) @ CRLF @ concat (map print_resp vs))"

definition line_ok :: "string \<Rightarrow> bool" where
  "line_ok s \<longleftrightarrow> LF \<notin> set s \<and> (s \<noteq> [] \<longrightarrow> last s \<noteq> CR)"

fun canonical :: "RespValue \<Rightarrow> bool" where
  "canonical (RespValue t s n vs) =
     (case t of
        SimpleString \<Rightarrow> line_ok s \<and> n = 0 \<and> vs = []
      | Error \<Rightarrow> line_ok s \<and> n = 0 \<and> vs = []
      | Integer \<Rightarrow> s = [] \<and> - (2 ^ 63) \<le> n \<and> n < 2 ^ 63 \<and> vs = []
      | BulkString \<Rightarrow> n = 0 \<and> vs = []
      | Array \<Rightarrow> s = [] \<and> n = 0 \<and> list_all canonical vs)"

section \<open>Parsing inverts printing\<close>

lemma length_CRLF [simp]: "length CRLF = 2"
  by (simp add: CRLF_def)

lemma find_lf_at:
  "LF \<notin> set s \<Longrightarrow> find_lf (pre @ s @ LF # post) (length pre) = length pre + length s"
proof (induction s arbitrary: pre)
  case Nil
  then show ?case by (simp add: find_lf.simps)
next
  case (Cons c s)
  have "find_lf (pre @ (c # s) @ LF # post) (length pre) =
      find_lf ((pre @ [c]) @ s @ LF # post) (length (pre @ [c]))"
    using Cons.prems by (subst find_lf.simps) auto
  also have "\<dots> = length (pre @ [c]) + length s"
    using Cons.prems by (intro Cons.IH) auto
  finally show ?case by simp
qed

lemma read_line_at:
  assumes "LF \<notin> set s" "small (pre @ s @ CRLF @ post)"
  shows "read_line (pre @ s @ CRLF @ post) (length pre) = Inr (s, length pre + length s + 2)"
proof -
  have "find_lf (pre @ (s @ [CR]) @ LF # post) (length pre) = length pre + length (s @ [CR])"
    using assms(1) by (intro find_lf_at) simp
  then have f: "find_lf (pre @ s @ CRLF @ post) (length pre) = length pre + length s + 1"
    by (simp add: CRLF_def)
  have "size_wrap (int (length pre + length s + 1) - int (length pre) - 1) = length s"
    using assms(2) by (intro size_wrap_id') (simp_all add: small_def)
  moreover have "length s \<le> max_string" using assms(2) by (simp add: small_def max_string_def)
  ultimately show ?thesis by (simp add: read_line_def Let_def f mk_string_def)
qed

lemma read_bulk_string_at:
  assumes "small (pre @ s @ CRLF @ post)"
  shows "read_bulk_string (pre @ s @ CRLF @ post) (length pre) (length s) =
    Inr (s, length pre + length s + 2)"
  using assms by (subst read_bulk_string_iff) (auto simp: CRLF_def)

lemma parse_char_at:
  "parse (pre @ c # rest) (length pre) =
     (if c = CHR ''+'' then parse_simple_string (pre @ c # rest) (Suc (length pre))
      else if c = CHR ''-'' then parse_error (pre @ c # rest) (Suc (length pre))
      else if c = CHR '':'' then parse_integer (pre @ c # rest) (Suc (length pre))
      else if c = CHR ''$'' then parse_bulk_string (pre @ c # rest) (Suc (length pre))
      else if c = CHR ''*'' then parse_array (pre @ c # rest) (Suc (length pre))
      else Inl (Runtime_error ''Unknown RESP type''))"
  by (simp add: parse.simps)

text \<open>The same line, read after the type byte \<open>c\<close>.\<close>

lemma read_line_after:
  assumes "LF \<notin> set s" "small (pre @ c # s @ CRLF @ post)"
  shows "read_line (pre @ c # s @ CRLF @ post) (Suc (length pre)) = Inr (s, length pre + length s + 3)"
  using read_line_at [of s "pre @ [c]" post] assms by simp

lemma pop_cr_line_ok [simp]: "line_ok s \<Longrightarrow> pop_cr s = s"
  by (auto simp: line_ok_def pop_cr_def)

lemma parse_simple_at:
  assumes "line_ok s" "small (pre @ simple_reply s @ post)"
  shows "parse (pre @ simple_reply s @ post) (length pre) =
    Inr (RespValue SimpleString s 0 [], length pre + length (simple_reply s))"
  using assms read_line_after [of s pre "CHR ''+''" post]
  by (auto simp: simple_reply_def parse_char_at parse_simple_string_def line_ok_def pop_cr_def)

lemma parse_minus_at:
  assumes "line_ok s" "small (pre @ minus_reply s @ post)"
  shows "parse (pre @ minus_reply s @ post) (length pre) =
    Inr (RespValue Error s 0 [], length pre + length (minus_reply s))"
  using assms read_line_after [of s pre "CHR ''-''" post]
  by (auto simp: minus_reply_def parse_char_at parse_error_def line_ok_def pop_cr_def)

lemma parse_int_at:
  assumes "- (2 ^ 63) \<le> n" "n < 2 ^ 63" "small (pre @ int_reply n @ post)"
  shows "parse (pre @ int_reply n @ post) (length pre) =
    Inr (RespValue Integer [] n [], length pre + length (int_reply n))"
  using assms read_line_after [of "to_string n" pre "CHR '':''" post]
  by (simp add: int_reply_def parse_char_at parse_integer_def)

lemma small_length_less: "small (pre @ s @ post) \<Longrightarrow> length s < 2 ^ 59"
  by (simp add: small_def)

lemma parse_bulk_at:
  assumes "small (pre @ bulk_reply s @ post)"
  shows "parse (pre @ bulk_reply s @ post) (length pre) =
    Inr (bulk s, length pre + length (bulk_reply s))"
proof -
  let ?l = "size_string (length s)"
  let ?pre = "pre @ CHR ''$'' # ?l @ CRLF"
  have "length s < 2 ^ 64" using assms by (simp add: small_def bulk_reply_def)
  then have st: "stoul ?l = Inr (length s)" by simp
  have "read_line (pre @ CHR ''$'' # ?l @ CRLF @ s @ CRLF @ post) (Suc (length pre)) =
      Inr (?l, length ?pre)"
    using assms by (subst read_line_after) (simp_all add: bulk_reply_def)
  moreover have "read_bulk_string (?pre @ s @ CRLF @ post) (length ?pre) (length s) =
      Inr (s, length ?pre + length s + 2)"
    using assms by (intro read_bulk_string_at) (simp add: bulk_reply_def)
  ultimately show ?thesis
    by (simp add: bulk_reply_def parse_char_at parse_bulk_string_def st)
qed

lemma array_count_at:
  assumes "small (pre @ CHR ''*'' # size_string n @ CRLF @ post)" "n \<le> max_vector"
  shows "array_count (pre @ CHR ''*'' # size_string n @ CRLF @ post) (Suc (length pre)) =
    Inr (n, length pre + length (size_string n) + 3)"
proof -
  have "stoul (size_string n) = Inr n"
    using assms(2) by (intro stoul_size_string) (simp add: max_vector_def)
  then show ?thesis
    using assms by (simp add: array_count_def read_line_after)
qed

lemma parse_elements_at:
  assumes "\<And>v pre post. v \<in> set vs \<Longrightarrow> small (pre @ f v @ post) \<Longrightarrow>
      parse (pre @ f v @ post) (length pre) = Inr (g v, length pre + length (f v))"
    and "small (pre @ concat (map f vs) @ post)"
  shows "parse_elements (pre @ concat (map f vs) @ post) (length pre) (length vs) =
    Inr (map g vs, length pre + length (concat (map f vs)))"
  using assms
proof (induction vs arbitrary: pre)
  case Nil
  then show ?case by (simp add: parse_elements.simps)
next
  case (Cons v vs)
  have 1: "parse (pre @ f v @ concat (map f vs) @ post) (length pre) = Inr (g v, length pre + length (f v))"
    using Cons.prems by simp
  have "parse_elements ((pre @ f v) @ concat (map f vs) @ post) (length (pre @ f v)) (length vs) =
      Inr (map g vs, length (pre @ f v) + length (concat (map f vs)))"
    using Cons.prems by (intro Cons.IH) auto
  with 1 show ?case by (simp add: parse_elements.simps [of _ "length pre" "Suc (length vs)"])
qed

lemma length_le_concat: "(\<And>x. x \<in> set xs \<Longrightarrow> f x \<noteq> []) \<Longrightarrow> length xs \<le> length (concat (map f xs))"
proof (induction xs)
  case (Cons x xs)
  then have "0 < length (f x)" "length xs \<le> length (concat (map f xs))" by simp_all
  then have "length xs < length (f x) + length (concat (map f xs))" by linarith
  then show ?case by simp
qed simp

lemma parse_array_at:
  assumes "\<And>v pre post. v \<in> set vs \<Longrightarrow> small (pre @ f v @ post) \<Longrightarrow>
      parse (pre @ f v @ post) (length pre) = Inr (g v, length pre + length (f v))"
    and "\<And>v. v \<in> set vs \<Longrightarrow> f v \<noteq> []"
    and "small (pre @ (''*'' @ size_string (length vs) @ CRLF @ concat (map f vs)) @ post)"
  shows "parse (pre @ (''*'' @ size_string (length vs) @ CRLF @ concat (map f vs)) @ post) (length pre) =
    Inr (RespValue Array [] 0 (map g vs),
      length pre + length (''*'' @ size_string (length vs) @ CRLF @ concat (map f vs)))"
proof -
  let ?l = "size_string (length vs)"
  let ?pre = "pre @ CHR ''*'' # ?l @ CRLF"
  have "length vs \<le> length (concat (map f vs))" using assms(2) by (rule length_le_concat)
  then have "length vs \<le> max_vector" using assms(3) by (simp add: small_def max_vector_def)
  then have "array_count (pre @ CHR ''*'' # ?l @ CRLF @ concat (map f vs) @ post) (Suc (length pre)) =
      Inr (length vs, length ?pre)"
    using assms(3) by (subst array_count_at) simp_all
  moreover have "parse_elements (?pre @ concat (map f vs) @ post) (length ?pre) (length vs) =
      Inr (map g vs, length ?pre + length (concat (map f vs)))"
    using assms(1,3) by (intro parse_elements_at) simp_all
  ultimately show ?thesis by (simp add: parse_char_at parse_array.simps)
qed

lemma print_resp_not_Nil [simp]: "print_resp v \<noteq> []"
  by (cases v) (simp add: simple_reply_def minus_reply_def int_reply_def bulk_reply_def split: RespType.split)

lemma parse_print_at:
  "canonical v \<Longrightarrow> small (pre @ print_resp v @ post) \<Longrightarrow>
     parse (pre @ print_resp v @ post) (length pre) = Inr (v, length pre + length (print_resp v))"
proof (induction v arbitrary: pre post)
  case (RespValue t s n vs)
  show ?case
  proof (cases t)
    case Array
    have "parse (pre @ (''*'' @ size_string (length vs) @ CRLF @ concat (map print_resp vs)) @ post)
        (length pre) = Inr (RespValue Array [] 0 (map (\<lambda>v. v) vs),
          length pre + length (''*'' @ size_string (length vs) @ CRLF @ concat (map print_resp vs)))"
      using RespValue Array by (intro parse_array_at) (auto simp: list_all_iff)
    with RespValue.prems Array show ?thesis by simp
  qed (use RespValue.prems in \<open>auto simp: parse_simple_at parse_minus_at parse_int_at parse_bulk_at bulk_def\<close>)
qed

section \<open>Requests that have not arrived completely\<close>

lemma find_lf_none:
  "LF \<notin> set (drop pos buf) \<Longrightarrow> pos \<le> length buf \<Longrightarrow> find_lf buf pos = length buf"
proof (induction buf pos rule: find_lf.induct)
  case (1 buf pos)
  show ?case
  proof (cases "pos < length buf")
    case True
    then have "drop pos buf = buf ! pos # drop (Suc pos) buf" by (rule Cons_nth_drop_Suc [symmetric])
    then have "buf ! pos \<noteq> LF" "LF \<notin> set (drop (Suc pos) buf)" using "1.prems"(1) by auto
    then show ?thesis using 1 True by (simp add: find_lf.simps [of buf pos])
  qed (use 1 in \<open>simp add: find_lf.simps [of buf "length buf"]\<close>)
qed

lemma read_line_cut: "LF \<notin> set s \<Longrightarrow> read_line (pre @ s) (length pre) = Inl (Runtime_error ''Incomplete line'')"
  using find_lf_none [of "length pre" "pre @ s"] by (simp add: read_line_def Let_def)

lemma parse_elements_cut:
  assumes "\<And>v pre post. v \<in> set vs \<Longrightarrow> small (pre @ f v @ post) \<Longrightarrow>
      parse (pre @ f v @ post) (length pre) = Inr (g v, length pre + length (f v))"
    and "small (pre @ concat (map f vs) @ post)"
    and "parse (pre @ concat (map f vs) @ post) (length pre + length (concat (map f vs))) = Inl e"
    and "length vs < n"
  shows "parse_elements (pre @ concat (map f vs) @ post) (length pre) n = Inl e"
  using assms
proof (induction vs arbitrary: pre n)
  case Nil
  then show ?case by (simp add: parse_elements.simps [of _ _ n])
next
  case (Cons v vs)
  have 1: "parse (pre @ f v @ concat (map f vs) @ post) (length pre) = Inr (g v, length pre + length (f v))"
    using Cons.prems by simp
  have "parse_elements ((pre @ f v) @ concat (map f vs) @ post) (length (pre @ f v)) (n - 1) = Inl e"
    using Cons.prems by (intro Cons.IH) (auto simp: add.assoc)
  with 1 show ?case using Cons.prems(4) by (simp add: parse_elements.simps [of _ "length pre" n])
qed

text \<open>A bulk string of which only a part has arrived.\<close>

lemma parse_bulk_cut:
  assumes "small (pre @ bulk_reply s)" "0 < j" "j < length (bulk_reply s)"
  shows "\<exists>m. parse (pre @ take j (bulk_reply s)) (length pre) = Inl (Runtime_error m) \<and>
    m \<in> {''Incomplete line'', ''Incomplete bulk string''}"
proof -
  define h where "h = size_string (length s) @ [CR]"
  have b: "bulk_reply s = CHR ''$'' # h @ LF # s @ CRLF" by (simp add: bulk_reply_def h_def CRLF_def)
  have noLF: "LF \<notin> set h" by (simp add: h_def)
  obtain i where i: "j = Suc i" using assms(2) by (cases j) auto
  let ?pre = "pre @ ''$''"
  show ?thesis
  proof (cases "i \<le> length h")
    case True
    then have "take j (bulk_reply s) = CHR ''$'' # take i h" by (simp add: b i)
    moreover have "LF \<notin> set (take i h)" using noLF by (meson in_set_takeD)
    ultimately show ?thesis
      using read_line_cut [of "take i h" ?pre] by (simp add: parse_char_at parse_bulk_string_def)
  next
    case False
    define r where "r = take (i - Suc (length h)) (s @ CRLF)"
    let ?buf = "pre @ CHR ''$'' # size_string (length s) @ CRLF @ r" and ?p = "length pre + length (size_string (length s)) + 3"
    have t: "take j (bulk_reply s) = CHR ''$'' # size_string (length s) @ CRLF @ r"
      using False by (simp add: b i h_def r_def CRLF_def take_Cons')
    have r: "length r < length s + 2" using assms(3) False by (simp add: r_def b i)
    have len: "length pre + length (bulk_reply s) \<le> max_vector" using assms(1) by (simp add: small_def max_vector_def)
    then have "stoul (size_string (length s)) = Inr (length s)"
      by (intro stoul_size_string) (simp add: bulk_reply_def max_vector_def)
    moreover have "read_line ?buf (Suc (length pre)) = Inr (size_string (length s), ?p)"
      using len r by (intro read_line_after) (simp_all add: small_def bulk_reply_def max_vector_def)
    moreover have "size_wrap (int ?p + int (length s) + 2) = ?p + length s + 2"
      using len size_wrap_id [of "?p + length s + 2"] by (simp add: bulk_reply_def max_vector_def)
    ultimately show ?thesis
      using r by (simp add: t parse_char_at parse_bulk_string_def read_bulk_string_def)
  qed
qed

text \<open>An array of which the count and some elements have arrived.\<close>

lemma parse_array_cut:
  assumes "\<And>v pre post. v \<in> set vs \<Longrightarrow> small (pre @ f v @ post) \<Longrightarrow>
      parse (pre @ f v @ post) (length pre) = Inr (g v, length pre + length (f v))"
    and "small (''*'' @ size_string n @ CRLF @ concat (map f vs) @ post)" "n \<le> max_vector" "length vs < n"
    and "parse (''*'' @ size_string n @ CRLF @ concat (map f vs) @ post)
      (length (''*'' @ size_string n @ CRLF @ concat (map f vs))) = Inl e"
  shows "parse (''*'' @ size_string n @ CRLF @ concat (map f vs) @ post) 0 = Inl e"
proof -
  let ?pre = "''*'' @ size_string n @ CRLF"
  have "array_count (?pre @ concat (map f vs) @ post) (Suc 0) = Inr (n, length ?pre)"
    using array_count_at [of "[]" n "concat (map f vs) @ post"] assms(2,3) by simp
  moreover have "parse_elements (?pre @ concat (map f vs) @ post) (length ?pre) n = Inl e"
    using assms by (intro parse_elements_cut) auto
  ultimately show ?thesis using parse_char_at [of "[]"] by (simp add: parse_array.simps)
qed

section \<open>Properties\<close>

text \<open>C1. Reading back a printed value: for every value in the protocol's canonical form, the
  parser started at the value's first byte inside any buffer returns exactly that value and the
  position just behind it, whatever stands before and after.\<close>

theorem parse_print_roundtrip:
  assumes "canonical v" "small (pre @ print_resp v @ post)"
  shows "parse (pre @ print_resp v @ post) (length pre) = Inr (v, length (pre @ print_resp v))"
  using parse_print_at [OF assms] by simp

definition sample_request :: RespValue where
  "sample_request = RespValue Array [] 0
     [bulk ''SET'', bulk [], RespValue Integer [] (- 5) [], RespValue Array [] 0 [RespValue Error ''no'' 0 []]]"

lemma sample_request_text:
  "canonical sample_request"
  "length (print_resp sample_request) = 33"
  by (simp_all add: sample_request_def bulk_def line_ok_def simple_reply_def minus_reply_def int_reply_def
      bulk_reply_def to_string_def nat_digits.simps CRLF_def)

theorem parse_print_roundtrip_witness:
  "parse (''ab'' @ print_resp sample_request @ ''xyz'') (length ''ab'') = Inr (sample_request, 35)"
  using parse_print_roundtrip [of sample_request "''ab''" "''xyz''"] sample_request_text
  by (simp add: small_def)

text \<open>C23. A cut-off request is never taken for a request: no proper prefix of a printed value
  parses, so a value that has not arrived completely makes the parser raise an exception.\<close>

theorem parse_prefix_fails:
  assumes "canonical v" "small (print_resp v)" "n < length (print_resp v)"
  shows "\<exists>e. parse (take n (print_resp v)) 0 = Inl e"
proof (rule ccontr)
  let ?t = "take n (print_resp v)"
  assume "\<not> (\<exists>e. parse ?t 0 = Inl e)"
  then obtain w p where r: "parse ?t 0 = Inr (w, p)" by (cases "parse ?t 0") auto
  have sm: "small (?t @ drop n (print_resp v))" using assms(2) by simp
  have "parse (print_resp v) 0 = Inr (w, p)" using parse_append [OF sm r] by simp
  moreover have "p \<le> n" using parse_bounds [OF small_appendD(1) [OF sm] r] by simp
  ultimately show False using parse_print_at [of v "[]" "[]"] assms by simp
qed

theorem parse_prefix_fails_witness: "\<exists>e. parse (take 20 (print_resp sample_request)) 0 = Inl e"
  using parse_prefix_fails [of sample_request 20] sample_request_text by (simp add: small_def)

text \<open>Progress and memory safety of the parser: a successful parse moves the position
  strictly forward and never behind the bytes that were received, and bytes that arrive later do
  not change its result.\<close>

theorem parse_progress:
  assumes "small (buf @ ext)" "parse buf pos = Inr (v, pos')"
  shows "pos < pos' \<and> pos' \<le> length buf \<and> parse (buf @ ext) pos = Inr (v, pos')"
  using assms parse_bounds [OF small_appendD(1) [OF assms(1)] assms(2)] parse_append by auto

theorem parse_progress_witness:
  "parse (print_resp sample_request @ ''*1'') 0 = Inr (sample_request, 33)"
proof -
  have "parse (print_resp sample_request) 0 = Inr (sample_request, 33)"
    using parse_print_at [of sample_request "[]" "[]"] sample_request_text by (simp add: small_def)
  then show ?thesis
    using parse_progress [of "print_resp sample_request" "''*1''" 0] sample_request_text
    by (simp add: small_def)
qed

end
