(* ===== verification/Commands.thy ===== *)
theory Commands
  imports Rdb Resp
begin

text \<open>
  The handlers of the data commands (\<open>handle_*\<close> of \<open>commands.cpp\<close> that work on the keyspace).
  A handler takes the clock readings of its invocation (\<open>clk i\<close> is the \<open>i\<close>-th call of a database
  operation that looks at the clock), the argument vector with the command name at index 0, and
  the keyspace, and returns the reply and the new keyspace.  The guards are the code's, in the
  code's order; \<open>arg i\<close> is only read behind the check of the number of arguments.
\<close>

type_synonym clock = "nat \<Rightarrow> int"
type_synonym cmd_args = "RespValue list"
type_synonym handler = "clock \<Rightarrow> cmd_args \<Rightarrow> database \<Rightarrow> string \<times> database"

section \<open>Replies and arguments\<close>

definition err :: "string \<Rightarrow> string" where
  "err msg = minus_reply (''ERR '' @ msg)"

definition ok_reply :: string where
  "ok_reply = simple_reply ''OK''"

definition nil_reply :: string where
  "nil_reply = ''$-1'' @ CRLF"

definition bool_reply :: "bool \<Rightarrow> string" where
  "bool_reply b = int_reply (if b then 1 else 0)"

abbreviation is_bulk :: "RespValue \<Rightarrow> bool" where
  "is_bulk v \<equiv> resp_type v = BulkString"

abbreviation arg :: "cmd_args \<Rightarrow> nat \<Rightarrow> string" where
  "arg args i \<equiv> resp_str (args ! i)"

text \<open>The collecting loops: all arguments from an index on, or failure at the first that is no
  bulk string.\<close>

definition bulk_from :: "nat \<Rightarrow> cmd_args \<Rightarrow> string list option" where
  "bulk_from i args = (if list_all is_bulk (drop i args) then Some (map resp_str (drop i args)) else None)"

definition count_mod :: "bool \<Rightarrow> string \<Rightarrow> database \<Rightarrow> database" where
  "count_mod changed key db = (if changed then db_increment_mod_count key db else db)"

section \<open>Keys and strings\<close>

definition handle_set :: handler where
  "handle_set clk args db =
     (if length args \<noteq> 3 then (err ''SET requires exactly 2 arguments'', db)
      else if \<not> is_bulk (args ! 1) \<or> \<not> is_bulk (args ! 2) then (err ''SET arguments must be bulk strings'', db)
      else let key = arg args 1; db' = snd (db_set key (arg args 2) db)
           in (ok_reply, db_increment_mod_count key db'))"

definition handle_get :: handler where
  "handle_get clk args db =
     (if length args \<noteq> 2 then (err ''GET requires exactly 1 argument'', db)
      else if \<not> is_bulk (args ! 1) then (err ''GET argument must be a bulk string'', db)
      else let key = arg args 1; (found, db1) = db_exists (clk 0) key db
           in if \<not> found then (nil_reply, db1)
              else let (t, db2) = db_type (clk 1) key db1
                   in if t \<noteq> String then (nil_reply, db2)
                      else let (val, db3) = db_get (clk 2) key db2 in (bulk_reply val, db3))"

definition handle_del :: handler where
  "handle_del clk args db =
     (if length args \<noteq> 2 then (err ''DEL requires exactly 1 argument'', db)
      else if \<not> is_bulk (args ! 1) then (err ''DEL argument must be a bulk string'', db)
      else let key = arg args 1; (found, db1) = db_exists (clk 0) key db;
               (deleted, db2) = db_del key (count_mod found key db1)
           in (bool_reply deleted, db2))"

definition handle_exists :: handler where
  "handle_exists clk args db =
     (if length args \<noteq> 2 then (err ''EXISTS requires exactly 1 argument'', db)
      else if \<not> is_bulk (args ! 1) then (err ''EXISTS argument must be a bulk string'', db)
      else let (found, db1) = db_exists (clk 0) (arg args 1) db in (bool_reply found, db1))"

definition handle_keys :: handler where
  "handle_keys clk args db =
     (if length args \<noteq> 1 then (err ''KEYS requires no arguments'', db)
      else (array_reply (db_keys db), db))"

definition type_name :: "RedisType \<Rightarrow> string" where
  "type_name t =
     (case t of String \<Rightarrow> ''string'' | List \<Rightarrow> ''list'' | Set \<Rightarrow> ''set'' | Hash \<Rightarrow> ''hash'' | ZSet \<Rightarrow> ''zset'')"

definition handle_type :: handler where
  "handle_type clk args db =
     (if length args \<noteq> 2 then (err ''TYPE requires exactly 1 argument'', db)
      else if \<not> is_bulk (args ! 1) then (err ''TYPE argument must be a bulk string'', db)
      else let key = arg args 1; (found, db1) = db_exists (clk 0) key db
           in if \<not> found then (simple_reply ''none'', db1)
              else let (t, db2) = db_type (clk 1) key db1 in (simple_reply (type_name t), db2))"

section \<open>Lists\<close>

definition handle_lpush :: handler where
  "handle_lpush clk args db =
     (if length args < 3 then (err ''LPUSH requires at least 2 arguments'', db)
      else if \<not> is_bulk (args ! 1) then (err ''LPUSH key must be a bulk string'', db)
      else case bulk_from 2 args of
        None \<Rightarrow> (err ''LPUSH values must be bulk strings'', db)
      | Some vals \<Rightarrow>
          let key = arg args 1; (n, db1) = db_lpush key vals db
          in (int_reply (int n), db_increment_mod_count key db1))"

definition handle_rpush :: handler where
  "handle_rpush clk args db =
     (if length args < 3 then (err ''RPUSH requires at least 2 arguments'', db)
      else if \<not> is_bulk (args ! 1) then (err ''RPUSH key must be a bulk string'', db)
      else case bulk_from 2 args of
        None \<Rightarrow> (err ''RPUSH values must be bulk strings'', db)
      | Some vals \<Rightarrow>
          let key = arg args 1; (n, db1) = db_rpush key vals db
          in (int_reply (int n), db_increment_mod_count key db1))"

definition pop_reply :: "clock \<Rightarrow> string \<Rightarrow> string \<times> database \<Rightarrow> string \<times> database" where
  "pop_reply clk key r =
     (case r of (val, db1) \<Rightarrow>
        if val \<noteq> [] then (bulk_reply val, db_increment_mod_count key db1)
        else let (found, db2) = db_exists (clk 0) key db1
             in if \<not> found then (nil_reply, db2) else (bulk_reply val, db_increment_mod_count key db2))"

definition handle_lpop :: handler where
  "handle_lpop clk args db =
     (if length args \<noteq> 2 then (err ''LPOP requires exactly 1 argument'', db)
      else if \<not> is_bulk (args ! 1) then (err ''LPOP key must be a bulk string'', db)
      else pop_reply clk (arg args 1) (db_lpop (arg args 1) db))"

definition handle_rpop :: handler where
  "handle_rpop clk args db =
     (if length args \<noteq> 2 then (err ''RPOP requires exactly 1 argument'', db)
      else if \<not> is_bulk (args ! 1) then (err ''RPOP key must be a bulk string'', db)
      else pop_reply clk (arg args 1) (db_rpop (arg args 1) db))"

definition handle_llen :: handler where
  "handle_llen clk args db =
     (if length args \<noteq> 2 then (err ''LLEN requires exactly 1 argument'', db)
      else if \<not> is_bulk (args ! 1) then (err ''LLEN key must be a bulk string'', db)
      else let (n, db1) = db_llen (clk 0) (arg args 1) db in (int_reply (int n), db1))"

text \<open>\<open>start = std::stoi(args[2]); end = std::stoi(args[3])\<close> inside one \<open>try\<close> block.\<close>

definition two_ints :: "cmd_args \<Rightarrow> (int \<times> int) option" where
  "two_ints args =
     (case stoi (arg args 2) of
        Inl _ \<Rightarrow> None
      | Inr start \<Rightarrow> (case stoi (arg args 3) of Inl _ \<Rightarrow> None | Inr stop \<Rightarrow> Some (start, stop)))"

definition handle_lrange :: handler where
  "handle_lrange clk args db =
     (if length args \<noteq> 4 then (err ''LRANGE requires exactly 3 arguments'', db)
      else if \<not> is_bulk (args ! 1) then (err ''LRANGE key must be a bulk string'', db)
      else case two_ints args of
        None \<Rightarrow> (err ''LRANGE start and end must be integers'', db)
      | Some (start, stop) \<Rightarrow> (array_reply (db_lrange (arg args 1) start stop db), db))"

definition handle_lindex :: handler where
  "handle_lindex clk args db =
     (if length args \<noteq> 3 then (err ''LINDEX requires exactly 2 arguments'', db)
      else if \<not> is_bulk (args ! 1) then (err ''LINDEX key must be a bulk string'', db)
      else case stoi (arg args 2) of
        Inl _ \<Rightarrow> (err ''LINDEX index must be an integer'', db)
      | Inr index \<Rightarrow>
          let key = arg args 1; val = db_lindex key index db
          in if val = [] then (nil_reply, snd (db_exists (clk 0) key db)) else (bulk_reply val, db))"

section \<open>Sets\<close>

definition handle_sadd :: handler where
  "handle_sadd clk args db =
     (if length args < 3 then (err ''SADD requires at least 2 arguments'', db)
      else if \<not> is_bulk (args ! 1) then (err ''SADD key must be a bulk string'', db)
      else case bulk_from 2 args of
        None \<Rightarrow> (err ''SADD members must be bulk strings'', db)
      | Some ms \<Rightarrow>
          let key = arg args 1; (n, db1) = db_sadd key ms db
          in (int_reply (int n), count_mod (0 < n) key db1))"

definition handle_srem :: handler where
  "handle_srem clk args db =
     (if length args < 3 then (err ''SREM requires at least 2 arguments'', db)
      else if \<not> is_bulk (args ! 1) then (err ''SREM key must be a bulk string'', db)
      else case bulk_from 2 args of
        None \<Rightarrow> (err ''SREM members must be bulk strings'', db)
      | Some ms \<Rightarrow>
          let key = arg args 1; (n, db1) = db_srem key ms db
          in (int_reply (int n), count_mod (0 < n) key db1))"

definition handle_sismember :: handler where
  "handle_sismember clk args db =
     (if length args \<noteq> 3 then (err ''SISMEMBER requires exactly 2 arguments'', db)
      else if \<not> is_bulk (args ! 1) \<or> \<not> is_bulk (args ! 2) then (err ''SISMEMBER arguments must be bulk strings'', db)
      else (bool_reply (db_sismember (arg args 1) (arg args 2) db), db))"

definition handle_scard :: handler where
  "handle_scard clk args db =
     (if length args \<noteq> 2 then (err ''SCARD requires exactly 1 argument'', db)
      else if \<not> is_bulk (args ! 1) then (err ''SCARD key must be a bulk string'', db)
      else (int_reply (int (db_scard (arg args 1) db)), db))"

definition handle_smembers :: handler where
  "handle_smembers clk args db =
     (if length args \<noteq> 2 then (err ''SMEMBERS requires exactly 1 argument'', db)
      else if \<not> is_bulk (args ! 1) then (err ''SMEMBERS key must be a bulk string'', db)
      else (array_reply (db_smembers (arg args 1) db), db))"

definition handle_sinter :: handler where
  "handle_sinter clk args db =
     (if length args < 2 then (err ''SINTER requires at least 1 argument'', db)
      else case bulk_from 1 args of
        None \<Rightarrow> (err ''SINTER keys must be bulk strings'', db)
      | Some keys \<Rightarrow> (array_reply (db_sinter keys db), db))"

definition handle_sunion :: handler where
  "handle_sunion clk args db =
     (if length args < 2 then (err ''SUNION requires at least 1 argument'', db)
      else case bulk_from 1 args of
        None \<Rightarrow> (err ''SUNION keys must be bulk strings'', db)
      | Some keys \<Rightarrow> (array_reply (db_sunion keys db), db))"

definition handle_sdiff :: handler where
  "handle_sdiff clk args db =
     (if length args < 2 then (err ''SDIFF requires at least 1 argument'', db)
      else case bulk_from 1 args of
        None \<Rightarrow> (err ''SDIFF keys must be bulk strings'', db)
      | Some keys \<Rightarrow> (array_reply (db_sdiff keys db), db))"

section \<open>Hashes\<close>

text \<open>
  The loop of \<open>handle_hset\<close> over the pairs from index 2 on: each pair is stored at once, so the
  fields before a bad pair stay.  \<open>None\<close> is the early return.
\<close>

fun hset_loop :: "string \<Rightarrow> RespValue list \<Rightarrow> nat \<Rightarrow> database \<Rightarrow> nat option \<times> database" where
  "hset_loop key (f # x # rest) n db =
     (if \<not> is_bulk f \<or> \<not> is_bulk x then (None, db)
      else let (done, db') = db_hset key (resp_str f) (resp_str x) db
           in hset_loop key rest (if done then n + 1 else n) db')"
| "hset_loop key _ n db = (Some n, db)"

definition handle_hset :: handler where
  "handle_hset clk args db =
     (if length args < 4 \<or> length args mod 2 \<noteq> 0
      then (err ''HSET requires an even number of arguments (at least key, field, value)'', db)
      else if \<not> is_bulk (args ! 1) then (err ''HSET key must be a bulk string'', db)
      else let key = arg args 1
           in case hset_loop key (drop 2 args) 0 db of
                (None, db1) \<Rightarrow> (err ''HSET field and value must be bulk strings'', db1)
              | (Some n, db1) \<Rightarrow> (int_reply (int n), count_mod (0 < n) key db1))"

definition handle_hget :: handler where
  "handle_hget clk args db =
     (if length args \<noteq> 3 then (err ''HGET requires exactly 2 arguments'', db)
      else if \<not> is_bulk (args ! 1) \<or> \<not> is_bulk (args ! 2) then (err ''HGET key and field must be bulk strings'', db)
      else let key = arg args 1; val = db_hget key (arg args 2) db
           in if val \<noteq> [] then (bulk_reply val, db)
              else let (found, db1) = db_exists (clk 0) key db
                   in (nil_reply, if found then snd (db_type (clk 1) key db1) else db1))"

definition handle_hdel :: handler where
  "handle_hdel clk args db =
     (if length args < 3 then (err ''HDEL requires at least 2 arguments'', db)
      else if \<not> is_bulk (args ! 1) then (err ''HDEL key must be a bulk string'', db)
      else case bulk_from 2 args of
        None \<Rightarrow> (err ''HDEL fields must be bulk strings'', db)
      | Some flds \<Rightarrow>
          let key = arg args 1; (removed, db1) = db_hdel key flds db
          in (bool_reply removed, count_mod removed key db1))"

definition handle_hlen :: handler where
  "handle_hlen clk args db =
     (if length args \<noteq> 2 then (err ''HLEN requires exactly 1 argument'', db)
      else if \<not> is_bulk (args ! 1) then (err ''HLEN key must be a bulk string'', db)
      else (int_reply (int (db_hlen (arg args 1) db)), db))"

definition handle_hkeys :: handler where
  "handle_hkeys clk args db =
     (if length args \<noteq> 2 then (err ''HKEYS requires exactly 1 argument'', db)
      else if \<not> is_bulk (args ! 1) then (err ''HKEYS key must be a bulk string'', db)
      else (array_reply (db_hkeys (arg args 1) db), db))"

definition handle_hvals :: handler where
  "handle_hvals clk args db =
     (if length args \<noteq> 2 then (err ''HVALS requires exactly 1 argument'', db)
      else if \<not> is_bulk (args ! 1) then (err ''HVALS key must be a bulk string'', db)
      else (array_reply (db_hvals (arg args 1) db), db))"

text \<open>The header is \<open>hash.size() * 2\<close>, then field and value of each pair.\<close>

definition handle_hgetall :: handler where
  "handle_hgetall clk args db =
     (if length args \<noteq> 2 then (err ''HGETALL requires exactly 1 argument'', db)
      else if \<not> is_bulk (args ! 1) then (err ''HGETALL key must be a bulk string'', db)
      else let h = db_hgetall (arg args 1) db
           in (''*'' @ size_string (length h * 2) @ CRLF @
               concat (map (\<lambda>(f, x). bulk_reply f @ bulk_reply x) h), db))"

section \<open>Sorted sets\<close>

text \<open>The loop of \<open>handle_zadd\<close>: the pairs, or the message of the first error.\<close>

fun zadd_pairs :: "RespValue list \<Rightarrow> string + (double \<times> string) list" where
  "zadd_pairs (s # m # rest) =
     (if \<not> is_bulk s \<or> \<not> is_bulk m then Inl ''ZADD score and member must be bulk strings''
      else case stod (resp_str s) of
        Inl _ \<Rightarrow> Inl ''ZADD score must be a valid number''
      | Inr score \<Rightarrow>
          (case zadd_pairs rest of Inl e \<Rightarrow> Inl e | Inr ps \<Rightarrow> Inr ((score, resp_str m) # ps)))"
| "zadd_pairs _ = Inr []"

definition handle_zadd :: handler where
  "handle_zadd clk args db =
     (if length args < 4 \<or> length args mod 2 \<noteq> 0
      then (err ''ZADD requires an even number of arguments (at least key, score, member)'', db)
      else if \<not> is_bulk (args ! 1) then (err ''ZADD key must be a bulk string'', db)
      else case zadd_pairs (drop 2 args) of
        Inl e \<Rightarrow> (err e, db)
      | Inr ms \<Rightarrow>
          let key = arg args 1; (added, db1) = db_zadd key ms db
          in (bool_reply added, count_mod added key db1))"

definition handle_zrem :: handler where
  "handle_zrem clk args db =
     (if length args < 3 then (err ''ZREM requires at least 2 arguments'', db)
      else if \<not> is_bulk (args ! 1) then (err ''ZREM key must be a bulk string'', db)
      else case bulk_from 2 args of
        None \<Rightarrow> (err ''ZREM members must be bulk strings'', db)
      | Some ms \<Rightarrow>
          let key = arg args 1; (removed, db1) = db_zrem key ms db
          in (bool_reply removed, count_mod removed key db1))"

definition handle_zcard :: handler where
  "handle_zcard clk args db =
     (if length args \<noteq> 2 then (err ''ZCARD requires exactly 1 argument'', db)
      else if \<not> is_bulk (args ! 1) then (err ''ZCARD key must be a bulk string'', db)
      else (int_reply (int (db_zcard (arg args 1) db)), db))"

definition handle_zrange :: handler where
  "handle_zrange clk args db =
     (if length args < 4 then (err ''ZRANGE requires at least 3 arguments'', db)
      else if \<not> is_bulk (args ! 1) then (err ''ZRANGE key must be a bulk string'', db)
      else case two_ints args of
        None \<Rightarrow> (err ''ZRANGE start and end must be integers'', db)
      | Some (start, stop) \<Rightarrow> (array_reply (db_zrange (arg args 1) start stop db), db))"

definition handle_zrevrange :: handler where
  "handle_zrevrange clk args db =
     (if length args < 4 then (err ''ZREVRANGE requires at least 3 arguments'', db)
      else if \<not> is_bulk (args ! 1) then (err ''ZREVRANGE key must be a bulk string'', db)
      else case two_ints args of
        None \<Rightarrow> (err ''ZREVRANGE start and end must be integers'', db)
      | Some (start, stop) \<Rightarrow> (array_reply (db_zrevrange (arg args 1) start stop db), db))"

text \<open>Cutting the zeros of \<open>std::to_string(score)\<close>, and the point when nothing is left behind it.\<close>

definition trim_zeros :: "string \<Rightarrow> string" where
  "trim_zeros s =
     (if CHR ''.'' \<in> set s then
        (let dot_pos = length (takeWhile (\<lambda>c. c \<noteq> CHR ''.'') s);
             last_non_zero = length (dropWhile (\<lambda>c. c = CHR ''0'') (rev s)) - 1
         in if dot_pos < last_non_zero then take (last_non_zero + 1) s else take dot_pos s)
      else s)"

definition handle_zscore :: handler where
  "handle_zscore clk args db =
     (if length args \<noteq> 3 then (err ''ZSCORE requires exactly 2 arguments'', db)
      else if \<not> is_bulk (args ! 1) \<or> \<not> is_bulk (args ! 2) then (err ''ZSCORE key and member must be bulk strings'', db)
      else let key = arg args 1; score = db_zscore key (arg args 2) db;
               text = trim_zeros (double_to_string score)
           in if deq score dzero then
                (let (found, db1) = db_exists (clk 0) key db
                 in if \<not> found \<or> db_zcard key db1 = 0 then (nil_reply, db1) else (bulk_reply text, db1))
              else (bulk_reply text, db))"

definition handle_zrank :: handler where
  "handle_zrank clk args db =
     (if length args \<noteq> 3 then (err ''ZRANK requires exactly 2 arguments'', db)
      else if \<not> is_bulk (args ! 1) \<or> \<not> is_bulk (args ! 2) then (err ''ZRANK key and member must be bulk strings'', db)
      else let rank = db_zrank (arg args 1) (arg args 2) db
           in if rank < 0 then (nil_reply, db) else (int_reply rank, db))"

section \<open>Expiry\<close>

definition handle_expire :: handler where
  "handle_expire clk args db =
     (if length args \<noteq> 3 then (err ''EXPIRE requires exactly 2 arguments'', db)
      else if \<not> is_bulk (args ! 1) \<or> \<not> is_bulk (args ! 2) then (err ''EXPIRE arguments must be bulk strings'', db)
      else case stoll (arg args 2) of
        Inl _ \<Rightarrow> (err ''EXPIRE seconds must be an integer'', db)
      | Inr seconds \<Rightarrow>
          let key = arg args 1; (result, db1) = db_expire (clk 0) (clk 1) key seconds db
          in (bool_reply result, count_mod result key db1))"

definition handle_pexpire :: handler where
  "handle_pexpire clk args db =
     (if length args \<noteq> 3 then (err ''PEXPIRE requires exactly 2 arguments'', db)
      else if \<not> is_bulk (args ! 1) \<or> \<not> is_bulk (args ! 2) then (err ''PEXPIRE arguments must be bulk strings'', db)
      else case stoll (arg args 2) of
        Inl _ \<Rightarrow> (err ''PEXPIRE milliseconds must be an integer'', db)
      | Inr milliseconds \<Rightarrow>
          let key = arg args 1; (result, db1) = db_pexpire (clk 0) (clk 1) key milliseconds db
          in (bool_reply result, count_mod result key db1))"

definition handle_ttl :: handler where
  "handle_ttl clk args db =
     (if length args \<noteq> 2 then (err ''TTL requires exactly 1 argument'', db)
      else if \<not> is_bulk (args ! 1) then (err ''TTL key must be a bulk string'', db)
      else let (t, db1) = db_ttl (clk 0) (clk 1) (arg args 1) db in (int_reply t, db1))"

definition handle_pttl :: handler where
  "handle_pttl clk args db =
     (if length args \<noteq> 2 then (err ''PTTL requires exactly 1 argument'', db)
      else if \<not> is_bulk (args ! 1) then (err ''PTTL key must be a bulk string'', db)
      else let (t, db1) = db_pttl (clk 0) (clk 1) (arg args 1) db in (int_reply t, db1))"

definition handle_persist :: handler where
  "handle_persist clk args db =
     (if length args \<noteq> 2 then (err ''PERSIST requires exactly 1 argument'', db)
      else if \<not> is_bulk (args ! 1) then (err ''PERSIST key must be a bulk string'', db)
      else let key = arg args 1; (result, db1) = db_persist (clk 0) key db
           in (bool_reply result, count_mod result key db1))"

end
