(* ===== verification/Command_Laws.thy ===== *)
theory Command_Laws
  imports Commands
begin

text \<open>
  The contract of a data command (locale \<open>command\<close>): it keeps the keyspace well formed, touches
  no entry but that of its first argument, leaves the subscriptions alone, and replies with
  exactly one protocol value.  Every handler is an interpretation, and \<open>data_commands\<close> is the
  table the command processor dispatches on.
\<close>

section \<open>Replies\<close>

text \<open>A text that the parser reads as one value, wherever it stands.\<close>

definition one_reply :: "string \<Rightarrow> bool" where
  "one_reply r \<longleftrightarrow> r \<noteq> [] \<and>
     (\<exists>v. \<forall>pre post. small (pre @ r @ post) \<longrightarrow>
        parse (pre @ r @ post) (length pre) = Inr (v, length pre + length r))"

lemma one_replyI:
  "r \<noteq> [] \<Longrightarrow> (\<And>pre post. small (pre @ r @ post) \<Longrightarrow>
     parse (pre @ r @ post) (length pre) = Inr (v, length pre + length r)) \<Longrightarrow> one_reply r"
  by (auto simp: one_reply_def)

named_theorems replies \<open>texts that are one reply\<close>

lemma one_bulk [replies]: "one_reply (bulk_reply s)"
  by (rule one_replyI [of _ "bulk s"], simp add: bulk_reply_def, rule parse_bulk_at)

lemma one_int [replies]: "- (2 ^ 63) \<le> n \<Longrightarrow> n < 2 ^ 63 \<Longrightarrow> one_reply (int_reply n)"
  by (rule one_replyI [of _ "RespValue Integer [] n []"], simp add: int_reply_def, rule parse_int_at)

lemma one_simple [replies]: "line_ok s \<Longrightarrow> one_reply (simple_reply s)"
  by (rule one_replyI [of _ "RespValue SimpleString s 0 []"], simp add: simple_reply_def, rule parse_simple_at)

lemma one_minus [replies]: "line_ok s \<Longrightarrow> one_reply (minus_reply s)"
  by (rule one_replyI [of _ "RespValue Error s 0 []"], simp add: minus_reply_def, rule parse_minus_at)

lemma one_bool [replies]: "one_reply (bool_reply b)"
  unfolding bool_reply_def by (rule one_int) simp_all

lemma one_nil [replies]: "one_reply nil_reply"
proof (rule one_replyI)
  show "parse (pre @ nil_reply @ post) (length pre) = Inr (bulk [], length pre + length nil_reply)"
    if "small (pre @ nil_reply @ post)" for pre post
    using that read_line_after [of "''-1''" pre "CHR ''$''" post]
    by (simp add: nil_reply_def parse_char_at parse_bulk_string_def)
qed (simp add: nil_reply_def)

lemma one_array:
  assumes "list_all one_reply rs"
  shows "one_reply (''*'' @ size_string (length rs) @ CRLF @ concat rs)"
proof -
  obtain g where g: "\<And>r pre post. r \<in> set rs \<Longrightarrow> small (pre @ r @ post) \<Longrightarrow>
      parse (pre @ r @ post) (length pre) = Inr (g r, length pre + length r)"
    using assms unfolding list_all_iff one_reply_def by metis
  have ne: "r \<noteq> []" if "r \<in> set rs" for r using assms that by (auto simp: list_all_iff one_reply_def)
  show ?thesis
    using parse_array_at [of rs "\<lambda>r. r" g] g ne
    by (intro one_replyI [of _ "RespValue Array [] 0 (map g rs)"]) simp_all
qed

lemma one_array_reply [replies]: "one_reply (array_reply xs)"
  using one_array [of "map bulk_reply xs"] by (simp add: array_reply_def list_all_iff one_bulk)

text \<open>The messages are fixed texts without line ends.\<close>

lemma line_ok_err: "LF \<notin> set s \<Longrightarrow> CR \<notin> set s \<Longrightarrow> line_ok (''ERR '' @ s)"
  by (auto simp: line_ok_def) (metis last_in_set)

lemma one_err [replies]: "LF \<notin> set s \<Longrightarrow> CR \<notin> set s \<Longrightarrow> one_reply (err s)"
  unfolding err_def by (intro one_minus line_ok_err)

lemma one_ok [replies]: "one_reply ok_reply"
  unfolding ok_reply_def by (rule one_simple) (simp add: line_ok_def)

section \<open>Sizes\<close>

text \<open>No container of the keyspace has more than \<open>n\<close> elements.\<close>

definition value_cap :: "nat \<Rightarrow> redis_value \<Rightarrow> bool" where
  "value_cap n v \<longleftrightarrow> length (list_val v) \<le> n \<and> length (set_val v) \<le> n \<and> length (hash_val v) \<le> n \<and>
     length (zset_member_to_score v) \<le> n \<and> length (zset_score_to_member v) \<le> n"

definition db_cap :: "nat \<Rightarrow> database \<Rightarrow> bool" where
  "db_cap n db \<longleftrightarrow> all_values (value_cap n) db"

lemma value_cap_mono: "value_cap n v \<Longrightarrow> n \<le> m \<Longrightarrow> value_cap m v"
  by (auto simp: value_cap_def)

lemma db_cap_mono: "db_cap n db \<Longrightarrow> n \<le> m \<Longrightarrow> db_cap m db"
  by (auto simp: db_cap_def all_values_def list_all_iff value_cap_def dest!: bspec)

lemma value_cap_update [simp]:
  "value_cap n (v\<lparr>value_type := t\<rparr>) = value_cap n v" "value_cap n (v\<lparr>expiry_time := x\<rparr>) = value_cap n v"
  "value_cap n (v\<lparr>mod_count := c\<rparr>) = value_cap n v" "value_cap n (v\<lparr>str_val := s\<rparr>) = value_cap n v"
  by (simp_all add: value_cap_def)

lemma value_cap_new [simp]: "value_cap n (new_value t)"
  by (simp add: value_cap_def)

lemma db_cap_entry: "db_cap n db \<Longrightarrow> entry k db = Some v \<Longrightarrow> value_cap n v"
  unfolding db_cap_def by (rule all_values_entry)

lemma db_cap_at_key: "db_cap n db \<Longrightarrow> value_cap n (at_key (entry k db))"
  by (simp add: db_cap_def all_values_at_key)

lemma db_cap_alter:
  assumes "db_cap n db" "\<And>v. snd (f (entry key db)) = Some v \<Longrightarrow> value_cap m v" "n \<le> m"
  shows "db_cap m (snd (alter key f db))"
  using assms db_cap_mono [OF assms(1,3)] unfolding db_cap_def by (intro all_values_alter)

lemma length_uset_insert_all: "length (uset_insert_all xs s) \<le> length s + length xs"
proof (induction xs arbitrary: s)
  case (Cons x xs)
  have "length (uset_insert x s) \<le> length s + 1" by (simp add: uset_insert_def)
  then show ?case using Cons.IH [of "uset_insert x s"] by (simp add: uset_insert_all_def)
qed (simp add: uset_insert_all_def)

lemma length_uset_erase_all: "length (uset_erase_all xs s) \<le> length s"
proof (induction xs arbitrary: s)
  case (Cons x xs)
  have "length (uset_erase x s) \<le> length s" by (simp add: uset_erase_def)
  then show ?case using Cons.IH [of "uset_erase x s"] by (simp add: uset_erase_all_def)
qed (simp add: uset_erase_all_def)

lemma length_update_le: "length (AList.update k x m) \<le> Suc (length m)"
  by (induction m) auto

lemma length_fold_delete: "length (fold AList.delete ks m) \<le> length m"
proof (induction ks arbitrary: m)
  case (Cons k ks)
  have "length (AList.delete k m) \<le> length m" by (simp add: AList.delete_eq)
  then show ?case using Cons.IH [of "AList.delete k m"] by simp
qed simp

lemma length_mm_insert: "length (mm_insert s m ps) = Suc (length ps)"
  by (induction ps) auto

lemma length_erase_member: "length (erase_member m ps) \<le> length ps"
  by (induction ps) auto

lemma length_mm_erase: "length (mm_erase s m ps) \<le> length ps"
proof -
  let ?P = "\<lambda>p. dlt (fst p) s" and ?Q = "\<lambda>p. \<not> dlt s (fst p)"
  have "length (takeWhile ?P ps) + length (dropWhile ?P ps) = length ps"
    "length (takeWhile ?Q (dropWhile ?P ps)) + length (dropWhile ?Q (dropWhile ?P ps)) = length (dropWhile ?P ps)"
    by (simp_all flip: length_append)
  then show ?thesis
    using length_erase_member [of m "takeWhile ?Q (dropWhile ?P ps)"] by (simp add: mm_erase_def Let_def)
qed

lemma value_cap_zadd: "value_cap n v \<Longrightarrow> value_cap (n + length ms) (fold zadd_one ms v)"
proof (induction ms arbitrary: n v)
  case (Cons p ms)
  obtain s m where p: "p = (s, m)" by (cases p)
  have "value_cap (Suc n) (zadd_one p v)"
    using Cons.prems length_update_le [of m s "zset_member_to_score v"]
      length_mm_erase [of _ m "zset_score_to_member v"]
    by (auto simp: p value_cap_def zadd_one_def length_mm_insert Let_def split: option.split intro: order_trans)
  then show ?case using Cons.IH [of "Suc n" "zadd_one p v"] by simp
qed simp

lemma value_cap_zrem: "value_cap n (snd bv) \<Longrightarrow> value_cap n (snd (fold zrem_one ms bv))"
proof (induction ms arbitrary: bv)
  case (Cons m ms)
  have "length (AList.delete m (zset_member_to_score (snd bv))) \<le> length (zset_member_to_score (snd bv))"
    by (simp add: AList.delete_eq)
  then have "value_cap n (snd (zrem_one m bv))"
    using Cons.prems length_mm_erase [of _ m "zset_score_to_member (snd bv)"]
    by (auto simp: value_cap_def zrem_one_def case_prod_beta split: option.split intro: order_trans)
  then show ?case using Cons.IH by simp
qed simp

lemma value_cap_collections:
  "value_cap n v \<Longrightarrow> length l \<le> n \<Longrightarrow> value_cap n (v\<lparr>list_val := l\<rparr>)"
  "value_cap n v \<Longrightarrow> length u \<le> n \<Longrightarrow> value_cap n (v\<lparr>set_val := u\<rparr>)"
  "value_cap n v \<Longrightarrow> length h \<le> n \<Longrightarrow> value_cap n (v\<lparr>hash_val := h\<rparr>)"
  by (simp_all add: value_cap_def)

lemma db_cap_ops:
  assumes "db_cap n db"
  shows "db_cap n (snd (db_set key val db))" "db_cap n (snd (db_get now key db))"
    "db_cap n (snd (db_del key db))" "db_cap n (snd (db_exists now key db))"
    "db_cap n (snd (db_type now key db))" "db_cap n (snd (db_expire now now' key x db))"
    "db_cap n (snd (db_pexpire now now' key x db))" "db_cap n (snd (db_ttl now now' key db))"
    "db_cap n (snd (db_pttl now now' key db))" "db_cap n (snd (db_persist now key db))"
    "db_cap n (db_increment_mod_count key db)" "db_cap n (snd (db_llen now key db))"
  unfolding db_defs
  by (rule db_cap_alter [OF assms],
      use db_cap_entry [OF assms] db_cap_at_key [OF assms] in
        \<open>auto simp: Let_def set_expiry_seconds_def set_expiry_milliseconds_def persist_value_def
          split: option.splits if_splits list.splits\<close>)+

lemma db_cap_shrink:
  assumes "db_cap n db"
  shows "db_cap n (snd (db_lpop key db))" "db_cap n (snd (db_rpop key db))"
    "db_cap n (snd (db_srem key ms db))" "db_cap n (snd (db_hdel key flds db))"
proof -
  note cap = db_cap_alter [OF assms] db_cap_entry [OF assms, of key]
  show "db_cap n (snd (db_lpop key db))" "db_cap n (snd (db_rpop key db))"
    unfolding db_defs using cap(2)
    by (auto intro!: cap(1) simp: value_cap_def split: option.splits if_splits list.splits)
  show "db_cap n (snd (db_srem key ms db))"
    unfolding db_defs using cap(2)
    by (auto intro!: cap(1) value_cap_collections le_trans [OF length_uset_erase_all] simp: Let_def
        split: option.splits if_splits) (simp add: value_cap_def)
  show "db_cap n (snd (db_hdel key flds db))"
    unfolding db_defs using cap(2)
    by (auto intro!: cap(1) value_cap_collections le_trans [OF length_fold_delete] simp: Let_def
        split: option.splits if_splits) (simp add: value_cap_def)
qed

lemma db_cap_zrem: "db_cap n db \<Longrightarrow> db_cap n (snd (db_zrem key ms db))"
  unfolding db_zrem_def using db_cap_entry [of n db key]
  by (auto intro!: db_cap_alter simp: Let_def case_prod_beta value_cap_zrem split: option.splits if_splits)

lemma db_cap_grow:
  assumes "db_cap n db"
  shows "db_cap (n + length vals) (snd (db_lpush key vals db))" "db_cap (n + length vals) (snd (db_rpush key vals db))"
    "db_cap (n + length vals) (snd (db_sadd key vals db))" "db_cap (Suc n) (snd (db_hset key fld x db))"
    "db_cap (n + length ps) (snd (db_zadd key ps db))"
proof -
  note at = db_cap_at_key [OF assms, of key]
  show "db_cap (n + length vals) (snd (db_lpush key vals db))" "db_cap (n + length vals) (snd (db_rpush key vals db))"
    unfolding db_defs using at by (auto intro!: db_cap_alter [OF assms] simp: Let_def value_cap_def)
  show "db_cap (n + length vals) (snd (db_sadd key vals db))"
    unfolding db_sadd_def using at length_uset_insert_all [of vals "set_val (at_key (entry key db))"]
    by (auto intro!: db_cap_alter [OF assms] simp: Let_def value_cap_def)
  show "db_cap (Suc n) (snd (db_hset key fld x db))"
    unfolding db_hset_def using at length_update_le [of fld x "hash_val (at_key (entry key db))"]
    by (auto intro!: db_cap_alter [OF assms] simp: Let_def value_cap_def)
  show "db_cap (n + length ps) (snd (db_zadd key ps db))"
    unfolding db_zadd_def using at by (auto intro!: db_cap_alter [OF assms] value_cap_zadd)
qed

section \<open>The invariant of the keyspace\<close>

definition db_ok :: "nat \<Rightarrow> database \<Rightarrow> bool" where
  "db_ok n db \<longleftrightarrow> db_wf db \<and> db_cap n db"

lemma db_ok_empty: "db_ok n empty_db"
  by (simp add: db_ok_def db_cap_def)

lemma db_ok_mono: "db_ok n db \<Longrightarrow> n \<le> m \<Longrightarrow> db_ok m db"
  by (auto simp: db_ok_def intro: db_cap_mono)

named_theorems db_ok_intro \<open>operations keep the invariant\<close>

lemma db_ok_same [db_ok_intro]:
  assumes "db_ok n db"
  shows "db_ok n (snd (db_set key val db))" "db_ok n (snd (db_get now key db))"
    "db_ok n (snd (db_del key db))" "db_ok n (snd (db_exists now key db))"
    "db_ok n (snd (db_type now key db))" "db_ok n (snd (db_expire now now' key x db))"
    "db_ok n (snd (db_pexpire now now' key x db))" "db_ok n (snd (db_ttl now now' key db))"
    "db_ok n (snd (db_pttl now now' key db))" "db_ok n (snd (db_persist now key db))"
    "db_ok n (db_increment_mod_count key db)" "db_ok n (snd (db_llen now key db))"
    "db_ok n (snd (db_lpop key db))" "db_ok n (snd (db_rpop key db))"
    "db_ok n (snd (db_srem key ms db))" "db_ok n (snd (db_hdel key flds db))" "db_ok n (snd (db_zrem key ms db))"
  using assms by (simp_all add: db_ok_def db_wf_ops db_wf_collections db_wf_zsets db_cap_ops db_cap_shrink db_cap_zrem)

lemma db_ok_grow [db_ok_intro]:
  assumes "db_ok n db"
  shows "db_ok (n + length vals) (snd (db_lpush key vals db))" "db_ok (n + length vals) (snd (db_rpush key vals db))"
    "db_ok (n + length vals) (snd (db_sadd key vals db))" "db_ok (Suc n) (snd (db_hset key fld x db))"
    "db_ok (n + length ps) (snd (db_zadd key ps db))"
  using assms by (simp_all add: db_ok_def db_wf_ops db_wf_collections db_wf_zsets db_cap_grow)

lemma db_ok_count_mod [db_ok_intro]: "db_ok n db \<Longrightarrow> db_ok n (count_mod b key db)"
  by (simp add: count_mod_def db_ok_intro)

lemma bulk_from_length: "bulk_from i args = Some ss \<Longrightarrow> length ss \<le> length args"
  by (auto simp: bulk_from_def split: if_splits)

section \<open>Interface: a data command\<close>

locale command =
  fixes h :: handler
  assumes ok: "db_ok n db \<Longrightarrow> db_ok (n + length args) (snd (h clk args db))"
    and frame: "k \<noteq> arg args 1 \<Longrightarrow> entry k (snd (h clk args db)) = entry k db"
    and keeps_pubsub: "pubsub (snd (h clk args db)) = pubsub db"
    and reply: "db_ok n db \<Longrightarrow> n + length args < 2 ^ 63 \<Longrightarrow> one_reply (fst (h clk args db))"
begin

lemma wf: "db_wf db \<Longrightarrow> db_wf (snd (h clk args db))"
proof -
  assume "db_wf db"
  moreover obtain n where "db_cap n db"
  proof
    let ?n = "Max (insert 0 ((\<lambda>(k, v). length (list_val v) + length (set_val v) + length (hash_val v) +
        length (zset_member_to_score v) + length (zset_score_to_member v)) ` set (data db)))"
    have "length (list_val v) + length (set_val v) + length (hash_val v) +
        length (zset_member_to_score v) + length (zset_score_to_member v) \<le> ?n" if "(k, v) \<in> set (data db)" for k v
      using that by (intro Max_ge) force+
    then show "db_cap ?n db" unfolding db_cap_def all_values_def list_all_iff value_cap_def by fastforce
  qed
  ultimately show ?thesis using ok [of n db args clk] by (simp add: db_ok_def)
qed

end

text \<open>A command that changes nothing only owes its reply.\<close>

lemma read_only_command:
  assumes "\<And>clk args db. snd (h clk args db) = db"
    and "\<And>n clk args db. db_ok n db \<Longrightarrow> n + length args < 2 ^ 63 \<Longrightarrow> one_reply (fst (h clk args db))"
  shows "command h"
  using assms by unfold_locales (auto intro: db_ok_mono)

lemma one_count: "m < 2 ^ 63 \<Longrightarrow> one_reply (int_reply (int m))"
  by (rule one_int) auto

lemma counts_le:
  assumes "db_ok n db"
  shows "db_scard key db \<le> n" "db_hlen key db \<le> n" "db_zcard key db \<le> n" "fst (db_llen now key db) \<le> n"
    "fst (db_srem key ms db) \<le> n" "fst (db_lpush key vals db) \<le> n + length vals"
    "fst (db_rpush key vals db) \<le> n + length vals" "fst (db_sadd key vals db) \<le> length vals"
proof -
  note cap = db_cap_entry [of n db key] db_cap_at_key [of n db key]
  show "db_scard key db \<le> n" "db_hlen key db \<le> n" "db_zcard key db \<le> n" "fst (db_llen now key db) \<le> n"
    "fst (db_srem key ms db) \<le> n" "fst (db_lpush key vals db) \<le> n + length vals"
    "fst (db_rpush key vals db) \<le> n + length vals"
    using assms cap
    by (auto simp: db_ok_def db_scard_def db_hlen_def db_zcard_def db_defs set_of_entry_def hash_of_entry_def
        scores_of_entry_def has_type_def value_cap_def Let_def split: option.splits)
  show "fst (db_sadd key vals db) \<le> length vals"
    using length_uset_insert_all [of vals "set_val (at_key (entry key db))"] by (simp add: db_sadd_def Let_def)
qed

lemma wrap64_range: "- 9223372036854775808 \<le> wrap64 x" "wrap64 x < 9223372036854775808"
  using wrap64_bounds [of x] by simp_all

lemma div_trunc_range:
  assumes "- 9223372036854775808 \<le> a" "a < 9223372036854775808"
  shows "- 9223372036854775808 \<le> div_trunc a 1000" "div_trunc a 1000 < 9223372036854775808"
  using assms by (auto simp: div_trunc_def sgn_if)

lemma ttl_range:
  "- (2 ^ 63) \<le> fst (db_ttl t u k db)" "fst (db_ttl t u k db) < 2 ^ 63"
  "- (2 ^ 63) \<le> fst (db_pttl t u k db)" "fst (db_pttl t u k db) < 2 ^ 63"
  by (auto simp: db_ttl_def db_pttl_def ttl_seconds_def ttl_milliseconds_def wrap64_range div_trunc_range
      split: option.split)

lemma zrank_loop_le: "zrank_loop s m r ps \<le> r + int (length ps)"
proof (induction ps arbitrary: r)
  case (Cons p ps)
  have "zrank_loop s m r ps \<le> r + int (length ps)" "zrank_loop s m (r + 1) ps \<le> r + 1 + int (length ps)"
    by (rule Cons.IH)+
  then show ?case unfolding zrank_loop.simps length_Cons of_nat_Suc by (simp split: if_split)
qed simp

lemma db_zrank_le:
  assumes "db_ok n db"
  shows "db_zrank key m db \<le> int n"
proof -
  have "length (ranking key db) \<le> n"
    using db_cap_entry [of n db key] assms
    by (auto simp: db_ok_def ranking_of_entry_def has_type_def value_cap_def split: option.splits)
  then have "zrank_loop s m 0 (ranking key db) \<le> int n" for s
    using zrank_loop_le [of s m 0 "ranking key db"] by linarith
  then show ?thesis by (simp add: db_zrank_def split: option.split)
qed

section \<open>Frames\<close>

named_theorems other_key \<open>operations on one key leave the others\<close>

lemma entry_other [other_key]:
  assumes "k \<noteq> key"
  shows "entry k (snd (db_set key val db)) = entry k db" "entry k (snd (db_get now key db)) = entry k db"
    "entry k (snd (db_del key db)) = entry k db" "entry k (snd (db_exists now key db)) = entry k db"
    "entry k (snd (db_type now key db)) = entry k db" "entry k (snd (db_expire now now' key x db)) = entry k db"
    "entry k (snd (db_pexpire now now' key x db)) = entry k db" "entry k (snd (db_ttl now now' key db)) = entry k db"
    "entry k (snd (db_pttl now now' key db)) = entry k db" "entry k (snd (db_persist now key db)) = entry k db"
    "entry k (db_increment_mod_count key db) = entry k db" "entry k (snd (db_llen now key db)) = entry k db"
    "entry k (snd (db_lpop key db)) = entry k db" "entry k (snd (db_rpop key db)) = entry k db"
    "entry k (snd (db_srem key ms db)) = entry k db" "entry k (snd (db_hdel key flds db)) = entry k db"
    "entry k (snd (db_zrem key ms db)) = entry k db" "entry k (snd (db_lpush key vals db)) = entry k db"
    "entry k (snd (db_rpush key vals db)) = entry k db" "entry k (snd (db_sadd key vals db)) = entry k db"
    "entry k (snd (db_hset key fld y db)) = entry k db" "entry k (snd (db_zadd key ps db)) = entry k db"
    "entry k (count_mod b key db) = entry k db"
  using assms by (simp_all add: db_defs db_zadd_def db_zrem_def count_mod_def)

lemma pubsub_ops [simp]:
  "pubsub (snd (db_set key val db)) = pubsub db" "pubsub (snd (db_get now key db)) = pubsub db"
  "pubsub (snd (db_del key db)) = pubsub db" "pubsub (snd (db_exists now key db)) = pubsub db"
  "pubsub (snd (db_type now key db)) = pubsub db" "pubsub (snd (db_expire now now' key x db)) = pubsub db"
  "pubsub (snd (db_pexpire now now' key x db)) = pubsub db" "pubsub (snd (db_ttl now now' key db)) = pubsub db"
  "pubsub (snd (db_pttl now now' key db)) = pubsub db" "pubsub (snd (db_persist now key db)) = pubsub db"
  "pubsub (snd (db_llen now key db)) = pubsub db" "pubsub (snd (db_lpop key db)) = pubsub db"
  "pubsub (snd (db_rpop key db)) = pubsub db" "pubsub (snd (db_srem key ms db)) = pubsub db"
  "pubsub (snd (db_hdel key flds db)) = pubsub db" "pubsub (snd (db_zrem key ms db)) = pubsub db"
  "pubsub (snd (db_lpush key vals db)) = pubsub db" "pubsub (snd (db_rpush key vals db)) = pubsub db"
  "pubsub (snd (db_sadd key vals db)) = pubsub db" "pubsub (snd (db_hset key fld y db)) = pubsub db"
  "pubsub (snd (db_zadd key ps db)) = pubsub db" "pubsub (count_mod b key db) = pubsub db"
  by (simp_all add: db_defs db_zadd_def db_zrem_def count_mod_def)

section \<open>Every handler is a command\<close>

text \<open>A command that does not enlarge any container.\<close>

lemma same_size_command:
  assumes "\<And>n clk args db. db_ok n db \<Longrightarrow> db_ok n (snd (h clk args db))"
    and "\<And>k clk args db. k \<noteq> arg args 1 \<Longrightarrow> entry k (snd (h clk args db)) = entry k db"
    and "\<And>clk args db. pubsub (snd (h clk args db)) = pubsub db"
    and "\<And>n clk args db. db_ok n db \<Longrightarrow> n + length args < 2 ^ 63 \<Longrightarrow> one_reply (fst (h clk args db))"
  shows "command h"
  using assms by unfold_locales (auto intro: db_ok_mono [OF _ le_add1])

lemmas cmd_simps = case_prod_beta Let_def other_key

lemmas cmd_intros = replies db_ok_same db_ok_count_mod one_count

interpretation set_cmd: command handle_set
  by (rule same_size_command) (auto simp: handle_set_def cmd_simps intro!: cmd_intros)

interpretation get_cmd: command handle_get
  by (rule same_size_command) (auto simp: handle_get_def cmd_simps intro!: cmd_intros)

interpretation del_cmd: command handle_del
  by (rule same_size_command) (auto simp: handle_del_def cmd_simps intro!: cmd_intros)

interpretation exists_cmd: command handle_exists
  by (rule same_size_command) (auto simp: handle_exists_def cmd_simps intro!: cmd_intros)

interpretation keys_cmd: command handle_keys
  by (rule read_only_command) (auto simp: handle_keys_def intro!: cmd_intros)

lemma line_ok_names [replies]: "line_ok (type_name t)" "line_ok ''none''"
  by (simp_all add: type_name_def line_ok_def split: RedisType.split)

interpretation type_cmd: command handle_type
  by (rule same_size_command) (auto simp: handle_type_def cmd_simps intro!: cmd_intros line_ok_names)

text \<open>Pushes and pops.\<close>

lemma push_command:
  assumes "\<And>key vals n db. db_ok n db \<Longrightarrow> db_ok (n + length vals) (snd (f key vals db)) \<and> fst (f key vals db) \<le> n + length vals"
    and "\<And>k key vals db. k \<noteq> key \<Longrightarrow> entry k (snd (f key vals db)) = entry k db"
    and "\<And>key vals db. pubsub (snd (f key vals db)) = pubsub db"
    and "\<And>clk args db. h clk args db =
      (if length args < 3 then (err ea, db) else if \<not> is_bulk (args ! 1) then (err eb, db)
       else case bulk_from 2 args of None \<Rightarrow> (err ec, db)
         | Some vals \<Rightarrow> (int_reply (int (fst (f (arg args 1) vals db))),
             db_increment_mod_count (arg args 1) (snd (f (arg args 1) vals db))))"
    and "set (ea @ eb @ ec) \<inter> {LF, CR} = {}"
  shows "command h"
proof
  fix n db args clk assume ok: "db_ok n db"
  have grow: "db_ok (n + length args) (snd (f key vals db))" "fst (f key vals db) \<le> n + length args"
    if "bulk_from 2 args = Some vals" for key vals
    using assms(1) [OF ok, of vals key] bulk_from_length [OF that]
    by (auto intro: db_ok_mono)
  show "db_ok (n + length args) (snd (h clk args db))"
    unfolding assms(4) using grow by (auto intro: db_ok_mono [OF ok] db_ok_same split: option.split)
  show "one_reply (fst (h clk args db))" if "n + length args < 2 ^ 63"
    unfolding assms(4) using that assms(5)
    by (auto intro!: cmd_intros intro: le_less_trans [OF grow(2)] split: option.split)
next
  fix k args clk db
  show "k \<noteq> arg args 1 \<Longrightarrow> entry k (snd (h clk args db)) = entry k db"
    unfolding assms(4) by (auto simp: other_key assms(2) split: option.split)
  show "pubsub (snd (h clk args db)) = pubsub db"
    unfolding assms(4) by (auto simp: assms(3) split: option.split)
qed

interpretation lpush_cmd: command handle_lpush
  by (rule push_command [where f = db_lpush and ea = "''LPUSH requires at least 2 arguments''"
        and eb = "''LPUSH key must be a bulk string''" and ec = "''LPUSH values must be bulk strings''"])
    (simp_all add: handle_lpush_def cmd_simps db_ok_grow counts_le split: option.split)

interpretation rpush_cmd: command handle_rpush
  by (rule push_command [where f = db_rpush and ea = "''RPUSH requires at least 2 arguments''"
        and eb = "''RPUSH key must be a bulk string''" and ec = "''RPUSH values must be bulk strings''"])
    (simp_all add: handle_rpush_def cmd_simps db_ok_grow counts_le split: option.split)

interpretation lpop_cmd: command handle_lpop
  by (rule same_size_command) (auto simp: handle_lpop_def pop_reply_def cmd_simps intro!: cmd_intros)

interpretation rpop_cmd: command handle_rpop
  by (rule same_size_command) (auto simp: handle_rpop_def pop_reply_def cmd_simps intro!: cmd_intros)

interpretation llen_cmd: command handle_llen
  by (rule same_size_command)
    (auto simp: handle_llen_def cmd_simps intro!: cmd_intros intro: le_less_trans [OF counts_le(4)])

interpretation lrange_cmd: command handle_lrange
  by (rule read_only_command) (auto simp: handle_lrange_def intro!: cmd_intros split: option.split)

interpretation lindex_cmd: command handle_lindex
  by (rule same_size_command) (auto simp: handle_lindex_def cmd_simps intro!: cmd_intros split: sum.split)

text \<open>Sets.\<close>

lemma sadd_args:
  assumes "db_ok n db" "bulk_from 2 args = Some ms"
  shows "db_ok (n + length args) (snd (db_sadd key ms db))" "fst (db_sadd key ms db) \<le> n + length args"
  using counts_le(8) [OF assms(1), of key ms] bulk_from_length [OF assms(2)]
  by (auto intro: db_ok_mono [OF db_ok_grow(3) [OF assms(1)]])

interpretation sadd_cmd: command handle_sadd
proof
  show "db_ok (n + length args) (snd (handle_sadd clk args db))" if "db_ok n db" for n db args clk
    using that db_ok_mono [OF that le_add1]
    by (auto simp: handle_sadd_def cmd_simps intro!: db_ok_count_mod sadd_args split: option.split)
  show "one_reply (fst (handle_sadd clk args db))" if "db_ok n db" "n + length args < 2 ^ 63" for n db args clk
    using that by (auto simp: handle_sadd_def cmd_simps intro!: cmd_intros intro: le_less_trans [OF sadd_args(2)]
        split: option.split)
qed (auto simp: handle_sadd_def cmd_simps split: option.split)

interpretation srem_cmd: command handle_srem
  by (rule same_size_command)
    (auto simp: handle_srem_def cmd_simps intro!: cmd_intros intro: le_less_trans [OF counts_le(5)] split: option.split)

interpretation sismember_cmd: command handle_sismember
  by (rule read_only_command) (auto simp: handle_sismember_def intro!: cmd_intros)

interpretation scard_cmd: command handle_scard
  by (rule read_only_command)
    (auto simp: handle_scard_def intro!: cmd_intros intro: le_less_trans [OF counts_le(1)])

interpretation smembers_cmd: command handle_smembers
  by (rule read_only_command) (auto simp: handle_smembers_def intro!: cmd_intros)

interpretation sinter_cmd: command handle_sinter
  by (rule read_only_command) (auto simp: handle_sinter_def intro!: cmd_intros split: option.split)

interpretation sunion_cmd: command handle_sunion
  by (rule read_only_command) (auto simp: handle_sunion_def intro!: cmd_intros split: option.split)

interpretation sdiff_cmd: command handle_sdiff
  by (rule read_only_command) (auto simp: handle_sdiff_def intro!: cmd_intros split: option.split)

text \<open>Hashes.\<close>

lemma db_hset_True [simp]: "fst (db_hset key f x db)"
  by (simp add: db_hset_def Let_def)

lemma hset_loop_step:
  "hset_loop key (f # x # rest) m db =
     (if \<not> is_bulk f \<or> \<not> is_bulk x then (None, db)
      else hset_loop key rest (m + 1) (snd (db_hset key (resp_str f) (resp_str x) db)))"
  by (simp add: case_prod_beta)

lemma hset_loop_ok: "db_ok n db \<Longrightarrow> db_ok (n + length rest) (snd (hset_loop key rest m db))"
proof (induction rest arbitrary: m n db rule: induct_list012)
  case (3 f x rest)
  have "db_ok (Suc n + length rest)
      (snd (hset_loop key rest (m + 1) (snd (db_hset key (resp_str f) (resp_str x) db))))"
    by (rule "3.IH"(1)) (rule db_ok_grow(4) [OF "3.prems"])
  then show ?case using db_ok_mono [OF "3.prems"] by (auto simp: hset_loop_step intro: db_ok_mono simp del: hset_loop.simps)
qed (auto intro: db_ok_mono)

lemma hset_loop_frame:
  "k \<noteq> key \<Longrightarrow> entry k (snd (hset_loop key rest m db)) = entry k db"
  "pubsub (snd (hset_loop key rest m db)) = pubsub db"
  by (induction rest arbitrary: m db rule: induct_list012)
    (auto simp: hset_loop_step other_key simp del: hset_loop.simps(1))

lemma hset_loop_count: "fst (hset_loop key rest m db) = Some m' \<Longrightarrow> m' \<le> m + length rest"
  by (induction rest arbitrary: m db rule: induct_list012)
    (fastforce simp: hset_loop_step simp del: hset_loop.simps(1) split: if_splits)+

lemma hset_loop_drop:
  assumes "hset_loop key (drop 2 args) 0 db = (r, db')" "db_ok n db"
  shows "db_ok (n + length args) db'" "r = Some m \<Longrightarrow> m \<le> n + length args"
  using hset_loop_ok [OF assms(2), where key = key and rest = "drop 2 args" and m = 0]
    hset_loop_count [where key = key and rest = "drop 2 args" and m = 0 and db = db]
  by (auto simp: assms(1) intro: db_ok_mono)

interpretation hset_cmd: command handle_hset
proof
  show "db_ok (n + length args) (snd (handle_hset clk args db))" if "db_ok n db" for n db args clk
    using that db_ok_mono [OF that le_add1]
    by (auto simp: handle_hset_def Let_def split: option.split prod.split
        intro!: db_ok_count_mod intro: hset_loop_drop)
  show "one_reply (fst (handle_hset clk args db))" if "db_ok n db" "n + length args < 2 ^ 63" for n db args clk
    using that by (auto simp: handle_hset_def Let_def split: option.split prod.split intro!: cmd_intros
        intro: le_less_trans [OF hset_loop_drop(2)])
  fix k args clk db
  obtain r db' where r: "hset_loop (arg args 1) (drop 2 args) 0 db = (r, db')" by fastforce
  have "pubsub db' = pubsub db" "k \<noteq> arg args 1 \<Longrightarrow> entry k db' = entry k db"
    using hset_loop_frame [where key = "arg args 1" and rest = "drop 2 args" and m = 0 and db = db]
    unfolding r snd_conv by auto
  then show "pubsub (snd (handle_hset clk args db)) = pubsub db"
    "k \<noteq> arg args 1 \<Longrightarrow> entry k (snd (handle_hset clk args db)) = entry k db"
    unfolding handle_hset_def Let_def r by (auto simp: other_key split: option.split)
qed

interpretation hget_cmd: command handle_hget
  by (rule same_size_command) (auto simp: handle_hget_def cmd_simps intro!: cmd_intros)

interpretation hdel_cmd: command handle_hdel
  by (rule same_size_command) (auto simp: handle_hdel_def cmd_simps intro!: cmd_intros split: option.split)

interpretation hlen_cmd: command handle_hlen
  by (rule read_only_command)
    (auto simp: handle_hlen_def intro!: cmd_intros intro: le_less_trans [OF counts_le(2)])

interpretation hkeys_cmd: command handle_hkeys
  by (rule read_only_command) (auto simp: handle_hkeys_def intro!: cmd_intros)

interpretation hvals_cmd: command handle_hvals
  by (rule read_only_command) (auto simp: handle_hvals_def intro!: cmd_intros)

lemma hgetall_array:
  "''*'' @ size_string (length h * 2) @ CRLF @ concat (map (\<lambda>(f, x). bulk_reply f @ bulk_reply x) h) =
     array_reply (concat (map (\<lambda>(f, x). [f, x]) h))"
proof -
  have "length (concat (map (\<lambda>(f, x). [f, x]) h)) = length h * 2" by (induction h) auto
  moreover have "concat (map bulk_reply (concat (map (\<lambda>(f, x). [f, x]) h))) =
      concat (map (\<lambda>(f, x). bulk_reply f @ bulk_reply x) h)" by (induction h) auto
  ultimately show ?thesis by (simp add: array_reply_def)
qed

lemma handle_hgetall_array:
  "length args = 2 \<Longrightarrow> is_bulk (args ! 1) \<Longrightarrow>
     handle_hgetall clk args db = (array_reply (concat (map (\<lambda>(f, x). [f, x]) (db_hgetall (arg args 1) db))), db)"
  unfolding handle_hgetall_def Let_def hgetall_array by simp

interpretation hgetall_cmd: command handle_hgetall
proof (rule read_only_command)
  show "snd (handle_hgetall clk args db) = db" for clk args db by (simp add: handle_hgetall_def Let_def)
  show "one_reply (fst (handle_hgetall clk args db))" for clk args db
    by (cases "length args = 2 \<and> is_bulk (args ! 1)")
      (auto simp: handle_hgetall_array, auto simp: handle_hgetall_def intro!: cmd_intros)
qed

text \<open>Sorted sets.\<close>

lemma zadd_pairs_length: "zadd_pairs rest = Inr ps \<Longrightarrow> length ps \<le> length rest"
  by (induction rest arbitrary: ps rule: zadd_pairs.induct) (fastforce split: if_splits sum.splits)+

lemma zadd_pairs_error:
  "zadd_pairs rest = Inl e \<Longrightarrow>
     e = ''ZADD score and member must be bulk strings'' \<or> e = ''ZADD score must be a valid number''"
  by (induction rest arbitrary: e rule: zadd_pairs.induct) (auto split: if_splits sum.splits)

lemma zadd_args: "db_ok n db \<Longrightarrow> zadd_pairs (drop 2 args) = Inr ps \<Longrightarrow> db_ok (n + length args) (snd (db_zadd key ps db))"
  using zadd_pairs_length [of "drop 2 args" ps] by (auto intro: db_ok_mono [OF db_ok_grow(5)])

interpretation zadd_cmd: command handle_zadd
proof
  show "db_ok (n + length args) (snd (handle_zadd clk args db))" if "db_ok n db" for n db args clk
    using that db_ok_mono [OF that le_add1]
    by (auto simp: handle_zadd_def cmd_simps intro!: db_ok_count_mod zadd_args split: sum.split)
qed (auto simp: handle_zadd_def cmd_simps intro!: cmd_intros dest: zadd_pairs_error split: sum.split)

interpretation zrem_cmd: command handle_zrem
  by (rule same_size_command) (auto simp: handle_zrem_def cmd_simps intro!: cmd_intros split: option.split)

interpretation zcard_cmd: command handle_zcard
  by (rule read_only_command)
    (auto simp: handle_zcard_def intro!: cmd_intros intro: le_less_trans [OF counts_le(3)])

interpretation zrange_cmd: command handle_zrange
  by (rule read_only_command) (auto simp: handle_zrange_def intro!: cmd_intros split: option.split)

interpretation zrevrange_cmd: command handle_zrevrange
  by (rule read_only_command) (auto simp: handle_zrevrange_def intro!: cmd_intros split: option.split)

interpretation zscore_cmd: command handle_zscore
  by (rule same_size_command) (auto simp: handle_zscore_def cmd_simps intro!: cmd_intros)

interpretation zrank_cmd: command handle_zrank
proof (rule read_only_command)
  show "one_reply (fst (handle_zrank clk args db))" if "db_ok n db" "n + length args < 2 ^ 63" for n clk args db
    using that db_zrank_le [OF that(1), where key = "arg args 1" and m = "arg args 2"]
    by (auto simp: handle_zrank_def Let_def intro!: cmd_intros)
qed (simp add: handle_zrank_def Let_def)

text \<open>Expiry.\<close>

interpretation expire_cmd: command handle_expire
  by (rule same_size_command) (auto simp: handle_expire_def cmd_simps intro!: cmd_intros split: sum.split)

interpretation pexpire_cmd: command handle_pexpire
  by (rule same_size_command) (auto simp: handle_pexpire_def cmd_simps intro!: cmd_intros split: sum.split)

interpretation ttl_cmd: command handle_ttl
  using ttl_range by (intro same_size_command) (auto simp: handle_ttl_def cmd_simps intro!: cmd_intros)

interpretation pttl_cmd: command handle_pttl
  using ttl_range by (intro same_size_command) (auto simp: handle_pttl_def cmd_simps intro!: cmd_intros)

interpretation persist_cmd: command handle_persist
  by (rule same_size_command) (auto simp: handle_persist_def cmd_simps intro!: cmd_intros)

section \<open>The command table\<close>

text \<open>
  The names of the data commands with their handlers, in the order of the dispatch: those that
  also run inside a transaction, and the expiry commands, which only run outside.
\<close>

definition queued_commands :: "(string \<times> handler) list" where
  "queued_commands =
     [(''SET'', handle_set), (''GET'', handle_get), (''DEL'', handle_del), (''EXISTS'', handle_exists),
      (''KEYS'', handle_keys), (''TYPE'', handle_type),
      (''LPUSH'', handle_lpush), (''RPUSH'', handle_rpush), (''LPOP'', handle_lpop), (''RPOP'', handle_rpop),
      (''LLEN'', handle_llen), (''LRANGE'', handle_lrange), (''LINDEX'', handle_lindex),
      (''SADD'', handle_sadd), (''SREM'', handle_srem), (''SISMEMBER'', handle_sismember),
      (''SCARD'', handle_scard), (''SMEMBERS'', handle_smembers), (''SINTER'', handle_sinter),
      (''SUNION'', handle_sunion), (''SDIFF'', handle_sdiff),
      (''HSET'', handle_hset), (''HGET'', handle_hget), (''HDEL'', handle_hdel), (''HLEN'', handle_hlen),
      (''HKEYS'', handle_hkeys), (''HVALS'', handle_hvals), (''HGETALL'', handle_hgetall),
      (''ZADD'', handle_zadd), (''ZREM'', handle_zrem), (''ZCARD'', handle_zcard), (''ZRANGE'', handle_zrange),
      (''ZREVRANGE'', handle_zrevrange), (''ZSCORE'', handle_zscore), (''ZRANK'', handle_zrank)]"

definition expiry_commands :: "(string \<times> handler) list" where
  "expiry_commands =
     [(''EXPIRE'', handle_expire), (''PEXPIRE'', handle_pexpire), (''TTL'', handle_ttl),
      (''PTTL'', handle_pttl), (''PERSIST'', handle_persist)]"

lemmas commands = set_cmd.command_axioms get_cmd.command_axioms del_cmd.command_axioms
  exists_cmd.command_axioms keys_cmd.command_axioms type_cmd.command_axioms lpush_cmd.command_axioms
  rpush_cmd.command_axioms lpop_cmd.command_axioms rpop_cmd.command_axioms llen_cmd.command_axioms
  lrange_cmd.command_axioms lindex_cmd.command_axioms sadd_cmd.command_axioms srem_cmd.command_axioms
  sismember_cmd.command_axioms scard_cmd.command_axioms smembers_cmd.command_axioms
  sinter_cmd.command_axioms sunion_cmd.command_axioms sdiff_cmd.command_axioms hset_cmd.command_axioms
  hget_cmd.command_axioms hdel_cmd.command_axioms hlen_cmd.command_axioms hkeys_cmd.command_axioms
  hvals_cmd.command_axioms hgetall_cmd.command_axioms zadd_cmd.command_axioms zrem_cmd.command_axioms
  zcard_cmd.command_axioms zrange_cmd.command_axioms zrevrange_cmd.command_axioms
  zscore_cmd.command_axioms zrank_cmd.command_axioms expire_cmd.command_axioms
  pexpire_cmd.command_axioms ttl_cmd.command_axioms pttl_cmd.command_axioms persist_cmd.command_axioms

lemma table_commands: "(name, h) \<in> set (queued_commands @ expiry_commands) \<Longrightarrow> command h"
  by (auto simp: queued_commands_def expiry_commands_def commands)

section \<open>Properties\<close>

text \<open>C8. Every data command keeps the keyspace well formed, changes at most the entry of the key
  that is its first argument, and leaves the subscriptions as they are, for all arguments and
  clock readings.\<close>

theorem commands_keep_keyspace:
  assumes "(name, h) \<in> set (queued_commands @ expiry_commands)" "db_wf db"
  shows "db_wf (snd (h clk args db)) \<and> pubsub (snd (h clk args db)) = pubsub db \<and>
    (\<forall>k. k \<noteq> arg args 1 \<longrightarrow> entry k (snd (h clk args db)) = entry k db)"
  using table_commands [OF assms(1)] assms(2)
  by (auto simp: command.frame command.keeps_pubsub command.wf)

theorem commands_keep_keyspace_witness:
  "db_wf (snd (handle_hset (\<lambda>_. 0) [bulk ''HSET'', bulk ''h'', bulk ''f'', bulk ''y''] sample_db))"
  using commands_keep_keyspace [of "''HSET''" handle_hset sample_db "\<lambda>_. 0"
      "[bulk ''HSET'', bulk ''h'', bulk ''f'', bulk ''y'']"] sample_db_ok(1)
  by (simp add: queued_commands_def)

text \<open>C9. Every data command replies with exactly one protocol value, whatever its arguments are:
  the reply parses, in front of any further bytes, as one value that ends where the reply ends
  (for containers whose sizes fit a signed 64-bit integer).\<close>

theorem commands_reply_once:
  assumes "(name, h) \<in> set (queued_commands @ expiry_commands)" "db_ok n db" "n + length args < 2 ^ 63"
  shows "\<exists>v. \<forall>pre post. small (pre @ fst (h clk args db) @ post) \<longrightarrow>
    parse (pre @ fst (h clk args db) @ post) (length pre) = Inr (v, length (pre @ fst (h clk args db)))"
  using command.reply [OF table_commands [OF assms(1)] assms(2,3)] by (auto simp: one_reply_def)

theorem commands_reply_once_witness:
  "\<exists>v. \<forall>pre post. small (pre @ fst (handle_lrange (\<lambda>_. 0) [bulk ''LRANGE'', bulk ''l'', bulk ''0'', bulk ''x''] sample_db) @ post) \<longrightarrow>
    parse (pre @ fst (handle_lrange (\<lambda>_. 0) [bulk ''LRANGE'', bulk ''l'', bulk ''0'', bulk ''x''] sample_db) @ post) (length pre) =
      Inr (v, length (pre @ fst (handle_lrange (\<lambda>_. 0) [bulk ''LRANGE'', bulk ''l'', bulk ''0'', bulk ''x''] sample_db)))"
proof (rule commands_reply_once [where h = handle_lrange and name = "''LRANGE''"])
  show "db_ok 2 sample_db"
    using sample_db_ok(1) by (simp add: db_ok_def db_cap_def all_values_def sample_db_data value_cap_def)
qed (simp_all add: queued_commands_def)

end
