(* ===== verification/Cluster.thy ===== *)
theory Cluster
  imports Cpp_Std
begin

text \<open>
  Cluster configuration (\<open>cluster.h\<close>, \<open>cluster.cpp\<close>): nodes with their slots, the node that is
  responsible for a key, and the fixed two-node set-up.  The value of \<open>std::hash\<close> is
  implementation-defined and is a parameter, a function from keys to \<open>size_t\<close>.
\<close>

record cluster_node =
  node_id :: string
  ip_address :: string
  port :: int
  is_master :: bool
  last_seen :: "64 word"
  assigned_slots :: "int list"

definition make_node :: "string \<Rightarrow> string \<Rightarrow> int \<Rightarrow> bool \<Rightarrow> cluster_node" where
  "make_node i ip p master =
     \<lparr>node_id = i, ip_address = ip, port = p, is_master = master, last_seen = 0, assigned_slots = []\<rparr>"

record cluster_config =
  enabled :: bool
  my_node_id :: string
  my_ip :: string
  my_port :: int
  nodes :: "cluster_node list"
  total_slots :: int

definition default_config :: cluster_config where
  "default_config =
     \<lparr>enabled = False, my_node_id = [], my_ip = ''127.0.0.1'', my_port = 6379, nodes = [], total_slots = 4\<rparr>"

text \<open>\<open>hash % total_slots\<close> in \<open>size_t\<close>.\<close>

definition key_slot :: "(string \<Rightarrow> 64 word) \<Rightarrow> cluster_config \<Rightarrow> string \<Rightarrow> nat" where
  "key_slot hash cfg key = unat (hash key) mod size_wrap (total_slots cfg)"

definition get_node_for_key :: "(string \<Rightarrow> 64 word) \<Rightarrow> string \<Rightarrow> cluster_config \<Rightarrow> cluster_node option" where
  "get_node_for_key hash key cfg =
     (if \<not> enabled cfg \<or> nodes cfg = [] then None
      else let slot = wrap32 (int (key_slot hash cfg key))
           in case find (\<lambda>n. slot \<in> set (assigned_slots n)) (nodes cfg) of
                Some n \<Rightarrow> Some n
              | None \<Rightarrow> Some (hd (nodes cfg)))"

definition get_node_by_id :: "string \<Rightarrow> cluster_config \<Rightarrow> cluster_node option" where
  "get_node_by_id i cfg = find (\<lambda>n. node_id n = i) (nodes cfg)"

definition initialize_cluster_mvc :: "cluster_config \<Rightarrow> cluster_config" where
  "initialize_cluster_mvc cfg =
     (let node1 = (make_node ''node1'' ''127.0.0.1'' 6379 True)\<lparr>assigned_slots := [0, 1]\<rparr>;
          node2 = (make_node ''node2'' ''127.0.0.1'' 6380 False)\<lparr>assigned_slots := [2, 3]\<rparr>
      in cfg\<lparr>enabled := True, my_node_id := ''node1'', my_ip := ''127.0.0.1'', my_port := 6379,
             total_slots := 4, nodes := nodes cfg @ [node1, node2]\<rparr>)"

text \<open>The configuration of the running server: \<open>main\<close> initialises it once.\<close>

definition server_config :: cluster_config where
  "server_config = initialize_cluster_mvc default_config"

section \<open>Routing\<close>

lemma server_config_simps [simp]:
  "enabled server_config" "my_node_id server_config = ''node1''" "total_slots server_config = 4"
  "nodes server_config =
     [(make_node ''node1'' ''127.0.0.1'' 6379 True)\<lparr>assigned_slots := [0, 1]\<rparr>,
      (make_node ''node2'' ''127.0.0.1'' 6380 False)\<lparr>assigned_slots := [2, 3]\<rparr>]"
  by (simp_all add: server_config_def initialize_cluster_mvc_def default_config_def Let_def)

lemma key_slot_server: "key_slot hash server_config key = unat (hash key) mod 4"
  by (simp add: key_slot_def size_wrap_def)

lemma get_node_for_key_server:
  "get_node_for_key hash key server_config =
     Some (if key_slot hash server_config key < 2 then nodes server_config ! 0 else nodes server_config ! 1)"
proof -
  have "unat (hash key) mod 4 < 4" by simp
  then consider "unat (hash key) mod 4 = 0" | "unat (hash key) mod 4 = 1"
    | "unat (hash key) mod 4 = 2" | "unat (hash key) mod 4 = 3" by linarith
  then show ?thesis
    by cases (simp_all add: get_node_for_key_def key_slot_server make_node_def Let_def)
qed

section \<open>Properties\<close>

text \<open>C28. Routing is total and a partition: with the server's configuration, whatever the hash
  function, every key belongs to the node that lists the key's slot, and to no other node.\<close>

theorem routing_partition:
  "\<exists>n. get_node_for_key hash key server_config = Some n \<and> n \<in> set (nodes server_config) \<and>
     (\<forall>n'\<in>set (nodes server_config).
        int (key_slot hash server_config key) \<in> set (assigned_slots n') \<longleftrightarrow> n' = n)"
proof -
  have "unat (hash key) mod 4 < 4" by simp
  then consider "unat (hash key) mod 4 = 0" | "unat (hash key) mod 4 = 1"
    | "unat (hash key) mod 4 = 2" | "unat (hash key) mod 4 = 3" by linarith
  then show ?thesis
    by cases (simp_all add: get_node_for_key_server key_slot_server make_node_def)
qed

theorem routing_partition_witness:
  "\<exists>n. get_node_for_key (\<lambda>k. of_nat (length k)) ''abc'' server_config = Some n \<and> n \<in> set (nodes server_config) \<and>
     (\<forall>n'\<in>set (nodes server_config).
        int (key_slot (\<lambda>k. of_nat (length k)) server_config ''abc'') \<in> set (assigned_slots n') \<longleftrightarrow> n' = n)"
  by (rule routing_partition)

end
