(* ===== verification/Lua_Scripting.thy ===== *)
theory Lua_Scripting
  imports Database_Laws Resp
begin

text \<open>
  The scripting engine (\<open>lua_scripting.h\<close>, \<open>lua_scripting.cpp\<close>): the script cache, the check of
  scripts, the script identifiers, the table \<open>redis\<close> of functions a script can call and the reply
  for its result.  The Lua interpreter is not part of the sources.  It is the parameter \<open>lua\<close>:
  from the interpreter's state, a script and the two argument tables it gives either a load
  error or a run, the finite tree of the calls \<open>redis.name(...)\<close> the script makes, each with the
  continuation for the value or the error it receives.  A script that does not terminate has no
  such run; it blocks the thread of its client and gets no reply.  What a script does through other
  libraries of Lua (\<open>luaL_openlibs\<close> leaves \<open>os\<close> and \<open>io\<close> in place) is not part of a run.
\<close>

section \<open>Runs of scripts\<close>

text \<open>
  A result on the Lua stack: \<open>Lua_string\<close> is everything \<open>lua_isstring\<close> accepts (strings and
  numbers), with the text \<open>lua_tostring\<close> gives.
\<close>

datatype lua_value = Lua_string string | Lua_boolean bool | Lua_nil | Lua_other

datatype api_function = Redis_call | Redis_pcall | Redis_error_reply | Redis_status_reply | Redis_log

text \<open>\<open>setup_redis_api\<close>: the fields of the global table \<open>redis\<close>.\<close>

definition setup_redis_api :: "(string, api_function) umap" where
  "setup_redis_api =
     [(''call'', Redis_call), (''pcall'', Redis_pcall), (''error_reply'', Redis_error_reply),
      (''status_reply'', Redis_status_reply), (''log'', Redis_log)]"

text \<open>An error of a script is any value.\<close>

datatype 'l lua_run =
    Returned lua_value 'l
  | Failed lua_value 'l
  | Call api_function "lua_value list" "string + lua_value \<Rightarrow> 'l lua_run"

type_synonym 'l interpreter = "'l \<Rightarrow> string \<Rightarrow> string list \<Rightarrow> string list \<Rightarrow> string + 'l lua_run"

record 'l lua_engine =
  script_cache :: "(string, string) umap"
  lua_state :: 'l

definition c_str :: "string \<Rightarrow> string" where
  "c_str s = takeWhile (\<lambda>c. ord c \<noteq> 0) s"

definition tostring :: "lua_value \<Rightarrow> string option" where
  "tostring v = (case v of Lua_string s \<Rightarrow> Some (c_str s) | _ \<Rightarrow> None)"

text \<open>
  \<open>redis_pcall\<close>: \<open>Inl\<close> is \<open>lua_error\<close>.  A key or value that is not a string would be a null
  pointer given to \<open>std::string\<close>; the result \<open>None\<close> stands for that crash.
\<close>

definition redis_pcall :: "int \<Rightarrow> lua_value list \<Rightarrow> database \<Rightarrow> (string + lua_value) option \<times> database" where
  "redis_pcall now cargs db =
     (case cargs of
        [] \<Rightarrow> (Some (Inl ''redis.call requires at least 1 argument''), db)
      | c # rest \<Rightarrow>
          (case tostring c of
             None \<Rightarrow> (Some (Inl ''First argument to redis.call must be a string''), db)
           | Some cmd \<Rightarrow>
               if cmd = ''GET'' \<and> 2 \<le> length cargs then
                 (case tostring (cargs ! 1) of
                    None \<Rightarrow> (None, db)
                  | Some key \<Rightarrow>
                      (let (val, db') = db_get now key db
                       in (Some (Inr (if val = [] then Lua_nil else Lua_string (c_str val))), db')))
               else if cmd = ''SET'' \<and> 3 \<le> length cargs then
                 (case (tostring (cargs ! 1), tostring (cargs ! 2)) of
                    (Some key, Some val) \<Rightarrow> (Some (Inr (Lua_string ''OK'')), snd (db_set key val db))
                  | _ \<Rightarrow> (None, db))
               else (Some (Inl ''Command not implemented in Lua scripting''), db)))"

text \<open>\<open>redis_call\<close> only calls \<open>redis_pcall\<close>; the two reply functions return their first argument.\<close>

definition redis_call :: "int \<Rightarrow> lua_value list \<Rightarrow> database \<Rightarrow> (string + lua_value) option \<times> database" where
  "redis_call now cargs db = redis_pcall now cargs db"

definition redis_error_reply :: "lua_value list \<Rightarrow> lua_value" where
  "redis_error_reply cargs = (case cargs of [] \<Rightarrow> Lua_nil | v # _ \<Rightarrow> v)"

definition redis_status_reply :: "lua_value list \<Rightarrow> lua_value" where
  "redis_status_reply cargs = (case cargs of [] \<Rightarrow> Lua_nil | v # _ \<Rightarrow> v)"

text \<open>A call of a function of the table; \<open>redis_log\<close> only prints and returns no value.\<close>

definition api_call ::
  "api_function \<Rightarrow> int \<Rightarrow> lua_value list \<Rightarrow> database \<Rightarrow> (string + lua_value) option \<times> database" where
  "api_call f now cargs db =
     (case f of
        Redis_call \<Rightarrow> redis_call now cargs db
      | Redis_pcall \<Rightarrow> redis_pcall now cargs db
      | Redis_error_reply \<Rightarrow> (Some (Inr (redis_error_reply cargs)), db)
      | Redis_status_reply \<Rightarrow> (Some (Inr (redis_status_reply cargs)), db)
      | Redis_log \<Rightarrow> (Some (Inr Lua_nil), db))"

text \<open>\<open>lua_pcall\<close> on a run: the \<open>i\<close>-th call reads the clock value \<open>clk i\<close>.\<close>

primrec run_calls :: "'l lua_run \<Rightarrow> (nat \<Rightarrow> int) \<Rightarrow> nat \<Rightarrow> database \<Rightarrow> ((lua_value + lua_value) \<times> 'l) option \<times> database" where
  "run_calls (Returned v l) clk i db = (Some (Inr v, l), db)"
| "run_calls (Failed e l) clk i db = (Some (Inl e, l), db)"
| "run_calls (Call f cargs k) clk i db =
     (case api_call f (clk i) cargs db of
        (None, db') \<Rightarrow> (None, db')
      | (Some r, db') \<Rightarrow> run_calls (k r) clk (Suc i) db')"

section \<open>The engine\<close>

definition hash31 :: "string \<Rightarrow> 64 word" where
  "hash31 script = foldl (\<lambda>h c. h * 31 + word_of_int (if ord c < 128 then int (ord c) else int (ord c) - 256)) 0 script"

definition hex_digit :: "nat \<Rightarrow> char" where
  "hex_digit d = (if d < 10 then char_of (48 + d) else char_of (87 + d))"

fun hex_string :: "nat \<Rightarrow> string" where
  "hex_string n = (if n < 16 then [hex_digit n] else hex_string (n div 16) @ [hex_digit (n mod 16)])"

declare hex_string.simps [simp del]

definition calculate_sha1 :: "string \<Rightarrow> string" where
  "calculate_sha1 script = hex_string (unat (hash31 script))"

definition validate_script :: "string \<Rightarrow> bool" where
  "validate_script script \<longleftrightarrow>
     \<not> (contains ''os.'' script \<or> contains ''io.'' script \<or> contains ''package.'' script)"

definition result_text :: "lua_value \<Rightarrow> string" where
  "result_text v =
     (case v of
        Lua_string s \<Rightarrow> c_str s
      | Lua_boolean b \<Rightarrow> if b then ''true'' else ''false''
      | Lua_nil \<Rightarrow> ''(nil)''
      | Lua_other \<Rightarrow> ''(unknown type)'')"

text \<open>
  \<open>eval\<close>; the reply \<open>None\<close> stands for a crash: inside a call, or because the error value has no
  text and a null pointer is added to a string.
\<close>

definition eval ::
  "'l interpreter \<Rightarrow> (nat \<Rightarrow> int) \<Rightarrow> string \<Rightarrow> string list \<Rightarrow> string list \<Rightarrow> 'l lua_engine \<Rightarrow> database \<Rightarrow>
     string option \<times> 'l lua_engine \<times> database" where
  "eval lua clk script keys sargs eng db =
     (if \<not> validate_script script then (Some (minus_reply ''ERR Script contains dangerous functions''), eng, db)
      else case lua (lua_state eng) (c_str script) (map c_str keys) (map c_str sargs) of
        Inl e \<Rightarrow> (Some (minus_reply (''ERR '' @ c_str e)), eng, db)
      | Inr run \<Rightarrow>
          (case run_calls run clk 0 db of
             (None, db') \<Rightarrow> (None, eng, db')
           | (Some (Inl e, l), db') \<Rightarrow>
               (map_option (\<lambda>s. minus_reply (''ERR '' @ s)) (tostring e), eng\<lparr>lua_state := l\<rparr>, db')
           | (Some (Inr v, l), db') \<Rightarrow> (Some (simple_reply (result_text v)), eng\<lparr>lua_state := l\<rparr>, db')))"

definition evalsha ::
  "'l interpreter \<Rightarrow> (nat \<Rightarrow> int) \<Rightarrow> string \<Rightarrow> string list \<Rightarrow> string list \<Rightarrow> 'l lua_engine \<Rightarrow> database \<Rightarrow>
     string option \<times> 'l lua_engine \<times> database" where
  "evalsha lua clk sha1 keys sargs eng db =
     (case map_of (script_cache eng) sha1 of
        None \<Rightarrow> (Some (minus_reply ''NOSCRIPT No matching script. Please use EVAL.''), eng, db)
      | Some script \<Rightarrow> eval lua clk script keys sargs eng db)"

definition script_exists :: "string \<Rightarrow> 'l lua_engine \<Rightarrow> bool" where
  "script_exists sha1 eng \<longleftrightarrow> map_of (script_cache eng) sha1 \<noteq> None"

definition script_load :: "string \<Rightarrow> 'l lua_engine \<Rightarrow> string \<times> 'l lua_engine" where
  "script_load script eng =
     (if \<not> validate_script script then (minus_reply ''ERR Script contains dangerous functions'', eng)
      else let sha1 = calculate_sha1 script
           in (simple_reply sha1, eng\<lparr>script_cache := AList.update sha1 script (script_cache eng)\<rparr>))"

definition script_flush :: "'l lua_engine \<Rightarrow> 'l lua_engine" where
  "script_flush eng = eng\<lparr>script_cache := []\<rparr>"

section \<open>What a script can do to the database\<close>

lemma redis_pcall_db_wf: "db_wf db \<Longrightarrow> db_wf (snd (redis_pcall now cargs db))"
  by (auto simp: redis_pcall_def Let_def case_prod_beta db_wf_ops split: list.split option.split)

lemma api_call_db_wf: "db_wf db \<Longrightarrow> db_wf (snd (api_call f now cargs db))"
  by (simp add: api_call_def redis_call_def redis_pcall_db_wf split: api_function.split)

lemma run_calls_db_wf: "db_wf db \<Longrightarrow> db_wf (snd (run_calls run clk i db))"
proof (induction run arbitrary: i db)
  case (Call f cargs k)
  obtain r db' where r: "api_call f (clk i) cargs db = (r, db')" by (cases "api_call f (clk i) cargs db")
  have "db_wf db'" using api_call_db_wf [OF Call.prems, of f "clk i" cargs] by (simp add: r)
  then show ?case using Call.IH by (cases r) (auto simp: r)
qed simp_all

text \<open>A script leaves the subscriptions alone.\<close>

lemma redis_pcall_pubsub [simp]: "pubsub (snd (redis_pcall now cargs db)) = pubsub db"
  by (auto simp: redis_pcall_def db_set_def db_get_def case_prod_beta Let_def split: list.split option.split)

lemma api_call_pubsub [simp]: "pubsub (snd (api_call f now cargs db)) = pubsub db"
  by (simp add: api_call_def redis_call_def split: api_function.split)

lemma run_calls_pubsub [simp]: "pubsub (snd (run_calls run clk i db)) = pubsub db"
proof (induction run arbitrary: i db)
  case (Call f cargs k)
  obtain r db' where r: "api_call f (clk i) cargs db = (r, db')" by (cases "api_call f (clk i) cargs db")
  have "pubsub db' = pubsub db" using api_call_pubsub [of f "clk i" cargs db] by (simp only: r snd_conv)
  then show ?case using Call.IH by (cases r) (auto simp: r)
qed simp_all

lemma eval_run:
  obtains "snd (snd (eval lua clk script keys sargs eng db)) = db"
  | run where "validate_script script" "lua (lua_state eng) (c_str script) (map c_str keys) (map c_str sargs) = Inr run"
      "snd (snd (eval lua clk script keys sargs eng db)) = snd (run_calls run clk 0 db)"
proof (cases "validate_script script")
  case True
  show ?thesis
  proof (cases "lua (lua_state eng) (c_str script) (map c_str keys) (map c_str sargs)")
    case (Inl e)
    with True show ?thesis by (intro that(1)) (simp add: eval_def)
  next
    case (Inr run)
    with True show ?thesis
      by (intro that(2) [of run]) (auto simp: eval_def split: prod.split option.split sum.split)
  qed
qed (simp add: that(1) eval_def)

lemma eval_db_wf: "db_wf db \<Longrightarrow> db_wf (snd (snd (eval lua clk script keys sargs eng db)))"
  by (rule eval_run [of lua clk script keys sargs eng db]) (simp_all add: run_calls_db_wf)

lemma eval_pubsub [simp]: "pubsub (snd (snd (eval lua clk script keys sargs eng db))) = pubsub db"
  by (rule eval_run [of lua clk script keys sargs eng db]) simp_all

lemma evalsha_db_wf: "db_wf db \<Longrightarrow> db_wf (snd (snd (evalsha lua clk sha1 keys sargs eng db)))"
  by (auto simp: evalsha_def eval_db_wf split: option.split)

lemma evalsha_pubsub [simp]: "pubsub (snd (snd (evalsha lua clk sha1 keys sargs eng db))) = pubsub db"
  by (auto simp: evalsha_def split: option.split)

text \<open>The requests a run makes with \<open>redis.call\<close> and \<open>redis.pcall\<close>, in order, each with its time: only the calls
  that are reached with the results of the earlier ones count.\<close>

primrec requests :: "'l lua_run \<Rightarrow> (nat \<Rightarrow> int) \<Rightarrow> nat \<Rightarrow> database \<Rightarrow> (int \<times> lua_value list) list" where
  "requests (Returned v l) clk i db = []"
| "requests (Failed e l) clk i db = []"
| "requests (Call f cargs k) clk i db =
     (if f = Redis_call \<or> f = Redis_pcall then [(clk i, cargs)] else []) @
     (case api_call f (clk i) cargs db of
        (None, db') \<Rightarrow> []
      | (Some r, db') \<Rightarrow> requests (k r) clk (Suc i) db')"

definition script_requests ::
  "'l interpreter \<Rightarrow> (nat \<Rightarrow> int) \<Rightarrow> string \<Rightarrow> string list \<Rightarrow> string list \<Rightarrow> 'l lua_engine \<Rightarrow> database \<Rightarrow>
     (int \<times> lua_value list) list" where
  "script_requests lua clk script keys sargs eng db =
     (if \<not> validate_script script then []
      else case lua (lua_state eng) (c_str script) (map c_str keys) (map c_str sargs) of
        Inl e \<Rightarrow> []
      | Inr run \<Rightarrow> requests run clk 0 db)"

text \<open>The key of a GET or SET request.\<close>

definition request_key :: "lua_value list \<Rightarrow> string option" where
  "request_key cargs =
     (case cargs of
        c # a # _ \<Rightarrow> if tostring c = Some ''GET'' \<or> tostring c = Some ''SET'' then tostring a else None
      | _ \<Rightarrow> None)"

abbreviation serve_request :: "int \<times> lua_value list \<Rightarrow> database \<Rightarrow> database" where
  "serve_request r db \<equiv> snd (redis_pcall (fst r) (snd r) db)"

lemma redis_pcall_frame: "entry k (snd (redis_pcall now cargs db)) = entry k db \<or> request_key cargs = Some k"
  by (auto simp: redis_pcall_def request_key_def db_set_def db_get_def case_prod_beta Let_def
      split: list.splits option.splits if_splits)

lemma api_call_effect:
  "snd (api_call f now cargs db) = (if f = Redis_call \<or> f = Redis_pcall then snd (redis_pcall now cargs db) else db)"
  by (simp add: api_call_def redis_call_def split: api_function.split)

lemma run_calls_requests: "snd (run_calls run clk i db) = fold serve_request (requests run clk i db) db"
proof (induction run arbitrary: i db)
  case (Call f cargs c)
  obtain r db' where r: "api_call f (clk i) cargs db = (r, db')" by (cases "api_call f (clk i) cargs db")
  then have "db' = (if f = Redis_call \<or> f = Redis_pcall then snd (redis_pcall (clk i) cargs db) else db)"
    using api_call_effect [of f "clk i" cargs db] by simp
  then show ?case using Call.IH by (cases r) (auto simp: r)
qed simp_all

lemma requests_frame: "entry k (fold serve_request reqs db) = entry k db \<or> Some k \<in> set (map (request_key \<circ> snd) reqs)"
proof (induction reqs arbitrary: db)
  case (Cons q reqs)
  show ?case using Cons.IH [of "serve_request q db"] redis_pcall_frame [where k = k and now = "fst q" and cargs = "snd q" and db = db] by auto
qed simp

section \<open>Properties\<close>

text \<open>C29. A loaded script is the one its identifier runs: after \<open>SCRIPT LOAD\<close> of an accepted script
  and of any later scripts with other identifiers, \<open>EVALSHA\<close> with the identifier that the load
  replied does what \<open>EVAL\<close> of the script does.\<close>

theorem load_then_evalsha:
  assumes "validate_script script" "\<forall>s\<in>set later. calculate_sha1 s \<noteq> calculate_sha1 script"
    and "eng' = fold (\<lambda>s e. snd (script_load s e)) later (snd (script_load script eng))"
  shows "fst (script_load script eng) = simple_reply (calculate_sha1 script) \<and>
    script_exists (calculate_sha1 script) eng' \<and>
    evalsha lua clk (calculate_sha1 script) keys sargs eng' db = eval lua clk script keys sargs eng' db"
proof -
  have "map_of (script_cache (fold (\<lambda>s e. snd (script_load s e)) later e)) (calculate_sha1 script) =
      map_of (script_cache e) (calculate_sha1 script)" for e :: "'a lua_engine"
    using assms(2) by (induction later arbitrary: e) (auto simp: script_load_def Let_def)
  then have "map_of (script_cache eng') (calculate_sha1 script) = Some script"
    using assms(1,3) by (simp add: script_load_def Let_def)
  then show ?thesis using assms(1) by (simp add: script_load_def script_exists_def evalsha_def Let_def)
qed

definition echo_lua :: "unit interpreter" where
  "echo_lua l script keys sargs = Inr (Returned (Lua_string script) ())"

lemma sample_hashes:
  "hash31 ''return 1'' = 0x2EFEDB3B541" "hash31 ''return 2'' = 0x2EFEDB3B542"
  by (simp_all add: hash31_def ord_def)

lemma hex_string_sample: "hex_string 0x2EFEDB3B541 = ''2efedb3b541''" "hex_string 0x2EFEDB3B542 = ''2efedb3b542''"
  by (simp_all add: hex_string.simps hex_digit_def char_of_def bit_0)

theorem load_then_evalsha_witness:
  "fst (evalsha echo_lua (\<lambda>_. 0) ''2efedb3b541'' [] []
     (snd (script_load ''return 2'' (snd (script_load ''return 1'' \<lparr>script_cache = [], lua_state = ()\<rparr>)))) empty_db) =
   Some (simple_reply ''return 1'')"
proof -
  let ?e = "\<lparr>script_cache = [], lua_state = ()\<rparr> :: unit lua_engine"
  have sha: "calculate_sha1 ''return 1'' = ''2efedb3b541''" "calculate_sha1 ''return 2'' = ''2efedb3b542''"
    by (simp_all add: calculate_sha1_def sample_hashes hex_string_sample)
  have "evalsha echo_lua (\<lambda>_. 0) ''2efedb3b541'' [] [] (snd (script_load ''return 2'' (snd (script_load ''return 1'' ?e)))) empty_db =
      eval echo_lua (\<lambda>_. 0) ''return 1'' [] [] (snd (script_load ''return 2'' (snd (script_load ''return 1'' ?e)))) empty_db"
    using load_then_evalsha [where script = "''return 1''" and later = "[''return 2'']" and eng = ?e
        and lua = echo_lua and clk = "\<lambda>_. 0" and keys = "[]" and sargs = "[]" and db = empty_db, OF _ _ refl]
    by (simp add: sha validate_script_def)
  then show ?thesis by (simp add: eval_def validate_script_def echo_lua_def result_text_def c_str_def ord_def)
qed

text \<open>Identifiers of different scripts collide: \<open>calculate_sha1\<close> is a multiplicative hash, and
  loading the second of these two scripts makes the identifier of the first run the second.\<close>

theorem script_identifiers_collide:
  "let a = ''return \"Aa\"''; b = ''return \"BB\"'' in
     a \<noteq> b \<and> validate_script a \<and> validate_script b \<and> calculate_sha1 a = calculate_sha1 b \<and>
     evalsha lua clk (calculate_sha1 a) keys sargs (snd (script_load b (snd (script_load a eng)))) db =
       eval lua clk b keys sargs (snd (script_load b (snd (script_load a eng)))) db"
proof -
  have h: "hash31 ''return \"Aa\"'' = hash31 ''return \"BB\"''" by (simp add: hash31_def ord_def)
  then show ?thesis
    by (simp add: validate_script_def calculate_sha1_def script_load_def evalsha_def Let_def)
qed

text \<open>C30. What a script does to the keyspace: after \<open>EVAL\<close> it is what the GET and SET requests that the run makes with
  \<open>redis.call\<close> and \<open>redis.pcall\<close>, served one after the other, make of it; so a key whose entry differs is the key of one of
  these requests.  The subscriptions are as before.\<close>

theorem eval_frame:
  "let reqs = script_requests lua clk script keys sargs eng db; db' = snd (snd (eval lua clk script keys sargs eng db)) in
     db' = fold serve_request reqs db \<and> pubsub db' = pubsub db \<and>
     (entry k db' = entry k db \<or> Some k \<in> set (map (request_key \<circ> snd) reqs))"
proof -
  let ?reqs = "script_requests lua clk script keys sargs eng db" and ?db = "snd (snd (eval lua clk script keys sargs eng db))"
  have db: "?db = fold serve_request ?reqs db"
    by (auto simp: eval_def script_requests_def run_calls_requests [symmetric] split: prod.split option.split sum.split)
  have "entry k ?db = entry k db \<or> Some k \<in> set (map (request_key \<circ> snd) ?reqs)" unfolding db by (rule requests_frame)
  then show ?thesis using db eval_pubsub [of lua clk script keys sargs eng db] unfolding Let_def by blast
qed

text \<open>The check of scripts is by text: a script that gives the table \<open>os\<close> another name passes it.\<close>

lemma validate_misses_alias: "validate_script ''local o = os o['exit']()''"
  by (simp add: validate_script_def)

end
