(* ===== verification/Save_Daemon.thy ===== *)
theory Save_Daemon
  imports Cpp_Std
begin

text \<open>
  The background saver (\<open>save_daemon.h\<close>, \<open>save_daemon.cpp\<close>): its controls, one save with its
  statistics and events, and the worker thread as a step relation.  The worker is at one of the
  points of \<open>worker_loop\<close> between which other threads can act: before its first statement
  (\<open>Starting\<close>), at the test of \<open>stop_requested\<close> (\<open>Checking\<close>), behind it and taking the lock
  (\<open>Entering\<close>), inside \<open>cv.wait_for\<close> (\<open>Waiting\<close>), behind the wait (\<open>Woken\<close>, with whether the wait was
  notified), or finished.  Times are steady-clock nanoseconds.  The save function
  and its outcome are inputs of a step.
\<close>

datatype worker_point = Not_started | Starting | Checking | Entering | Waiting | Woken bool | Finished

record save_daemon =
  running :: bool
  stop_requested :: bool
  save_interval :: int
  db_file :: string
  publishes :: bool
  successful_saves :: int
  failed_saves :: int
  last_save_time :: int
  worker :: worker_point

text \<open>\<open>publishes\<close> tells whether an event publisher was given.\<close>

definition make_daemon :: "string \<Rightarrow> bool \<Rightarrow> save_daemon" where
  "make_daemon name publisher =
     \<lparr>running = False, stop_requested = False, save_interval = 30, db_file = name, publishes = publisher,
      successful_saves = 0, failed_saves = 0, last_save_time = 0, worker = Not_started\<rparr>"

section \<open>Saving\<close>

text \<open>The outcome of \<open>save_function\<close>: true, false, or an exception with its text.\<close>

datatype save_outcome = Saved | Not_saved | Threw string

text \<open>\<open>perform_save\<close>: the event it publishes (channel and message), and the counters.\<close>

definition perform_save :: "save_outcome \<Rightarrow> save_daemon \<Rightarrow> (string \<times> string) option \<times> save_daemon" where
  "perform_save outcome d =
     (let event = (\<lambda>msg. if publishes d then Some (''__save_events__'', msg) else None)
      in case outcome of
           Saved \<Rightarrow>
             (let n = wrap32 (successful_saves d + 1)
              in (event (''success:'' @ to_string n), d\<lparr>successful_saves := n\<rparr>))
         | Not_saved \<Rightarrow>
             (let n = wrap32 (failed_saves d + 1)
              in (event (''failure:'' @ to_string n), d\<lparr>failed_saves := n\<rparr>))
         | Threw what \<Rightarrow> (event (''exception:'' @ what), d\<lparr>failed_saves := wrap32 (failed_saves d + 1)\<rparr>))"

section \<open>Controls\<close>

definition start :: "save_daemon \<Rightarrow> save_daemon" where
  "start d = (if running d then d else d\<lparr>stop_requested := False, running := True, worker := Starting\<rparr>)"

definition notify_all :: "save_daemon \<Rightarrow> save_daemon" where
  "notify_all d = (if worker d = Waiting then d\<lparr>worker := Woken True\<rparr> else d)"

text \<open>\<open>stop\<close> up to the join, and behind it.\<close>

definition stop_request :: "save_daemon \<Rightarrow> save_daemon" where
  "stop_request d = (if \<not> running d then d else notify_all (d\<lparr>stop_requested := True\<rparr>))"

definition stop_joined :: "save_daemon \<Rightarrow> save_daemon" where
  "stop_joined d = d\<lparr>running := False\<rparr>"

definition trigger_save :: "save_daemon \<Rightarrow> save_daemon" where
  "trigger_save d = notify_all d"

definition set_interval :: "int \<Rightarrow> save_daemon \<Rightarrow> save_daemon" where
  "set_interval seconds d = d\<lparr>save_interval := seconds\<rparr>"

section \<open>The worker\<close>

definition worker_begin :: "int \<Rightarrow> save_daemon \<Rightarrow> save_daemon" where
  "worker_begin now d = d\<lparr>last_save_time := now, worker := Checking\<rparr>"

definition worker_check :: "save_daemon \<Rightarrow> save_daemon" where
  "worker_check d = (if stop_requested d then d\<lparr>worker := Finished\<rparr> else d\<lparr>worker := Entering\<rparr>)"

text \<open>Behind the wait: \<open>notified\<close> is \<open>wait_result == no_timeout\<close>, \<open>now\<close> and \<open>now'\<close> the two clock
  readings.\<close>

definition save_due :: "bool \<Rightarrow> int \<Rightarrow> save_daemon \<Rightarrow> bool" where
  "save_due notified now d \<longleftrightarrow> save_interval d * 1000000000 \<le> now - last_save_time d \<or> notified"

definition worker_wake :: "bool \<Rightarrow> int \<Rightarrow> save_outcome \<Rightarrow> int \<Rightarrow> save_daemon \<Rightarrow> save_daemon" where
  "worker_wake notified now outcome now' d =
     (if stop_requested d then d\<lparr>worker := Finished\<rparr>
      else if save_due notified now d
      then (snd (perform_save outcome d))\<lparr>last_save_time := now', worker := Checking\<rparr>
      else d\<lparr>worker := Checking\<rparr>)"

inductive daemon_step :: "save_daemon \<Rightarrow> save_daemon \<Rightarrow> bool" where
  start_step: "daemon_step d (start d)"
| stop_step: "daemon_step d (stop_request d)"
| join_step: "stop_requested d \<Longrightarrow> worker d = Finished \<Longrightarrow> daemon_step d (stop_joined d)"
| trigger_step: "daemon_step d (trigger_save d)"
| interval_step: "daemon_step d (set_interval s d)"
| begin_step: "worker d = Starting \<Longrightarrow> daemon_step d (worker_begin now d)"
| check_step: "worker d = Checking \<Longrightarrow> daemon_step d (worker_check d)"
| enter_step: "worker d = Entering \<Longrightarrow> daemon_step d (d\<lparr>worker := Waiting\<rparr>)"
| timeout_step: "worker d = Waiting \<Longrightarrow> daemon_step d (d\<lparr>worker := Woken False\<rparr>)"
| spurious_step: "worker d = Waiting \<Longrightarrow> daemon_step d (d\<lparr>worker := Woken True\<rparr>)"
| wake_step: "worker d = Woken b \<Longrightarrow> daemon_step d (worker_wake b now outcome now' d)"

inductive daemon_reachable :: "string \<Rightarrow> save_daemon \<Rightarrow> bool" for name where
  initial: "daemon_reachable name (make_daemon name publisher)"
| later: "daemon_reachable name d \<Longrightarrow> daemon_step d d' \<Longrightarrow> daemon_reachable name d'"

inductive_cases daemon_stepE: "daemon_step d d'"

section \<open>Invariants\<close>

lemmas daemon_defs = start_def stop_request_def stop_joined_def trigger_save_def notify_all_def
  set_interval_def worker_begin_def worker_check_def worker_wake_def perform_save_def Let_def

definition worker_alive :: "save_daemon \<Rightarrow> bool" where
  "worker_alive d \<longleftrightarrow> worker d \<noteq> Not_started \<and> worker d \<noteq> Finished"

definition daemon_inv :: "string \<Rightarrow> save_daemon \<Rightarrow> bool" where
  "daemon_inv name d \<longleftrightarrow> db_file d = name \<and> (worker_alive d \<longrightarrow> running d) \<and>
     (running d \<longrightarrow> worker d \<noteq> Not_started) \<and> (worker d = Finished \<longrightarrow> stop_requested d)"

lemma daemon_inv_step: "daemon_step d d' \<Longrightarrow> daemon_inv name d \<Longrightarrow> daemon_inv name d'"
  by (erule daemon_stepE)
    (auto simp: daemon_defs daemon_inv_def worker_alive_def split: save_outcome.splits)

lemma daemon_inv_reachable: "daemon_reachable name d \<Longrightarrow> daemon_inv name d"
proof (induction rule: daemon_reachable.induct)
  case initial
  then show ?case by (simp add: daemon_inv_def make_daemon_def worker_alive_def)
qed (rule daemon_inv_step)

section \<open>Properties\<close>

text \<open>The saver has at most one worker: in every reachable state a worker that has not finished
  implies \<open>is_running\<close>, so \<open>start\<close> does nothing, and the file name is the one it was created with.\<close>

theorem daemon_single_worker:
  assumes "daemon_reachable name d" "worker_alive d"
  shows "running d \<and> db_file d = name \<and> start d = d"
  using daemon_inv_reachable [OF assms(1)] assms(2) by (simp add: daemon_inv_def start_def)

theorem daemon_single_worker_witness:
  "start (start (make_daemon ''x.rdb'' False)) = start (make_daemon ''x.rdb'' False)"
proof -
  have "daemon_reachable ''x.rdb'' (start (make_daemon ''x.rdb'' False))"
    by (rule daemon_reachable.later [OF daemon_reachable.initial daemon_step.start_step])
  moreover have "worker_alive (start (make_daemon ''x.rdb'' False))"
    by (simp add: worker_alive_def start_def make_daemon_def)
  ultimately show ?thesis using daemon_single_worker by blast
qed

text \<open>Once a stop has been requested no save is counted any more and the request stands, whatever
  the worker and the other threads do, until the worker has been joined.\<close>

theorem no_save_after_stop:
  assumes "daemon_step d d'" "stop_requested d" "running d"
  shows "stop_requested d' \<and> successful_saves d' = successful_saves d \<and> failed_saves d' = failed_saves d"
  using assms by (auto elim!: daemon_stepE simp: daemon_defs)

theorem no_save_after_stop_witness:
  "successful_saves (worker_wake True 0 Saved 0
     ((make_daemon ''x'' False)\<lparr>running := True, stop_requested := True, worker := Woken True\<rparr>)) = 0"
proof -
  let ?d = "(make_daemon ''x'' False)\<lparr>running := True, stop_requested := True, worker := Woken True\<rparr>"
  have "daemon_step ?d (worker_wake True 0 Saved 0 ?d)" by (rule daemon_step.wake_step) simp
  then show ?thesis using no_save_after_stop [of ?d] by (simp add: make_daemon_def)
qed

text \<open>A stop request can be missed: \<open>stop\<close> sets the flag and notifies without taking the mutex,
  so a worker that has just passed the test of the flag goes to sleep after the notification.
  There is a reachable state in which the stop has been requested and the worker waits; in it
  only a timeout, a spurious wake-up or another notification lets \<open>stop\<close> return.\<close>

theorem stop_request_missed:
  "\<exists>d. daemon_reachable name d \<and> running d \<and> stop_requested d \<and> worker d = Waiting \<and>
     \<not> daemon_step d (stop_joined d)"
proof -
  let ?a = "worker_begin 0 (start (make_daemon name False))"
  let ?b = "worker_check ?a"
  let ?c = "stop_request ?b"
  let ?d = "?c\<lparr>worker := Waiting\<rparr>"
  have "daemon_reachable name (start (make_daemon name False))" by (rule later [OF initial start_step])
  then have "daemon_reachable name ?a"
    by (rule later) (rule begin_step, simp add: start_def make_daemon_def)
  then have "daemon_reachable name ?b"
    by (rule later) (rule check_step, simp add: worker_begin_def)
  then have "daemon_reachable name ?c" by (rule later) (rule stop_step)
  then have "daemon_reachable name ?d"
    by (rule later) (rule enter_step, simp add: daemon_defs make_daemon_def)
  moreover have "\<not> daemon_step ?d (stop_joined ?d)"
    by (auto elim!: daemon_stepE simp: daemon_defs make_daemon_def split: if_splits dest: arg_cong [of _ _ worker]
        arg_cong [of _ _ running])
  ultimately show ?thesis by (intro exI [of _ ?d]) (simp add: daemon_defs make_daemon_def)
qed

end
