(* ===== verification/Processor.thy ===== *)
theory Processor
  imports Command_Laws Cluster Lua_Scripting Save_Daemon
begin

text \<open>
  The command processor (class \<open>CommandProcessor\<close> of \<open>commands.h\<close> and \<open>commands.cpp\<close>): the state
  of one client's processor, the state the processors share (the keyspace, the snapshot file,
  the registry \<open>client_processors\<close> and the cluster configuration), the transaction, watch,
  subscription, script, cluster and information commands, and \<open>process_command\<close> with both
  dispatch chains.  A command is processed in one piece; \<open>None\<close> as a reply stands for a crash of
  the process.
\<close>

section \<open>State\<close>

record 'l processor =
  transaction_queue :: "(string \<times> cmd_args) list"
  in_transaction :: bool
  watched_keys :: "(string, 64 word) umap"
  notify_write_fd :: int
  notifications :: nat
  pubsub_messages :: "string list"
  engine :: "'l lua_engine"

record 'l server =
  keyspace :: database
  snapshot :: "string option"
  clients :: "(int, 'l processor) umap"
  cluster :: cluster_config

text \<open>
  What a command finds around it: the clock readings of its \<open>i\<close>-th queued command, whether the
  snapshot file can be opened, \<open>std::hash\<close>, the Lua interpreter, and the saver that the processor
  was given (none in \<open>main\<close>).
\<close>

record 'l environment =
  clocks :: "nat \<Rightarrow> clock"
  save_opens :: "nat \<Rightarrow> bool"
  hash :: "string \<Rightarrow> 64 word"
  lua :: "'l interpreter"
  save_daemon_ptr :: "save_daemon option"

definition make_processor :: "int \<Rightarrow> 'l \<Rightarrow> 'l processor" where
  "make_processor notify_fd l =
     \<lparr>transaction_queue = [], in_transaction = False, watched_keys = [], notify_write_fd = notify_fd,
      notifications = 0, pubsub_messages = [], engine = \<lparr>script_cache = [], lua_state = l\<rparr>\<rparr>"

section \<open>Data commands and SAVE\<close>

definition on_keyspace :: "handler \<Rightarrow> clock \<Rightarrow> cmd_args \<Rightarrow> 'l server \<Rightarrow> string \<times> 'l server" where
  "on_keyspace h clk args srv =
     (let (r, db) = h clk args (keyspace srv) in (r, srv\<lparr>keyspace := db\<rparr>))"

definition handle_save :: "bool \<Rightarrow> cmd_args \<Rightarrow> 'l server \<Rightarrow> string \<times> 'l server" where
  "handle_save opened args srv =
     (if length args \<noteq> 1 then (err ''SAVE requires no arguments'', srv)
      else case save_rdb opened (keyspace srv) of
        (True, bytes) \<Rightarrow> (ok_reply, srv\<lparr>snapshot := bytes\<rparr>)
      | (False, _) \<Rightarrow> (err ''Failed to save database'', srv))"

text \<open>The body of \<open>execute_func\<close>: the dispatch of a queued command.\<close>

definition run_queued :: "'l environment \<Rightarrow> nat \<Rightarrow> string \<times> cmd_args \<Rightarrow> 'l server \<Rightarrow> string \<times> 'l server" where
  "run_queued env i c srv =
     (case c of (name, args) \<Rightarrow>
        if name = ''SAVE'' then handle_save (save_opens env i) args srv
        else case map_of queued_commands name of
          Some h \<Rightarrow> on_keyspace h (clocks env i) args srv
        | None \<Rightarrow> (err ''Unknown command'', srv))"

section \<open>Transactions\<close>

definition handle_multi :: "cmd_args \<Rightarrow> 'l processor \<Rightarrow> string \<times> 'l processor" where
  "handle_multi args p =
     (if length args \<noteq> 1 then (err ''MULTI requires no arguments'', p)
      else if in_transaction p then (err ''MULTI cannot be nested'', p)
      else (ok_reply, p\<lparr>in_transaction := True, transaction_queue := []\<rparr>))"

primrec run_queue ::
  "'l environment \<Rightarrow> nat \<Rightarrow> (string \<times> cmd_args) list \<Rightarrow> 'l server \<Rightarrow> string list \<times> 'l server" where
  "run_queue env i [] srv = ([], srv)"
| "run_queue env i (c # cs) srv =
     (let (r, srv') = run_queued env i c srv; (rs, srv'') = run_queue env (Suc i) cs srv'
      in (r # rs, srv''))"

definition watch_broken :: "'l processor \<Rightarrow> database \<Rightarrow> bool" where
  "watch_broken p db = list_ex (\<lambda>(key, n). db_get_mod_count key db \<noteq> n) (watched_keys p)"

definition end_transaction :: "'l processor \<Rightarrow> 'l processor" where
  "end_transaction p = p\<lparr>transaction_queue := [], in_transaction := False, watched_keys := []\<rparr>"

text \<open>
  The queued commands are data commands and SAVE, which do not throw, so the \<open>catch\<close> branch is
  not taken.
\<close>

definition handle_exec ::
  "'l environment \<Rightarrow> cmd_args \<Rightarrow> 'l processor \<Rightarrow> 'l server \<Rightarrow> string \<times> 'l processor \<times> 'l server" where
  "handle_exec env args p srv =
     (if length args \<noteq> 1 then (err ''EXEC requires no arguments'', p, srv)
      else if \<not> in_transaction p then (err ''EXEC without MULTI'', p, srv)
      else if watch_broken p (keyspace srv)
      then (minus_reply ''EXECABORT Transaction discarded because of watched key modification'',
            end_transaction p, srv)
      else let (results, srv') = run_queue env 0 (transaction_queue p) srv
           in (''*'' @ size_string (length results) @ CRLF @ concat results, end_transaction p, srv'))"

definition handle_discard :: "cmd_args \<Rightarrow> 'l processor \<Rightarrow> string \<times> 'l processor" where
  "handle_discard args p =
     (if length args \<noteq> 1 then (err ''DISCARD requires no arguments'', p)
      else if \<not> in_transaction p then (err ''DISCARD without MULTI'', p)
      else (ok_reply, p\<lparr>transaction_queue := [], in_transaction := False\<rparr>))"

text \<open>The loop of \<open>handle_watch\<close>: \<open>None\<close> is the early return, with the keys before it watched.\<close>

fun watch_loop :: "RespValue list \<Rightarrow> database \<Rightarrow> 'l processor \<Rightarrow> bool \<times> 'l processor" where
  "watch_loop [] db p = (True, p)"
| "watch_loop (a # rest) db p =
     (if \<not> is_bulk a then (False, p)
      else watch_loop rest db
        (p\<lparr>watched_keys := AList.update (resp_str a) (db_get_mod_count (resp_str a) db) (watched_keys p)\<rparr>))"

definition handle_watch :: "cmd_args \<Rightarrow> database \<Rightarrow> 'l processor \<Rightarrow> string \<times> 'l processor" where
  "handle_watch args db p =
     (if length args < 2 then (err ''WATCH requires at least 1 argument'', p)
      else if in_transaction p then (err ''WATCH cannot be used inside MULTI'', p)
      else let (done, p') = watch_loop (drop 1 args) db p
           in (if done then ok_reply else err ''WATCH keys must be bulk strings'', p'))"

definition handle_unwatch :: "cmd_args \<Rightarrow> 'l processor \<Rightarrow> string \<times> 'l processor" where
  "handle_unwatch args p =
     (if length args \<noteq> 1 then (err ''UNWATCH requires no arguments'', p)
      else (ok_reply, p\<lparr>watched_keys := []\<rparr>))"

section \<open>Subscriptions\<close>

definition channel_reply :: "string \<Rightarrow> string \<Rightarrow> int \<Rightarrow> string" where
  "channel_reply kind channel n =
     ''*3'' @ CRLF @ bulk_reply kind @ bulk_reply channel @ int_reply n"

fun subscribe_loop :: "int \<Rightarrow> RespValue list \<Rightarrow> string \<Rightarrow> database \<Rightarrow> string \<times> database" where
  "subscribe_loop fd [] response db = (response, db)"
| "subscribe_loop fd (a # rest) response db =
     (if \<not> is_bulk a then (err ''SUBSCRIBE channels must be bulk strings'', db)
      else subscribe_loop fd rest (response @ channel_reply ''subscribe'' (resp_str a) 1)
        (db\<lparr>pubsub := subscribe fd (resp_str a) (pubsub db)\<rparr>))"

definition handle_subscribe :: "int \<Rightarrow> cmd_args \<Rightarrow> database \<Rightarrow> string \<times> database" where
  "handle_subscribe fd args db =
     (if length args < 2 then (err ''SUBSCRIBE requires at least 1 channel'', db)
      else subscribe_loop fd (drop 1 args) [] db)"

fun unsubscribe_loop :: "int \<Rightarrow> RespValue list \<Rightarrow> string \<Rightarrow> database \<Rightarrow> string \<times> database" where
  "unsubscribe_loop fd [] response db = (response, db)"
| "unsubscribe_loop fd (a # rest) response db =
     (if \<not> is_bulk a then (err ''UNSUBSCRIBE channels must be bulk strings'', db)
      else unsubscribe_loop fd rest (response @ channel_reply ''unsubscribe'' (resp_str a) 0)
        (db\<lparr>pubsub := unsubscribe fd (resp_str a) (pubsub db)\<rparr>))"

definition handle_unsubscribe :: "int \<Rightarrow> cmd_args \<Rightarrow> database \<Rightarrow> string \<times> database" where
  "handle_unsubscribe fd args db =
     (if length args = 1 then (err ''UNSUBSCRIBE from all channels not implemented'', db)
      else unsubscribe_loop fd (drop 1 args) [] db)"

definition queue_pubsub_message :: "string \<Rightarrow> 'l processor \<Rightarrow> 'l processor" where
  "queue_pubsub_message msg p =
     (let p' = p\<lparr>pubsub_messages := pubsub_messages p @ [msg]\<rparr>
      in if notify_write_fd p' \<noteq> - 1 then p'\<lparr>notifications := notifications p' + 1\<rparr> else p')"

definition get_next_pubsub_message :: "'l processor \<Rightarrow> string \<times> 'l processor" where
  "get_next_pubsub_message p =
     (case pubsub_messages p of [] \<Rightarrow> ([], p) | m # ms \<Rightarrow> (m, p\<lparr>pubsub_messages := ms\<rparr>))"

definition has_pubsub_messages :: "'l processor \<Rightarrow> bool" where
  "has_pubsub_messages p \<longleftrightarrow> pubsub_messages p \<noteq> []"

definition message_text :: "string \<Rightarrow> string \<Rightarrow> string" where
  "message_text channel message =
     ''*3'' @ CRLF @ bulk_reply ''message'' @ bulk_reply channel @ bulk_reply message"

definition deliver :: "string \<Rightarrow> int \<Rightarrow> (int, 'l processor) umap \<Rightarrow> (int, 'l processor) umap" where
  "deliver msg fd cs =
     (case map_of cs fd of
        Some p \<Rightarrow> AList.update fd (queue_pubsub_message msg p) cs
      | None \<Rightarrow> cs)"

definition handle_publish :: "cmd_args \<Rightarrow> 'l server \<Rightarrow> string \<times> 'l server" where
  "handle_publish args srv =
     (if length args \<noteq> 3 then (err ''PUBLISH requires exactly 2 arguments'', srv)
      else if \<not> is_bulk (args ! 1) \<or> \<not> is_bulk (args ! 2) then (err ''PUBLISH arguments must be bulk strings'', srv)
      else let subs = get_subscribers (arg args 1) (pubsub (keyspace srv));
               msg = message_text (arg args 1) (arg args 2)
           in (int_reply (int (length subs)), srv\<lparr>clients := fold (deliver msg) subs (clients srv)\<rparr>))"

section \<open>Scripts\<close>

text \<open>
  The arguments behind \<open>numkeys\<close>.  \<open>3 + num_keys\<close> is an \<open>int\<close> and is compared as \<open>size_t\<close>; a small
  negative \<open>numkeys\<close> passes the comparison and moves the start of the script arguments forward.
\<close>

definition script_arguments ::
  "string \<Rightarrow> cmd_args \<Rightarrow> string + (string \<times> string list \<times> string list)" where
  "script_arguments cmd args =
     (if length args < 3 then Inl (cmd @ '' requires at least 3 arguments'')
      else if \<not> is_bulk (args ! 1) \<or> \<not> is_bulk (args ! 2)
      then Inl (cmd @ (if cmd = ''EVAL'' then '' script'' else '' sha1'') @ '' and numkeys must be bulk strings'')
      else case stoi (arg args 2) of
        Inl _ \<Rightarrow> Inl (cmd @ '' numkeys must be an integer'')
      | Inr num_keys \<Rightarrow>
          let first = size_wrap (wrap32 (3 + num_keys)); keys = take (nat num_keys) (drop 3 args);
              sargs = drop first args
          in if length args < first then Inl (cmd @ '' insufficient arguments for numkeys'')
             else if \<not> list_all is_bulk keys then Inl (cmd @ '' keys must be bulk strings'')
             else if \<not> list_all is_bulk sargs then Inl (cmd @ '' arguments must be bulk strings'')
             else Inr (arg args 1, map resp_str keys, map resp_str sargs))"

definition handle_eval ::
  "'l environment \<Rightarrow> cmd_args \<Rightarrow> 'l processor \<Rightarrow> database \<Rightarrow> string option \<times> 'l processor \<times> database" where
  "handle_eval env args p db =
     (case script_arguments ''EVAL'' args of
        Inl e \<Rightarrow> (Some (err e), p, db)
      | Inr (script, keys, sargs) \<Rightarrow>
          (let (r, eng, db') = eval (lua env) (clocks env 0) script keys sargs (engine p) db
           in (r, p\<lparr>engine := eng\<rparr>, db')))"

definition handle_evalsha ::
  "'l environment \<Rightarrow> cmd_args \<Rightarrow> 'l processor \<Rightarrow> database \<Rightarrow> string option \<times> 'l processor \<times> database" where
  "handle_evalsha env args p db =
     (case script_arguments ''EVALSHA'' args of
        Inl e \<Rightarrow> (Some (err e), p, db)
      | Inr (sha1, keys, sargs) \<Rightarrow>
          (let (r, eng, db') = evalsha (lua env) (clocks env 0) sha1 keys sargs (engine p) db
           in (r, p\<lparr>engine := eng\<rparr>, db')))"

definition handle_script :: "cmd_args \<Rightarrow> 'l processor \<Rightarrow> string \<times> 'l processor" where
  "handle_script args p =
     (if length args < 2 then (err ''SCRIPT requires at least 1 subcommand'', p)
      else if \<not> is_bulk (args ! 1) then (err ''SCRIPT subcommand must be a bulk string'', p)
      else if arg args 1 = ''LOAD'' then
        (if length args \<noteq> 3 \<or> \<not> is_bulk (args ! 2) then (err ''SCRIPT LOAD requires exactly 1 argument'', p)
         else let (r, eng) = script_load (arg args 2) (engine p) in (r, p\<lparr>engine := eng\<rparr>))
      else if arg args 1 = ''EXISTS'' then
        (case bulk_from 2 args of
           None \<Rightarrow> (err ''SCRIPT EXISTS arguments must be bulk strings'', p)
         | Some shas \<Rightarrow>
             (''*'' @ size_string (length args - 2) @ CRLF @
              concat (map (\<lambda>s. bool_reply (script_exists s (engine p))) shas), p))
      else if arg args 1 = ''FLUSH'' then (ok_reply, p\<lparr>engine := script_flush (engine p)\<rparr>)
      else (err ''Unknown SCRIPT subcommand'', p))"

section \<open>Cluster and server information\<close>

definition node_line :: "cluster_node \<Rightarrow> string" where
  "node_line n =
     node_id n @ '' '' @ ip_address n @ '':'' @ to_string (port n) @
     (if is_master n then '' master'' else '' slave'') @ '' - 0 0 0 connected'' @
     concat (map (\<lambda>s. '' '' @ to_string s) (assigned_slots n)) @ CRLF"

definition slot_entry :: "cluster_config \<Rightarrow> nat \<Rightarrow> string" where
  "slot_entry cfg slot =
     (let n = nodes cfg ! (slot mod length (nodes cfg))
      in ''*3'' @ CRLF @ int_reply (int slot) @ int_reply (int slot) @
         ''*3'' @ CRLF @ bulk_reply (ip_address n) @ int_reply (port n) @ bulk_reply (node_id n))"

text \<open>\<open>SLOTS\<close> divides by the number of nodes: without nodes the process dies.\<close>

definition handle_cluster :: "cmd_args \<Rightarrow> cluster_config \<Rightarrow> string option" where
  "handle_cluster args cfg =
     (if length args < 2 then Some (err ''CLUSTER requires at least 1 subcommand'')
      else if \<not> is_bulk (args ! 1) then Some (err ''CLUSTER subcommand must be a bulk string'')
      else if arg args 1 = ''NODES'' then Some (bulk_reply (concat (map node_line (nodes cfg))))
      else if arg args 1 = ''INFO'' then
        Some (bulk_reply (''cluster_state:ok'' @ CRLF @
          ''cluster_slots_assigned:'' @ to_string (total_slots cfg) @ CRLF @
          ''cluster_slots_ok:'' @ to_string (total_slots cfg) @ CRLF @
          ''cluster_size:'' @ size_string (length (nodes cfg)) @ CRLF))
      else if arg args 1 = ''SLOTS'' then
        (if 0 < total_slots cfg \<and> nodes cfg = [] then None
         else Some (''*'' @ to_string (total_slots cfg) @ CRLF @
           concat (map (slot_entry cfg) [0..<nat (total_slots cfg)])))
      else Some (err ''Unknown CLUSTER subcommand''))"

definition handle_info :: "save_daemon option \<Rightarrow> string" where
  "handle_info daemon =
     bulk_reply
       (''# Server'' @ CRLF @ ''redis_version:MinimalRedis-1.0'' @ CRLF @ ''redis_mode:standalone'' @ CRLF @
        ''os:macOS'' @ CRLF @ ''uptime_in_seconds:0'' @ CRLF @ ''connected_clients:1'' @ CRLF @
        [LF] @ ''# Memory'' @ CRLF @ ''used_memory:0'' @ CRLF @ ''total_system_memory:0'' @ CRLF @
        [LF] @ ''# Stats'' @ CRLF @ ''total_commands_processed:0'' @ CRLF @
        (case daemon of
           None \<Rightarrow> []
         | Some d \<Rightarrow>
             [LF] @ ''# Save Daemon'' @ CRLF @
             ''save_daemon_running:'' @ (if running d then ''yes'' else ''no'') @ CRLF @
             ''save_daemon_interval:'' @ to_string (save_interval d) @ CRLF @
             ''save_daemon_successful_saves:'' @ to_string (successful_saves d) @ CRLF @
             ''save_daemon_failed_saves:'' @ to_string (failed_saves d) @ CRLF))"

section \<open>Dispatch\<close>

text \<open>The processor of the client; a client has one from its connection to its clean-up.\<close>

definition client :: "int \<Rightarrow> 'l server \<Rightarrow> 'l processor" where
  "client fd srv = the (map_of (clients srv) fd)"

definition set_client :: "int \<Rightarrow> 'l processor \<Rightarrow> 'l server \<Rightarrow> 'l server" where
  "set_client fd p srv = srv\<lparr>clients := AList.update fd p (clients srv)\<rparr>"

definition on_client :: "int \<Rightarrow> ('l processor \<Rightarrow> string \<times> 'l processor) \<Rightarrow> 'l server \<Rightarrow> string option \<times> 'l server" where
  "on_client fd f srv = (let (r, p) = f (client fd srv) in (Some r, set_client fd p srv))"

definition routed :: "string \<Rightarrow> bool" where
  "routed name \<longleftrightarrow> name \<in> {''SET'', ''GET'', ''DEL'', ''EXISTS''}"

text \<open>The redirection of a key command in cluster mode.\<close>

definition moved :: "'l environment \<Rightarrow> string \<Rightarrow> cmd_args \<Rightarrow> 'l server \<Rightarrow> string option" where
  "moved env name args srv =
     (if enabled (cluster srv) \<and> 1 < length args \<and> routed name \<and> is_bulk (args ! 1) then
        (case get_node_for_key (hash env) (arg args 1) (cluster srv) of
           None \<Rightarrow> None
         | Some n \<Rightarrow>
             if node_id n \<noteq> my_node_id (cluster srv)
             then Some (minus_reply (''MOVED '' @ size_string (key_slot (hash env) (cluster srv) (arg args 1)) @
               '' '' @ ip_address n @ '':'' @ to_string (port n)))
             else None)
      else None)"

definition execute :: "'l environment \<Rightarrow> int \<Rightarrow> string \<Rightarrow> cmd_args \<Rightarrow> 'l server \<Rightarrow> string option \<times> 'l server" where
  "execute env fd name args srv =
     (case map_of (queued_commands @ expiry_commands) name of
        Some h \<Rightarrow> (let (r, srv') = on_keyspace h (clocks env 0) args srv in (Some r, srv'))
      | None \<Rightarrow>
          if name = ''SAVE'' then (let (r, srv') = handle_save (save_opens env 0) args srv in (Some r, srv'))
          else if name = ''MULTI'' then on_client fd (handle_multi args) srv
          else if name = ''EXEC'' then
            (let (r, p, srv') = handle_exec env args (client fd srv) srv in (Some r, set_client fd p srv'))
          else if name = ''DISCARD'' then on_client fd (handle_discard args) srv
          else if name = ''WATCH'' then on_client fd (handle_watch args (keyspace srv)) srv
          else if name = ''UNWATCH'' then on_client fd (handle_unwatch args) srv
          else if name = ''SUBSCRIBE'' then
            (let (r, db) = handle_subscribe fd args (keyspace srv) in (Some r, srv\<lparr>keyspace := db\<rparr>))
          else if name = ''PUBLISH'' then (let (r, srv') = handle_publish args srv in (Some r, srv'))
          else if name = ''UNSUBSCRIBE'' then
            (let (r, db) = handle_unsubscribe fd args (keyspace srv) in (Some r, srv\<lparr>keyspace := db\<rparr>))
          else if name = ''EVAL'' then
            (let (r, p, db) = handle_eval env args (client fd srv) (keyspace srv)
             in (r, set_client fd p (srv\<lparr>keyspace := db\<rparr>)))
          else if name = ''EVALSHA'' then
            (let (r, p, db) = handle_evalsha env args (client fd srv) (keyspace srv)
             in (r, set_client fd p (srv\<lparr>keyspace := db\<rparr>)))
          else if name = ''SCRIPT'' then on_client fd (handle_script args) srv
          else if name = ''CLUSTER'' then (handle_cluster args (cluster srv), srv)
          else if name = ''INFO'' then (Some (handle_info (save_daemon_ptr env)), srv)
          else (Some (err ''Unknown command''), srv))"

definition upper :: "string \<Rightarrow> string" where
  "upper s = map toupper s"

definition queue_command :: "string \<Rightarrow> cmd_args \<Rightarrow> 'l processor \<Rightarrow> string \<times> 'l processor" where
  "queue_command name args p =
     (simple_reply ''QUEUED'', p\<lparr>transaction_queue := transaction_queue p @ [(name, args)]\<rparr>)"

definition process_command :: "'l environment \<Rightarrow> int \<Rightarrow> RespValue \<Rightarrow> 'l server \<Rightarrow> string option \<times> 'l server" where
  "process_command env fd cmd srv =
     (if resp_type cmd \<noteq> Array \<or> resp_array cmd = [] then (Some (err ''Invalid command format''), srv)
      else let args = resp_array cmd
           in if \<not> is_bulk (args ! 0) then (Some (err ''Command name must be a bulk string''), srv)
              else let name = upper (arg args 0)
                   in if in_transaction (client fd srv) \<and> name \<noteq> ''EXEC'' \<and> name \<noteq> ''DISCARD''
                      then on_client fd (queue_command name args) srv
                      else case moved env name args srv of
                        Some r \<Rightarrow> (Some r, srv)
                      | None \<Rightarrow> execute env fd name args srv)"

end
