(* ===== verification/Processor_Laws.thy ===== *)
theory Processor_Laws
  imports Processor
begin

text \<open>
  What the command processor promises: the well-formedness of the shared state and the registry
  are kept by every command, and what MULTI, the queued requests, DISCARD and EXEC do to the
  state of a client.
\<close>

section \<open>The invariant of the server\<close>

definition proc_wf :: "'l processor \<Rightarrow> bool" where
  "proc_wf p \<longleftrightarrow> umap_wf (watched_keys p) \<and> list_all one_reply (pubsub_messages p) \<and>
     (\<not> in_transaction p \<longrightarrow> transaction_queue p = [])"

definition clients_wf :: "(int, 'l processor) umap \<Rightarrow> bool" where
  "clients_wf cs \<longleftrightarrow> umap_wf cs \<and> list_all (\<lambda>(fd, p). proc_wf p) cs"

definition server_wf :: "'l server \<Rightarrow> bool" where
  "server_wf srv \<longleftrightarrow> db_wf (keyspace srv) \<and> clients_wf (clients srv)"

definition registered :: "int \<Rightarrow> 'l server \<Rightarrow> bool" where
  "registered fd srv \<longleftrightarrow> fd \<in> fst ` set (clients srv)"

lemma registered_client: "registered fd srv \<Longrightarrow> map_of (clients srv) fd = Some (client fd srv)"
  unfolding registered_def client_def by (metis domIff dom_map_of_conv_image_fst option.collapse)

lemma clients_wf_lookup: "clients_wf cs \<Longrightarrow> map_of cs fd = Some p \<Longrightarrow> proc_wf p"
  by (auto simp: clients_wf_def list_all_iff dest: map_of_SomeD)

lemma clients_wf_update: "clients_wf cs \<Longrightarrow> proc_wf p \<Longrightarrow> clients_wf (AList.update fd p cs)"
  using set_update_subset [of fd p cs] by (fastforce simp: clients_wf_def list_all_iff)

lemma clients_wf_delete: "clients_wf cs \<Longrightarrow> clients_wf (AList.delete fd cs)"
  using set_delete_subset [of fd cs] by (auto simp: clients_wf_def list_all_iff)

lemma one_three:
  "one_reply a \<Longrightarrow> one_reply b \<Longrightarrow> one_reply c \<Longrightarrow> one_reply (''*3'' @ CRLF @ a @ b @ c)"
  using one_array [of "[a, b, c]"] by (simp add: to_string_def nat_digits.simps digit_char_def char_of_def bit_0)

lemma one_message: "one_reply (message_text ch msg)"
  unfolding message_text_def by (intro one_three one_bulk)

lemma one_channel_reply: "- (2 ^ 63) \<le> n \<Longrightarrow> n < 2 ^ 63 \<Longrightarrow> one_reply (channel_reply kind ch n)"
  unfolding channel_reply_def by (intro one_three one_bulk one_int)

lemma proc_wf_queue: "proc_wf p \<Longrightarrow> one_reply m \<Longrightarrow> proc_wf (queue_pubsub_message m p)"
  by (simp add: proc_wf_def queue_pubsub_message_def Let_def)

lemma clients_wf_deliver: "clients_wf cs \<Longrightarrow> one_reply m \<Longrightarrow> clients_wf (deliver m fd cs)"
  by (auto simp: deliver_def split: option.split intro: clients_wf_update proc_wf_queue clients_wf_lookup)

lemma clients_wf_publish: "clients_wf cs \<Longrightarrow> one_reply m \<Longrightarrow> clients_wf (fold (deliver m) fds cs)"
  by (induction fds arbitrary: cs) (simp_all add: clients_wf_deliver)

lemma dom_deliver: "fst ` set (deliver m fd cs) = fst ` set cs"
  by (auto simp: deliver_def dom_update split: option.split dest: map_of_Some_in)

lemma dom_publish: "fst ` set (fold (deliver m) fds cs) = fst ` set cs"
  by (induction fds arbitrary: cs) (simp_all add: dom_deliver)

lemma set_client_simps [simp]:
  "keyspace (set_client fd p srv) = keyspace srv" "snapshot (set_client fd p srv) = snapshot srv"
  "cluster (set_client fd p srv) = cluster srv" "client fd (set_client fd p srv) = p"
  "fd' \<noteq> fd \<Longrightarrow> client fd' (set_client fd p srv) = client fd' srv"
  "registered fd' (set_client fd p srv) \<longleftrightarrow> fd' = fd \<or> registered fd' srv"
  by (auto simp: set_client_def client_def registered_def dom_update)

lemma client_keyspace [simp]: "client fd (srv\<lparr>keyspace := db\<rparr>) = client fd srv"
  by (simp add: client_def)

lemma server_wf_set_client: "server_wf srv \<Longrightarrow> proc_wf p \<Longrightarrow> server_wf (set_client fd p srv)"
  by (simp add: server_wf_def set_client_def clients_wf_update)

lemma server_wf_keyspace: "server_wf srv \<Longrightarrow> db_wf db \<Longrightarrow> server_wf (srv\<lparr>keyspace := db\<rparr>)"
  by (simp add: server_wf_def)

lemma server_wf_client: "server_wf srv \<Longrightarrow> registered fd srv \<Longrightarrow> proc_wf (client fd srv)"
  by (auto simp: server_wf_def intro: clients_wf_lookup registered_client)

lemma table_map_of: "map_of (queued_commands @ expiry_commands) name = Some h \<Longrightarrow> command h"
  by (rule table_commands) (rule map_of_SomeD)

lemma queued_map_of: "map_of queued_commands name = Some h \<Longrightarrow> command h"
  by (rule table_commands [of name]) (auto dest: map_of_SomeD)

lemma on_keyspace_wf: "server_wf srv \<Longrightarrow> command h \<Longrightarrow> server_wf (snd (on_keyspace h clk args srv))"
  by (auto simp: on_keyspace_def case_prod_beta Let_def server_wf_def command.wf)

lemma handle_save_wf: "server_wf srv \<Longrightarrow> server_wf (snd (handle_save opened args srv))"
  by (simp add: handle_save_def save_rdb_def server_wf_def)

lemma run_queued_wf: "server_wf srv \<Longrightarrow> server_wf (snd (run_queued env i c srv))"
  by (auto simp: run_queued_def handle_save_wf split: prod.split option.split intro: on_keyspace_wf queued_map_of)

lemma run_queue_wf: "server_wf srv \<Longrightarrow> server_wf (snd (run_queue env i cs srv))"
proof (induction cs arbitrary: i srv)
  case (Cons c cs)
  then show ?case using run_queued_wf [of srv env i c] by (simp add: case_prod_beta Let_def)
qed simp

text \<open>Queued commands only touch the keyspace and the snapshot.\<close>

lemma on_keyspace_rest [simp]:
  "clients (snd (on_keyspace h clk args srv)) = clients srv"
  "cluster (snd (on_keyspace h clk args srv)) = cluster srv"
  by (simp_all add: on_keyspace_def case_prod_beta Let_def)

lemma handle_save_rest [simp]:
  "clients (snd (handle_save opened args srv)) = clients srv"
  "cluster (snd (handle_save opened args srv)) = cluster srv"
  "keyspace (snd (handle_save opened args srv)) = keyspace srv"
  by (simp_all add: handle_save_def save_rdb_def)

lemma run_queued_rest [simp]:
  "clients (snd (run_queued env i c srv)) = clients srv" "cluster (snd (run_queued env i c srv)) = cluster srv"
  by (simp_all add: run_queued_def split: prod.split option.split)

lemma run_queue_rest [simp]:
  "clients (snd (run_queue env i cs srv)) = clients srv" "cluster (snd (run_queue env i cs srv)) = cluster srv"
  by (induction cs arbitrary: i srv) (simp_all add: case_prod_beta Let_def)

lemma proc_wf_end [simp]: "proc_wf p \<Longrightarrow> proc_wf (end_transaction p)"
  by (simp add: proc_wf_def end_transaction_def)

lemma proc_wf_watch: "proc_wf p \<Longrightarrow> proc_wf (snd (watch_loop rest db p))"
  by (induction rest arbitrary: p) (auto simp: proc_wf_def umap_wf_update)

lemma proc_wf_engine [simp]: "proc_wf (p\<lparr>engine := e\<rparr>) = proc_wf p"
  by (simp add: proc_wf_def)

lemma proc_wf_handlers:
  assumes "proc_wf p"
  shows "proc_wf (snd (handle_multi args p))" "proc_wf (snd (handle_discard args p))"
    "proc_wf (snd (handle_watch args db p))" "proc_wf (snd (handle_unwatch args p))"
    "proc_wf (snd (handle_script args p))"
    "in_transaction p \<Longrightarrow> proc_wf (snd (queue_command name args p))"
    "proc_wf (fst (snd (handle_exec env args p srv)))"
    "proc_wf (fst (snd (handle_eval env args p d)))" "proc_wf (fst (snd (handle_evalsha env args p d)))"
  using assms proc_wf_watch [OF assms, of "drop 1 args" db]
  by (auto simp: handle_multi_def handle_discard_def handle_watch_def handle_unwatch_def handle_script_def
      queue_command_def handle_exec_def handle_eval_def handle_evalsha_def case_prod_beta Let_def
      split: option.split sum.split, auto simp: proc_wf_def)

lemma db_wf_pubsub: "db_wf db \<Longrightarrow> pubsub_wf p \<Longrightarrow> db_wf (db\<lparr>pubsub := p\<rparr>)"
  by (simp add: db_wf_def all_values_def)

lemma db_wf_pubsubD: "db_wf db \<Longrightarrow> pubsub_wf (pubsub db)"
  by (simp add: db_wf_def)

lemma subscribe_loop_wf: "db_wf db \<Longrightarrow> db_wf (snd (subscribe_loop fd rest r db))"
  by (induction rest arbitrary: r db) (simp_all add: db_wf_pubsub pubsub_wf_subscribe db_wf_pubsubD)

lemma unsubscribe_loop_wf: "db_wf db \<Longrightarrow> db_wf (snd (unsubscribe_loop fd rest r db))"
  by (induction rest arbitrary: r db) (simp_all add: db_wf_pubsub pubsub_wf_unsubscribe db_wf_pubsubD)

lemma handle_subscriptions_wf:
  assumes "db_wf db"
  shows "db_wf (snd (handle_subscribe fd args db))" "db_wf (snd (handle_unsubscribe fd args db))"
  using assms by (auto simp: handle_subscribe_def handle_unsubscribe_def subscribe_loop_wf unsubscribe_loop_wf)

lemma handle_publish_wf: "server_wf srv \<Longrightarrow> server_wf (snd (handle_publish args srv))"
  by (auto simp: handle_publish_def server_wf_def Let_def clients_wf_publish one_message)

lemma handle_scripts_wf:
  assumes "db_wf db"
  shows "db_wf (snd (snd (handle_eval env args p db)))" "db_wf (snd (snd (handle_evalsha env args p db)))"
  using assms by (auto simp: handle_eval_def handle_evalsha_def case_prod_beta Let_def eval_db_wf evalsha_db_wf
      split: sum.split)

lemma handle_exec_wf: "server_wf srv \<Longrightarrow> server_wf (snd (snd (handle_exec env args p srv)))"
  by (auto simp: handle_exec_def case_prod_beta Let_def run_queue_wf)

lemma handle_exec_clients [simp]: "clients (snd (snd (handle_exec env args p srv))) = clients srv"
  by (simp add: handle_exec_def case_prod_beta Let_def)

lemma execute_wf:
  assumes "server_wf srv" "registered fd srv"
  shows "server_wf (snd (execute env fd name args srv))"
proof (cases "map_of (queued_commands @ expiry_commands) name")
  case (Some h)
  then show ?thesis
    using on_keyspace_wf [OF assms(1) table_map_of [OF Some]]
    unfolding execute_def Some option.case by (simp add: case_prod_beta Let_def)
next
  case None
  have "proc_wf (client fd srv)" "db_wf (keyspace srv)"
    using server_wf_client [OF assms] assms(1) by (simp_all add: server_wf_def)
  then show ?thesis
    using assms(1) unfolding execute_def None option.case on_client_def
    by (auto simp: case_prod_beta Let_def intro!: server_wf_set_client server_wf_keyspace proc_wf_handlers
        handle_save_wf handle_exec_wf handle_subscriptions_wf handle_publish_wf handle_scripts_wf)
qed

lemma process_command_wf:
  assumes "server_wf srv" "registered fd srv"
  shows "server_wf (snd (process_command env fd cmd srv))"
  using assms server_wf_client [OF assms]
  by (auto simp: process_command_def Let_def on_client_def case_prod_beta execute_wf proc_wf_handlers
      intro!: server_wf_set_client split: option.split)

lemma registered_keyspace [simp]: "registered fd (srv\<lparr>keyspace := db\<rparr>) = registered fd srv"
  by (simp add: registered_def)

lemma registered_same_clients: "clients srv = clients srv' \<Longrightarrow> registered fd srv = registered fd srv'"
  by (simp add: registered_def)

lemma execute_registered:
  assumes "registered fd srv"
  shows "registered fd' (snd (execute env fd name args srv)) = registered fd' srv"
proof (cases "map_of (queued_commands @ expiry_commands) name")
  case (Some h)
  then show ?thesis unfolding execute_def Some option.case by (simp add: case_prod_beta Let_def registered_def)
next
  case None
  have same: "registered fd' (set_client fd p srv') = registered fd' srv" if "clients srv' = clients srv" for p srv'
    using assms registered_same_clients [OF that] by auto
  have "registered fd' (snd (handle_publish args srv)) = registered fd' srv"
    "registered fd' (snd (handle_save (save_opens env 0) args srv)) = registered fd' srv"
    by (simp_all add: handle_publish_def Let_def registered_def dom_publish)
  then show ?thesis
    unfolding execute_def None option.case on_client_def
    by (simp add: case_prod_beta Let_def same del: set_client_simps)
qed

lemma process_command_registered:
  "registered fd srv \<Longrightarrow> registered fd' (snd (process_command env fd cmd srv)) = registered fd' srv"
  by (auto simp: process_command_def Let_def on_client_def case_prod_beta execute_registered split: option.split)

section \<open>Transactions\<close>

definition request :: "string list \<Rightarrow> RespValue" where
  "request ws = RespValue Array [] 0 (map bulk ws)"

lemma request_simps [simp]:
  "resp_type (request ws) = Array" "resp_array (request ws) = map bulk ws"
  "resp_type (bulk s) = BulkString" "resp_str (bulk s) = s"
  by (simp_all add: request_def bulk_def)

lemma upper_names [simp]:
  "upper ''MULTI'' = ''MULTI''" "upper ''EXEC'' = ''EXEC''" "upper ''DISCARD'' = ''DISCARD''"
  "upper ''WATCH'' = ''WATCH''" "upper ''SET'' = ''SET''" "upper ''DEL'' = ''DEL''" "upper ''EVAL'' = ''EVAL''"
  "upper ''PUBLISH'' = ''PUBLISH''" "upper ''SUBSCRIBE'' = ''SUBSCRIBE''"
  by (simp_all add: upper_def toupper_def ord_def)

lemma not_data_command [simp]:
  "(map_of expiry_commands ++ map_of queued_commands) ''MULTI'' = None" "(map_of expiry_commands ++ map_of queued_commands) ''EXEC'' = None"
  "(map_of expiry_commands ++ map_of queued_commands) ''DISCARD'' = None" "(map_of expiry_commands ++ map_of queued_commands) ''WATCH'' = None"
  "(map_of expiry_commands ++ map_of queued_commands) ''EVAL'' = None" "(map_of expiry_commands ++ map_of queued_commands) ''PUBLISH'' = None"
  "(map_of expiry_commands ++ map_of queued_commands) ''SUBSCRIBE'' = None"
  by (simp_all add: queued_commands_def expiry_commands_def map_add_def)

lemma not_routed [simp]:
  "moved env ''MULTI'' args srv = None" "moved env ''EXEC'' args srv = None" "moved env ''DISCARD'' args srv = None"
  "moved env ''WATCH'' args srv = None" "moved env ''EVAL'' args srv = None" "moved env ''PUBLISH'' args srv = None"
  "moved env ''SUBSCRIBE'' args srv = None"
  by (simp_all add: moved_def routed_def)

primrec process_all ::
  "'l environment \<Rightarrow> int \<Rightarrow> RespValue list \<Rightarrow> 'l server \<Rightarrow> string option list \<times> 'l server" where
  "process_all env fd [] srv = ([], srv)"
| "process_all env fd (c # cs) srv =
     (let (r, srv') = process_command env fd c srv; (rs, srv'') = process_all env fd cs srv' in (r # rs, srv''))"

lemma process_all_append:
  "process_all env fd (cs @ ds) srv =
     (let (rs, srv') = process_all env fd cs srv; (rs', srv'') = process_all env fd ds srv' in (rs @ rs', srv''))"
  by (induction cs arbitrary: srv) (simp_all add: case_prod_beta Let_def)

text \<open>A request that is queued while the client is in a transaction.\<close>

definition tx_command :: "RespValue \<Rightarrow> bool" where
  "tx_command c \<longleftrightarrow> resp_type c = Array \<and> resp_array c \<noteq> [] \<and> is_bulk (resp_array c ! 0) \<and>
     upper (arg (resp_array c) 0) \<notin> {''EXEC'', ''DISCARD''}"

definition tx_entry :: "RespValue \<Rightarrow> string \<times> cmd_args" where
  "tx_entry c = (upper (arg (resp_array c) 0), resp_array c)"

lemma set_client_twice [simp]: "set_client fd p (set_client fd q srv) = set_client fd p srv"
  by (simp add: set_client_def update_update)

lemma set_client_same: "registered fd srv \<Longrightarrow> set_client fd (client fd srv) srv = srv"
  using registered_client [of fd srv] by (simp add: set_client_def update_id_conv)

lemma process_tx_command:
  assumes "in_transaction (client fd srv)" "tx_command c"
  shows "process_command env fd c srv =
    (Some (simple_reply ''QUEUED''),
     set_client fd ((client fd srv)\<lparr>transaction_queue := transaction_queue (client fd srv) @ [tx_entry c]\<rparr>) srv)"
  using assms by (simp add: process_command_def tx_command_def tx_entry_def queue_command_def on_client_def Let_def)

lemma process_tx_commands:
  assumes "registered fd srv" "in_transaction (client fd srv)" "list_all tx_command cs"
  shows "process_all env fd cs srv =
    (replicate (length cs) (Some (simple_reply ''QUEUED'')),
     set_client fd ((client fd srv)\<lparr>transaction_queue := transaction_queue (client fd srv) @ map tx_entry cs\<rparr>) srv)"
  using assms
proof (induction cs arbitrary: srv)
  case Nil
  then show ?case by (simp add: set_client_same)
next
  case (Cons c cs)
  let ?p = "(client fd srv)\<lparr>transaction_queue := transaction_queue (client fd srv) @ [tx_entry c]\<rparr>"
  have "process_all env fd cs (set_client fd ?p srv) =
      (replicate (length cs) (Some (simple_reply ''QUEUED'')),
       set_client fd (?p\<lparr>transaction_queue := transaction_queue ?p @ map tx_entry cs\<rparr>) srv)"
    using Cons.IH [of "set_client fd ?p srv"] Cons.prems by simp
  then show ?case using process_tx_command [of fd srv c env] Cons.prems by simp
qed

lemma process_multi:
  assumes "\<not> in_transaction (client fd srv)"
  shows "process_command env fd (request [''MULTI'']) srv =
    (Some ok_reply, set_client fd ((client fd srv)\<lparr>in_transaction := True, transaction_queue := []\<rparr>) srv)"
  using assms by (simp add: process_command_def execute_def on_client_def handle_multi_def Let_def)

lemma process_exec:
  "process_command env fd (request [''EXEC'']) srv =
     (let (r, p, srv') = handle_exec env [bulk ''EXEC''] (client fd srv) srv in (Some r, set_client fd p srv'))"
  by (simp add: process_command_def execute_def Let_def)

lemma process_discard:
  assumes "in_transaction (client fd srv)"
  shows "process_command env fd (request [''DISCARD'']) srv =
    (Some ok_reply, set_client fd ((client fd srv)\<lparr>transaction_queue := [], in_transaction := False\<rparr>) srv)"
  using assms by (simp add: process_command_def execute_def on_client_def handle_discard_def Let_def)

lemma run_queued_set_client:
  "run_queued env i c (set_client fd p srv) =
     (fst (run_queued env i c srv), set_client fd p (snd (run_queued env i c srv)))"
  by (cases c) (auto simp: run_queued_def handle_save_def save_rdb_def on_keyspace_def set_client_def
      case_prod_beta Let_def split: option.split)

lemma run_queue_set_client:
  "run_queue env i cs (set_client fd p srv) =
     (fst (run_queue env i cs srv), set_client fd p (snd (run_queue env i cs srv)))"
  by (induction cs arbitrary: i srv) (simp_all add: run_queued_set_client case_prod_beta Let_def)

lemma length_run_queue [simp]: "length (fst (run_queue env i cs srv)) = length cs"
  by (induction cs arbitrary: i srv) (simp_all add: case_prod_beta Let_def)

lemma watch_broken_queue [simp]:
  "watch_broken (p\<lparr>transaction_queue := q\<rparr>) db = watch_broken p db"
  "watch_broken (p\<lparr>in_transaction := b\<rparr>) db = watch_broken p db"
  by (simp_all add: watch_broken_def)

lemma end_transaction_update [simp]:
  "end_transaction (p\<lparr>transaction_queue := q\<rparr>) = end_transaction p"
  "end_transaction (p\<lparr>in_transaction := b\<rparr>) = end_transaction p"
  by (simp_all add: end_transaction_def)

lemma process_transaction:
  assumes "registered fd srv" "\<not> in_transaction (client fd srv)" "list_all tx_command cs"
  shows "process_all env fd (request [''MULTI''] # cs) srv =
    (Some ok_reply # replicate (length cs) (Some (simple_reply ''QUEUED'')),
     set_client fd ((client fd srv)\<lparr>in_transaction := True, transaction_queue := map tx_entry cs\<rparr>) srv)"
  using assms process_tx_commands [of fd
      "set_client fd ((client fd srv)\<lparr>in_transaction := True, transaction_queue := []\<rparr>) srv" cs env]
  by (simp add: process_multi)

lemma moved_cong: "cluster srv = cluster srv' \<Longrightarrow> moved env name args srv = moved env name args srv'"
  by (simp only: moved_def)

lemma process_data:
  assumes "\<not> in_transaction (client fd srv)" "moved env (upper w) (map bulk (w # ws)) srv = None"
    and "map_of (queued_commands @ expiry_commands) (upper w) = Some h"
  shows "process_command env fd (request (w # ws)) srv =
    (Some (fst (h (clocks env 0) (map bulk (w # ws)) (keyspace srv))),
     srv\<lparr>keyspace := snd (h (clocks env 0) (map bulk (w # ws)) (keyspace srv))\<rparr>)"
  using assms by (simp add: process_command_def execute_def on_keyspace_def case_prod_beta Let_def)

text \<open>Commands of several clients, one after the other.\<close>

primrec process_from :: "('l environment \<times> int \<times> RespValue) list \<Rightarrow> 'l server \<Rightarrow> string option list \<times> 'l server" where
  "process_from [] srv = ([], srv)"
| "process_from (c # cs) srv =
     (case c of (env, fd, cmd) \<Rightarrow>
        let (r, srv1) = process_command env fd cmd srv; (rs, srv2) = process_from cs srv1 in (r # rs, srv2))"

end
