(* ===== verification/Transactions.thy ===== *)
theory Transactions
  imports Processor_Laws
begin

text \<open>
  Transactions and optimistic locking: MULTI, EXEC, DISCARD and WATCH over the command
  processor.  The locale \<open>versioned\<close> states what WATCH needs from a data command: an entry
  that survives the command with its counter unchanged is the same entry.
\<close>

section \<open>Interface: a command under a version counter\<close>

locale versioned =
  fixes h :: handler and guard :: "cmd_args \<Rightarrow> database \<Rightarrow> bool"
  assumes same_version:
    "guard args db \<Longrightarrow> entry k db = Some v \<Longrightarrow> entry k (snd (h clk args db)) = Some v' \<Longrightarrow>
       mod_count v' = mod_count v \<Longrightarrow> v' = v"
begin

text \<open>A change of the entry changes the number that WATCH compares, unless the entry is erased and
  its counter was 0.\<close>

lemma change_detected:
  assumes "guard args db" "entry k (snd (h clk args db)) \<noteq> entry k db" "db_get_mod_count k db \<noteq> 0"
  shows "db_get_mod_count k (snd (h clk args db)) \<noteq> db_get_mod_count k db"
proof (cases "entry k db")
  case None
  then show ?thesis using assms(3) by (simp add: db_get_mod_count_def)
next
  case (Some v)
  show ?thesis
  proof (cases "entry k (snd (h clk args db))")
    case None
    then show ?thesis using assms(3) Some by (simp add: db_get_mod_count_def)
  next
    case (Some v')
    then show ?thesis
      using same_version [OF assms(1) \<open>entry k db = Some v\<close> Some] assms(2) \<open>entry k db = Some v\<close>
      by (auto simp: db_get_mod_count_def)
  qed
qed

end

lemma versioned_read_only: "(\<And>clk args db. snd (h clk args db) = db) \<Longrightarrow> versioned h guard"
  by unfold_locales simp

text \<open>Operations that only look: the entry stays or is erased.\<close>

definition only_erases :: "string \<Rightarrow> database \<Rightarrow> database \<Rightarrow> bool" where
  "only_erases key db db' \<longleftrightarrow> (\<forall>k. k \<noteq> key \<longrightarrow> entry k db' = entry k db) \<and>
     (entry key db' = entry key db \<or> entry key db' = None)"

lemma only_erases_refl [simp]: "only_erases key db db"
  by (simp add: only_erases_def)

lemma only_erases_trans: "only_erases key a b \<Longrightarrow> only_erases key b c \<Longrightarrow> only_erases key a c"
  by (auto simp: only_erases_def)

lemma only_erases_ops [simp]:
  "only_erases key db (snd (db_exists now key db))" "only_erases key db (snd (db_type now key db))"
  "only_erases key db (snd (db_get now key db))" "only_erases key db (snd (db_llen now key db))"
  "only_erases key db (snd (db_ttl now now' key db))" "only_erases key db (snd (db_pttl now now' key db))"
  "only_erases key db (snd (db_del key db))"
  by (auto simp: only_erases_def db_defs split: option.split)

lemma versioned_erasing:
  assumes "\<And>clk args db. only_erases (arg args 1) db (snd (h clk args db))"
  shows "versioned h guard"
proof
  fix args db k v clk v'
  assume "entry k db = Some v" "entry k (snd (h clk args db)) = Some v'"
  then show "v' = v" using assms [of args db clk] by (cases "k = arg args 1") (auto simp: only_erases_def)
qed

text \<open>Operations followed by an increment of the counter.\<close>

lemma increment_changes: "(n :: 64 word) + 1 \<noteq> n"
  by simp

definition keeps_count :: "string \<Rightarrow> database \<Rightarrow> database \<Rightarrow> bool" where
  "keeps_count key db db' \<longleftrightarrow> (\<forall>k. k \<noteq> key \<longrightarrow> entry k db' = entry k db) \<and>
     (\<forall>v v'. entry key db = Some v \<longrightarrow> entry key db' = Some v' \<longrightarrow> mod_count v' = mod_count v)"

definition bumped :: "string \<Rightarrow> database \<Rightarrow> database \<Rightarrow> bool" where
  "bumped key db db' \<longleftrightarrow> (\<forall>k. k \<noteq> key \<longrightarrow> entry k db' = entry k db) \<and>
     (\<forall>v v'. entry key db = Some v \<longrightarrow> entry key db' = Some v' \<longrightarrow> mod_count v' = mod_count v \<longrightarrow> v' = v)"

lemma versioned_bumped: "(\<And>clk args db. guard args db \<Longrightarrow> bumped (arg args 1) db (snd (h clk args db))) \<Longrightarrow> versioned h guard"
  by unfold_locales (metis bumped_def option.inject)

lemma bumped_erases: "only_erases key db db' \<Longrightarrow> bumped key db db'"
  by (auto simp: only_erases_def bumped_def)

lemma bumped_increment:
  assumes "keeps_count key db db'" "entry key db' = None \<Longrightarrow> entry key db = None"
  shows "bumped key db (db_increment_mod_count key db')"
proof (cases "entry key db'")
  case (Some w)
  then have "mod_count w = mod_count v" if "entry key db = Some v" for v
    using assms(1) that by (simp add: keeps_count_def)
  with Some assms(1) show ?thesis by (simp add: bumped_def keeps_count_def)
qed (use assms in \<open>simp add: bumped_def keeps_count_def\<close>)

lemma keeps_count_ops:
  "keeps_count key db (snd (db_set key s db))" "keeps_count key db (snd (db_lpush key vals db))"
  "keeps_count key db (snd (db_rpush key vals db))" "keeps_count key db (snd (db_lpop key db))"
  "keeps_count key db (snd (db_rpop key db))" "keeps_count key db (snd (db_sadd key vals db))"
  "keeps_count key db (snd (db_srem key vals db))" "keeps_count key db (snd (db_hset key fld s db))"
  "keeps_count key db (snd (db_hdel key vals db))" "keeps_count key db (snd (db_zadd key ps db))"
  "keeps_count key db (snd (db_zrem key vals db))" "keeps_count key db (snd (db_expire now now' key n db))"
  "keeps_count key db (snd (db_pexpire now now' key n db))" "keeps_count key db (snd (db_persist now key db))"
  by (auto simp: keeps_count_def db_defs db_zadd_def db_zrem_def Let_def at_key_def zadd_other_fields
      zrem_other_fields case_prod_beta set_expiry_seconds_def set_expiry_milliseconds_def persist_value_def
      split: option.splits if_splits list.splits)

lemma bumped_count_mod:
  assumes "keeps_count key db db'" "b \<Longrightarrow> entry key db' \<noteq> None" "\<not> b \<Longrightarrow> only_erases key db db'"
  shows "bumped key db (count_mod b key db')"
  using assms by (auto simp: count_mod_def intro: bumped_increment bumped_erases)

lemma filter_same_length: "length xs \<le> length (filter P xs) \<Longrightarrow> filter P xs = xs"
  by (metis filter_True length_filter_less not_less)

lemma uset_erase_all_filter: "uset_erase_all ms s = filter (\<lambda>x. x \<notin> set ms) s"
  by (induction ms arbitrary: s) (auto simp: uset_erase_all_def uset_erase_def filter_filter intro: filter_cong)

lemma fold_delete_filter: "fold AList.delete flds h = filter (\<lambda>p. fst p \<notin> set flds) h"
  by (induction flds arbitrary: h) (auto simp: AList.delete_eq case_prod_beta intro!: filter_cong)

lemma uset_insert_all_prefix: "\<exists>t. uset_insert_all ms s = s @ t"
proof (induction ms arbitrary: s)
  case (Cons m ms)
  obtain t where "uset_insert_all ms (uset_insert m s) = uset_insert m s @ t" using Cons.IH by blast
  then show ?case by (auto simp: uset_insert_all_def uset_insert_def)
qed (simp add: uset_insert_all_def)

lemma zrem_one_none: "\<not> fst (zrem_one m bv) \<Longrightarrow> \<not> fst bv \<and> zrem_one m bv = bv"
  by (cases bv) (auto simp: zrem_one_def split: option.splits)

lemma zrem_none: "\<not> fst (fold zrem_one ms bv) \<Longrightarrow> \<not> fst bv \<and> snd (fold zrem_one ms bv) = snd bv"
proof (induction ms arbitrary: bv)
  case (Cons m ms)
  then have "\<not> fst (zrem_one m bv)" "snd (fold zrem_one ms (zrem_one m bv)) = snd (zrem_one m bv)"
    using Cons.IH [of "zrem_one m bv"] by simp_all
  then show ?case using zrem_one_none [of m bv] by simp
qed simp

lemma unchanged_ops:
  "fst (db_srem key vals db) = 0 \<Longrightarrow> only_erases key db (snd (db_srem key vals db))"
  "\<not> fst (db_hdel key vals db) \<Longrightarrow> only_erases key db (snd (db_hdel key vals db))"
  "\<not> fst (db_zrem key vals db) \<Longrightarrow> only_erases key db (snd (db_zrem key vals db))"
  "\<not> fst (db_expire now now' key n db) \<Longrightarrow> only_erases key db (snd (db_expire now now' key n db))"
  "\<not> fst (db_pexpire now now' key n db) \<Longrightarrow> only_erases key db (snd (db_pexpire now now' key n db))"
  "\<not> fst (db_persist now key db) \<Longrightarrow> only_erases key db (snd (db_persist now key db))"
  by (auto simp: only_erases_def db_defs db_zrem_def Let_def case_prod_beta uset_erase_all_filter
      fold_delete_filter zrem_none filter_same_length split: option.splits if_splits)

lemma unchanged_sadd:
  assumes "has_type Set (entry key db)" "fst (db_sadd key vals db) = 0"
  shows "only_erases key db (snd (db_sadd key vals db))"
proof -
  obtain v where v: "entry key db = Some v" "value_type v = Set" using assms(1) by (auto simp: has_type_def split: option.splits)
  obtain t where t: "uset_insert_all vals (set_val v) = set_val v @ t" using uset_insert_all_prefix by blast
  then have "t = []" using assms(2) v by (simp add: db_sadd_def at_key_def Let_def)
  with t v show ?thesis by (simp add: only_erases_def db_sadd_def at_key_def Let_def)
qed

lemma entry_after_change:
  "entry key (snd (db_set key s db)) \<noteq> None" "entry key (snd (db_lpush key vals db)) \<noteq> None"
  "entry key (snd (db_rpush key vals db)) \<noteq> None" "entry key (snd (db_sadd key vals db)) \<noteq> None"
  "entry key (snd (db_hset key fld s db)) \<noteq> None" "entry key (snd (db_zadd key ps db)) \<noteq> None"
  "0 < fst (db_srem key vals db) \<Longrightarrow> entry key (snd (db_srem key vals db)) \<noteq> None"
  "fst (db_hdel key vals db) \<Longrightarrow> entry key (snd (db_hdel key vals db)) \<noteq> None"
  "fst (db_zrem key vals db) \<Longrightarrow> entry key (snd (db_zrem key vals db)) \<noteq> None"
  "fst (db_expire now now' key n db) \<Longrightarrow> entry key (snd (db_expire now now' key n db)) \<noteq> None"
  "fst (db_pexpire now now' key n db) \<Longrightarrow> entry key (snd (db_pexpire now now' key n db)) \<noteq> None"
  "fst (db_persist now key db) \<Longrightarrow> entry key (snd (db_persist now key db)) \<noteq> None"
  by (auto simp: db_defs db_zadd_def db_zrem_def Let_def case_prod_beta split: option.splits if_splits)

lemmas entry_exists = entry_after_change [unfolded not_None_eq]

section \<open>The data commands are versioned\<close>

abbreviation always :: "cmd_args \<Rightarrow> database \<Rightarrow> bool" where
  "always args db \<equiv> True"

lemma bumped_refl [simp]: "bumped key db db"
  by (simp add: bumped_def)

lemmas version_intros = bumped_count_mod bumped_increment keeps_count_ops unchanged_ops unchanged_sadd

interpretation set_ver: versioned handle_set always
  by (rule versioned_bumped) (auto simp: handle_set_def Let_def entry_after_change intro!: version_intros)

interpretation lpush_ver: versioned handle_lpush always
  by (rule versioned_bumped)
    (auto simp: handle_lpush_def Let_def case_prod_beta entry_after_change intro!: version_intros split: option.split)

interpretation rpush_ver: versioned handle_rpush always
  by (rule versioned_bumped)
    (auto simp: handle_rpush_def Let_def case_prod_beta entry_after_change intro!: version_intros split: option.split)

interpretation sadd_ver: versioned handle_sadd "\<lambda>args db. has_type Set (entry (arg args 1) db)"
  by (rule versioned_bumped)
    (auto simp: handle_sadd_def Let_def case_prod_beta entry_exists intro!: version_intros split: option.split)

interpretation srem_ver: versioned handle_srem always
  by (rule versioned_bumped)
    (auto simp: handle_srem_def Let_def case_prod_beta entry_exists intro!: version_intros split: option.split)

interpretation hdel_ver: versioned handle_hdel always
  by (rule versioned_bumped)
    (auto simp: handle_hdel_def Let_def case_prod_beta entry_exists intro!: version_intros split: option.split)

interpretation zrem_ver: versioned handle_zrem always
  by (rule versioned_bumped)
    (auto simp: handle_zrem_def Let_def case_prod_beta entry_exists intro!: version_intros split: option.split)

interpretation expire_ver: versioned handle_expire always
  by (rule versioned_bumped)
    (auto simp: handle_expire_def Let_def case_prod_beta entry_exists intro!: version_intros split: sum.split)

interpretation pexpire_ver: versioned handle_pexpire always
  by (rule versioned_bumped)
    (auto simp: handle_pexpire_def Let_def case_prod_beta entry_exists intro!: version_intros split: sum.split)

interpretation persist_ver: versioned handle_persist always
  by (rule versioned_bumped)
    (auto simp: handle_persist_def Let_def case_prod_beta entry_exists intro!: version_intros)

text \<open>Pops: an empty result on an existing key still counts.\<close>

lemma entry_pop: "entry key (snd (db_lpop key db)) = None \<Longrightarrow> entry key db = None"
  "entry key (snd (db_rpop key db)) = None \<Longrightarrow> entry key db = None"
  by (auto simp: db_lpop_def db_rpop_def split: option.splits list.splits if_splits)

lemma bumped_pop_reply:
  assumes "keeps_count key db (snd r)" "entry key (snd r) = None \<Longrightarrow> entry key db = None"
  shows "bumped key db (snd (pop_reply clk key r))"
proof -
  obtain s db1 where r: "r = (s, db1)" by (cases r)
  let ?db2 = "snd (db_exists (clk 0) key db1)"
  have "?db2 = db1" if "fst (db_exists (clk 0) key db1)"
    using that by (intro db_exists_unchanged) (simp add: db_exists_live)
  moreover have "bumped key db ?db2" if "\<not> fst (db_exists (clk 0) key db1)"
  proof -
    have "entry key ?db2 = None" using that by (simp add: db_exists_live db_exists_entry)
    moreover have "k \<noteq> key \<Longrightarrow> entry k ?db2 = entry k db" for k
      using assms(1) by (simp add: r keeps_count_def other_key)
    ultimately show ?thesis by (simp add: bumped_def)
  qed
  moreover have "bumped key db (db_increment_mod_count key db1)"
    using assms(1,2) by (intro bumped_increment) (simp_all add: r)
  ultimately show ?thesis by (simp add: r pop_reply_def case_prod_beta Let_def)
qed

interpretation lpop_ver: versioned handle_lpop always
  by (rule versioned_bumped)
    (auto simp: handle_lpop_def intro!: bumped_pop_reply keeps_count_ops dest: entry_pop)

interpretation rpop_ver: versioned handle_rpop always
  by (rule versioned_bumped)
    (auto simp: handle_rpop_def intro!: bumped_pop_reply keeps_count_ops dest: entry_pop)

lemma db_zadd_result: "fst (db_zadd key ms db) \<longleftrightarrow> ms \<noteq> []"
  by (simp add: db_zadd_def)

interpretation zadd_ver: versioned handle_zadd always
proof (rule versioned_bumped)
  fix clk :: clock and args db
  have "ms \<noteq> []" if ms: "zadd_pairs (drop 2 args) = Inr ms" and long: "\<not> length args < 4" for ms
  proof -
    have "Suc (Suc 0) \<le> length (drop 2 args)" using long by simp
    then obtain c d rest where "drop 2 args = c # d # rest" unfolding Suc_le_length_iff by blast
    then show ?thesis using ms by (auto split: if_splits sum.splits)
  qed
  then show "bumped (arg args 1) db (snd (handle_zadd clk args db))"
    by (auto simp: handle_zadd_def Let_def case_prod_beta db_zadd_result entry_exists intro!: version_intros
        split: sum.split)
qed

text \<open>HSET counts when every field and value is a bulk string; the error path stores fields without
  counting.\<close>

lemma hset_loop_count_kept:
  "entry key db = Some v \<Longrightarrow> \<exists>v'. entry key (snd (hset_loop key rest m db)) = Some v' \<and> mod_count v' = mod_count v"
proof (induction rest arbitrary: m db v rule: induct_list012)
  case (3 f x rest)
  obtain w where w: "entry key (snd (db_hset key (resp_str f) (resp_str x) db)) = Some w" "mod_count w = mod_count v"
    using "3.prems" by (simp add: db_hset_def at_key_def Let_def)
  show ?case using "3.IH"(1) [OF w(1), of "m + 1"] w(2) "3.prems" by (simp add: hset_loop_step del: hset_loop.simps)
qed simp_all

lemma hset_loop_total:
  assumes "list_all is_bulk rest"
  shows "\<exists>m'. fst (hset_loop key rest m db) = Some m' \<and> (2 \<le> length rest \<longrightarrow> 0 < m') \<and> m \<le> m'"
  using assms
proof (induction rest arbitrary: m db rule: induct_list012)
  case (3 f x rest)
  then show ?case
    using "3.IH"(1) [of "m + 1" "snd (db_hset key (resp_str f) (resp_str x) db)"]
    by (fastforce simp: hset_loop_step simp del: hset_loop.simps)
qed simp_all

interpretation hset_ver: versioned handle_hset "\<lambda>args db. list_all is_bulk (drop 2 args)"
proof (rule versioned_bumped)
  fix clk :: clock and args db assume bulk: "list_all is_bulk (drop 2 args)"
  obtain r db' where r: "hset_loop (arg args 1) (drop 2 args) 0 db = (r, db')" by fastforce
  have kept: "entry k db' = entry k db" if "k \<noteq> arg args 1" for k
    using hset_loop_frame(1) [OF that, where rest = "drop 2 args" and m = 0 and db = db] unfolding r by simp
  have count: "\<exists>v'. entry (arg args 1) db' = Some v' \<and> mod_count v' = mod_count v"
    if "entry (arg args 1) db = Some v" for v
    using hset_loop_count_kept [OF that, where rest = "drop 2 args" and m = 0] unfolding r by simp
  have "bumped (arg args 1) db (db_increment_mod_count (arg args 1) db')"
    using kept count by (intro bumped_increment) (fastforce simp: keeps_count_def, metis option.distinct(1) not_None_eq)
  moreover have "\<exists>m'. r = Some m' \<and> 0 < m'" if "\<not> length args < 4"
    using hset_loop_total [OF bulk, of "arg args 1" 0 db] that unfolding r by auto
  ultimately show "bumped (arg args 1) db (snd (handle_hset clk args db))"
    unfolding handle_hset_def Let_def r by (auto simp: count_mod_def)
qed

text \<open>Commands that only read.\<close>

lemma only_erases_del: "only_erases key db (snd (db_del key (count_mod b key (snd (db_exists now key db)))))"
  by (simp add: only_erases_def db_del_def other_key)

lemma only_erases_two:
  "only_erases key db (snd (db_type now key (snd (db_exists now' key db))))"
  "only_erases key db (snd (db_get now key (snd (db_type now' key (snd (db_exists now'' key db))))))"
  by (blast intro: only_erases_trans only_erases_ops)+

lemma erasing_commands:
  "versioned handle_get always"
  "versioned handle_del always"
  "versioned handle_exists always"
  "versioned handle_type always"
  "versioned handle_llen always"
  "versioned handle_lindex always"
  "versioned handle_hget always"
  "versioned handle_zscore always"
  "versioned handle_ttl always"
  "versioned handle_pttl always"
  by (rule versioned_erasing,
    auto simp: handle_get_def handle_del_def handle_exists_def handle_type_def handle_llen_def handle_lindex_def
      handle_hget_def handle_zscore_def handle_ttl_def handle_pttl_def Let_def case_prod_beta only_erases_del
      only_erases_two split: sum.split)+

lemma reading_commands:
  "versioned handle_keys always"
  "versioned handle_lrange always"
  "versioned handle_sismember always"
  "versioned handle_scard always"
  "versioned handle_smembers always"
  "versioned handle_sinter always"
  "versioned handle_sunion always"
  "versioned handle_sdiff always"
  "versioned handle_hlen always"
  "versioned handle_hkeys always"
  "versioned handle_hvals always"
  "versioned handle_hgetall always"
  "versioned handle_zcard always"
  "versioned handle_zrange always"
  "versioned handle_zrevrange always"
  "versioned handle_zrank always"
  by (rule versioned_read_only,
    auto simp: handle_keys_def handle_lrange_def handle_sismember_def handle_scard_def handle_smembers_def
      handle_sinter_def handle_sunion_def handle_sdiff_def handle_hlen_def handle_hkeys_def handle_hvals_def
      handle_hgetall_def handle_zcard_def handle_zrange_def handle_zrevrange_def handle_zrank_def Let_def
      split: option.split)+

definition version_guard :: "string \<Rightarrow> cmd_args \<Rightarrow> database \<Rightarrow> bool" where
  "version_guard name args db \<longleftrightarrow>
     (name = ''SADD'' \<longrightarrow> has_type Set (entry (arg args 1) db)) \<and>
     (name = ''HSET'' \<longrightarrow> list_all is_bulk (drop 2 args))"

lemma versioned_weaken: "versioned h g \<Longrightarrow> (\<And>args db. g' args db \<Longrightarrow> g args db) \<Longrightarrow> versioned h g'"
  unfolding versioned_def by blast

lemmas version_facts = reading_commands erasing_commands
  set_ver.versioned_axioms lpush_ver.versioned_axioms rpush_ver.versioned_axioms lpop_ver.versioned_axioms
  rpop_ver.versioned_axioms srem_ver.versioned_axioms hdel_ver.versioned_axioms zadd_ver.versioned_axioms
  zrem_ver.versioned_axioms expire_ver.versioned_axioms pexpire_ver.versioned_axioms persist_ver.versioned_axioms

lemma table_always:
  assumes "(name, h) \<in> set (queued_commands @ expiry_commands)" "name \<noteq> ''SADD''" "name \<noteq> ''HSET''"
  shows "versioned h always"
proof -
  have "list_all (\<lambda>(n, h). n = ''SADD'' \<or> n = ''HSET'' \<or> versioned h always) (queued_commands @ expiry_commands)"
    by (simp add: queued_commands_def expiry_commands_def version_facts)
  then show ?thesis using assms unfolding list_all_iff by blast
qed

lemma table_versioned:
  assumes "(name, h) \<in> set (queued_commands @ expiry_commands)"
  shows "versioned h (version_guard name)"
proof (cases "name = ''SADD'' \<or> name = ''HSET''")
  case True
  then have "h = handle_sadd \<and> name = ''SADD'' \<or> h = handle_hset \<and> name = ''HSET''"
    using assms by (auto simp: queued_commands_def expiry_commands_def)
  then show ?thesis
    by (auto intro: versioned_weaken [OF sadd_ver.versioned_axioms] versioned_weaken [OF hset_ver.versioned_axioms]
        simp: version_guard_def)
next
  case False
  then show ?thesis using table_always [OF assms] by (auto intro: versioned_weaken)
qed

section \<open>A sample server\<close>

text \<open>A server with two connected clients, for the concrete instances.\<close>

definition sample_server :: "unit server" where
  "sample_server =
     \<lparr>keyspace = sample_db, snapshot = None,
      clients = [(4, make_processor 6 ()), (5, make_processor 8 ())], cluster = default_config\<rparr>"

definition sample_env :: "unit environment" where
  "sample_env =
     \<lparr>clocks = (\<lambda>_ _. 5), save_opens = (\<lambda>_. True), hash = (\<lambda>k. of_nat (length k)), lua = echo_lua,
      save_daemon_ptr = None\<rparr>"

lemma sample_server_simps [simp]:
  "keyspace sample_server = sample_db" "registered 4 sample_server" "registered 5 sample_server"
  "client 4 sample_server = make_processor 6 ()" "client 5 sample_server = make_processor 8 ()"
  "cluster sample_server = default_config" "clocks sample_env i = (\<lambda>_. 5)"
  by (simp_all add: sample_server_def sample_env_def registered_def client_def)

lemma make_processor_simps [simp]:
  "\<not> in_transaction (make_processor n l)" "watched_keys (make_processor n l) = []"
  "transaction_queue (make_processor n l) = []" "pubsub_messages (make_processor n l) = []"
  by (simp_all add: make_processor_def)

lemma proc_wf_make [simp]: "proc_wf (make_processor n l)"
  by (simp add: proc_wf_def)

lemma sample_server_wf: "server_wf sample_server"
  by (simp add: server_wf_def sample_db_ok sample_server_def clients_wf_def)

section \<open>Properties\<close>

lemma transaction_runs:
  assumes "registered fd srv" "\<not> in_transaction (client fd srv)" "list_all tx_command cs"
    and "\<not> watch_broken (client fd srv) (keyspace srv)"
  shows "process_all env fd (request [''MULTI''] # cs @ [request [''EXEC'']]) srv =
      (let (rs, srv') = run_queue env 0 (map tx_entry cs) srv
       in (Some ok_reply # replicate (length cs) (Some (simple_reply ''QUEUED'')) @
             [Some (''*'' @ size_string (length cs) @ CRLF @ concat rs)],
           set_client fd (end_transaction (client fd srv)) srv'))"
proof -
  let ?p = "(client fd srv)\<lparr>in_transaction := True, transaction_queue := map tx_entry cs\<rparr>"
  have "process_command env fd (request [''EXEC'']) (set_client fd ?p srv) =
      (Some (''*'' @ size_string (length cs) @ CRLF @ concat (fst (run_queue env 0 (map tx_entry cs) srv))),
       set_client fd (end_transaction (client fd srv)) (snd (run_queue env 0 (map tx_entry cs) srv)))"
    using assms(4) by (simp add: process_exec handle_exec_def run_queue_set_client case_prod_beta Let_def)
  moreover note process_transaction [OF assms(1,2,3), of env]
  moreover have "process_all env fd (request [''MULTI''] # cs @ [request [''EXEC'']]) srv =
      process_all env fd ((request [''MULTI''] # cs) @ [request [''EXEC'']]) srv" by simp
  ultimately show ?thesis
    unfolding process_all_append by (simp add: case_prod_beta Let_def del: process_all.simps(2))
      (simp add: case_prod_beta Let_def)
qed


text \<open>C3. A transaction runs in one piece: for a client that is not in a transaction and whose
  watched keys are unchanged, MULTI, any commands that are then queued, and EXEC reply OK, QUEUED
  for each command and one array with the results, and leave the server as running the queued
  commands one after the other at the EXEC leaves it; between MULTI and EXEC the keyspace and the
  snapshot are untouched.\<close>

theorem transaction_in_one_piece:
  assumes "registered fd srv" "\<not> in_transaction (client fd srv)" "list_all tx_command cs"
    and "\<not> watch_broken (client fd srv) (keyspace srv)"
  shows "process_all env fd (request [''MULTI''] # cs @ [request [''EXEC'']]) srv =
      (let (rs, srv') = run_queue env 0 (map tx_entry cs) srv
       in (Some ok_reply # replicate (length cs) (Some (simple_reply ''QUEUED'')) @
             [Some (''*'' @ size_string (length cs) @ CRLF @ concat rs)],
           set_client fd (end_transaction (client fd srv)) srv')) \<and>
    keyspace (snd (process_all env fd (request [''MULTI''] # cs) srv)) = keyspace srv \<and>
    snapshot (snd (process_all env fd (request [''MULTI''] # cs) srv)) = snapshot srv"
  using transaction_runs [OF assms] process_transaction [OF assms(1,2,3), of env] by simp

theorem transaction_in_one_piece_witness:
  "length (fst (process_all sample_env 4
     [request [''MULTI''], request [''SET'', ''k'', ''1''], request [''GET'', ''k''], request [''EXEC'']] sample_server)) = 4 \<and>
   keyspace (snd (process_all sample_env 4 [request [''MULTI''], request [''SET'', ''k'', ''1''], request [''GET'', ''k'']]
     sample_server)) = sample_db"
  using transaction_in_one_piece [of 4 sample_server
      "[request [''SET'', ''k'', ''1''], request [''GET'', ''k'']]" sample_env]
  by (simp add: tx_command_def upper_def toupper_def ord_def watch_broken_def case_prod_beta Let_def del: process_all.simps)

text \<open>DISCARD drops the transaction: after MULTI, any queued commands and DISCARD the keyspace and
  the snapshot are as before, the client's queue is empty and it is outside a transaction.\<close>

theorem discard_drops_transaction:
  assumes "registered fd srv" "\<not> in_transaction (client fd srv)" "list_all tx_command cs"
  shows "snd (process_all env fd (request [''MULTI''] # cs @ [request [''DISCARD'']]) srv) =
    set_client fd ((client fd srv)\<lparr>transaction_queue := [], in_transaction := False\<rparr>) srv"
proof -
  have "process_all env fd (request [''MULTI''] # cs @ [request [''DISCARD'']]) srv =
      process_all env fd ((request [''MULTI''] # cs) @ [request [''DISCARD'']]) srv" by simp
  then show ?thesis
    using process_transaction [OF assms, of env]
    by (simp only: process_all_append) (simp add: process_discard case_prod_beta Let_def)
qed

theorem discard_drops_transaction_witness:
  "keyspace (snd (process_all sample_env 4
     [request [''MULTI''], request [''SET'', ''k'', ''1''], request [''DISCARD'']] sample_server)) = sample_db"
  using discard_drops_transaction [of 4 sample_server "[request [''SET'', ''k'', ''1'']]" sample_env]
  by (simp add: tx_command_def upper_def toupper_def ord_def del: process_all.simps)

lemma watch_loop_bulk:
  "watch_loop (map bulk ks) db p =
     (True, p\<lparr>watched_keys := fold (\<lambda>k. AList.update k (db_get_mod_count k db)) ks (watched_keys p)\<rparr>)"
  by (induction ks arbitrary: p) simp_all

lemma fold_update_counts:
  "(\<forall>k n. (k, n) \<in> set m \<longrightarrow> n = f k) \<Longrightarrow> set (fold (\<lambda>k. AList.update k (f k)) ks m) = (\<lambda>k. (k, f k)) ` set ks \<union> set m"
proof (induction ks arbitrary: m)
  case (Cons k ks)
  have s: "set (AList.update k (f k) m) = insert (k, f k) (set m)"
    using Cons.prems by (induction m) auto
  then have "\<forall>k' n. (k', n) \<in> set (AList.update k (f k) m) \<longrightarrow> n = f k'" using Cons.prems by auto
  from Cons.IH [OF this] s show ?case by auto
qed simp

lemma process_watch:
  assumes "\<not> in_transaction (client fd srv)" "ks \<noteq> []"
  shows "process_command env fd (request (''WATCH'' # ks)) srv =
    (Some ok_reply, set_client fd ((client fd srv)\<lparr>watched_keys :=
       fold (\<lambda>k. AList.update k (db_get_mod_count k (keyspace srv))) ks (watched_keys (client fd srv))\<rparr>) srv)"
  using assms
  by (simp add: process_command_def execute_def on_client_def handle_watch_def watch_loop_bulk Let_def Suc_le_eq)

text \<open>C6. WATCH and EXEC: after WATCH of some keys by a client without watches, EXEC of a later
  transaction aborts, changing neither keyspace nor snapshot, when the counter of one of the keys is no
  longer what it was at the WATCH; otherwise it runs the queue and replies with all its results.  Either way
  the transaction and the watches end.\<close>

theorem watch_guards_exec:
  assumes "\<not> in_transaction (client fd srv)" "watched_keys (client fd srv) = []" "ks \<noteq> []"
    and "p = client fd (snd (process_command env fd (request (''WATCH'' # ks)) srv))"
    and "watched_keys (client fd srv2) = watched_keys p" "in_transaction (client fd srv2)"
  shows "process_command env' fd (request [''EXEC'']) srv2 =
    (if \<exists>k\<in>set ks. db_get_mod_count k (keyspace srv2) \<noteq> db_get_mod_count k (keyspace srv)
     then (Some (minus_reply ''EXECABORT Transaction discarded because of watched key modification''),
           set_client fd (end_transaction (client fd srv2)) srv2)
     else let (rs, srv') = run_queue env' 0 (transaction_queue (client fd srv2)) srv2
          in (Some (''*'' @ size_string (length rs) @ CRLF @ concat rs), set_client fd (end_transaction (client fd srv2)) srv'))"
proof -
  have "set (watched_keys p) = (\<lambda>k. (k, db_get_mod_count k (keyspace srv))) ` set ks"
    using assms(2,4) process_watch [OF assms(1,3), of env] fold_update_counts [of "[]"] by simp
  then have "watch_broken (client fd srv2) (keyspace srv2) \<longleftrightarrow>
      (\<exists>k\<in>set ks. db_get_mod_count k (keyspace srv2) \<noteq> db_get_mod_count k (keyspace srv))"
    using assms(5) by (auto simp: watch_broken_def list_ex_iff)
  then show ?thesis
    using assms(6) by (simp add: process_exec handle_exec_def case_prod_beta Let_def)
qed

theorem watch_guards_exec_witness:
  "let srv1 = snd (process_all sample_env 4 [request [''WATCH'', ''name''], request [''MULTI'']] sample_server);
       srv2 = snd (process_command sample_env 5 (request [''SET'', ''name'', ''w'']) srv1)
   in process_command sample_env 4 (request [''EXEC'']) srv2 =
        (Some (minus_reply ''EXECABORT Transaction discarded because of watched key modification''),
         set_client 4 (end_transaction (client 4 srv2)) srv2)"
proof -
  define srv1 where "srv1 = snd (process_all sample_env 4 [request [''WATCH'', ''name''], request [''MULTI'']] sample_server)"
  define srv2 where "srv2 = snd (process_command sample_env 5 (request [''SET'', ''name'', ''w'']) srv1)"
  let ?p = "client 4 (snd (process_command sample_env 4 (request [''WATCH'', ''name'']) sample_server))"
  have c1: "client 4 srv1 = ?p\<lparr>in_transaction := True, transaction_queue := []\<rparr>" "client 5 srv1 = make_processor 8 ()"
    "keyspace srv1 = sample_db" "cluster srv1 = default_config" "clients srv1 \<noteq> []"
    by (simp_all add: srv1_def process_watch process_multi) (simp add: set_client_def sample_server_def)
  have "in_transaction (client 5 srv1) = False" using c1 by simp
  then have s2: "srv2 = srv1\<lparr>keyspace := snd (handle_set (\<lambda>_. 5) [bulk ''SET'', bulk ''name'', bulk ''w''] sample_db)\<rparr>"
    using c1 unfolding srv2_def
    by (simp add: process_command_def moved_def execute_def on_keyspace_def case_prod_beta Let_def default_config_def
        queued_commands_def expiry_commands_def map_add_def)
  have "db_get_mod_count ''name'' (keyspace srv2) \<noteq> db_get_mod_count ''name'' (keyspace sample_server)"
    by (simp add: s2 handle_set_def db_get_mod_count_def db_set_def at_key_def sample_db_data Let_def)
  then have "process_command sample_env 4 (request [''EXEC'']) srv2 =
      (Some (minus_reply ''EXECABORT Transaction discarded because of watched key modification''),
       set_client 4 (end_transaction (client 4 srv2)) srv2)"
    using watch_guards_exec [where fd = 4 and srv = sample_server and ks = "[''name'']" and p = ?p and env = sample_env
        and ?srv2.0 = srv2 and env' = sample_env] c1 by (simp add: s2)
  then show ?thesis unfolding srv2_def srv1_def Let_def by simp
qed

text \<open>C24. The counters are versions: whatever data command runs, if it changes the entry of a key whose
  counter is not 0, the number that WATCH compares changes too.  (SADD must find a set and HSET
  must have only bulk strings as fields and values; without that they change an entry and do not
  count it.)\<close>

theorem change_changes_counter:
  assumes "(name, h) \<in> set (queued_commands @ expiry_commands)" "version_guard name args db"
    and "entry k (snd (h clk args db)) \<noteq> entry k db" "db_get_mod_count k db \<noteq> 0"
  shows "db_get_mod_count k (snd (h clk args db)) \<noteq> db_get_mod_count k db"
  using versioned.change_detected [OF table_versioned [OF assms(1)] assms(2,3,4)] .

theorem change_changes_counter_witness:
  "db_get_mod_count ''l'' (snd (handle_lpop (\<lambda>_. 0) [bulk ''LPOP'', bulk ''l''] (db_increment_mod_count ''l'' sample_db))) \<noteq> 1"
  using change_changes_counter [where name = "''LPOP''" and h = handle_lpop and args = "[bulk ''LPOP'', bulk ''l'']"
      and db = "db_increment_mod_count ''l'' sample_db" and k = "''l''" and clk = "\<lambda>_. 0"]
  by (simp add: queued_commands_def version_guard_def db_get_mod_count_def sample_db_data handle_lpop_def pop_reply_def
      db_lpop_def case_prod_beta)

text \<open>HSET with a value that is not a bulk string behind the first pair stores the pair, replies with an error and
  does not count the change, so WATCH does not see it.\<close>

theorem hset_change_not_counted:
  assumes "\<not> is_bulk x"
  shows "let (r, db') = handle_hset clk [bulk ''HSET'', bulk k, bulk f, bulk v, bulk g, x] db in
    r = err ''HSET field and value must be bulk strings'' \<and> db_hget k f db' = v \<and> db_get_mod_count k db' = db_get_mod_count k db"
  using assms
  by (auto simp: handle_hset_def db_hset_def db_hget_def db_get_mod_count_def at_key_def hash_of_entry_def has_type_def
      new_value_def Let_def case_prod_beta update_conv' split: option.split)

theorem hset_change_not_counted_witness:
  "db_hget ''h'' ''f'' (snd (handle_hset (\<lambda>_. 0) [bulk ''HSET'', bulk ''h'', bulk ''f'', bulk ''v'', bulk ''g'', request []] empty_db)) = ''v''"
  using hset_change_not_counted [where x = "request []" and k = "''h''" and f = "''f''" and v = "''v''" and g = "''g''" and db = empty_db
      and clk = "\<lambda>_. 0"]
  by (simp add: request_def case_prod_beta Let_def)

text \<open>C39. WATCH misses a delete followed by a write: one client watches a key right after its creation and
  queues a GET; another deletes the key and sets it to a new value, which starts the counter at 1
  again; EXEC does not abort and replies with the new value.\<close>

theorem watch_misses_delete_and_set:
  assumes "fd \<noteq> fd2" "\<not> in_transaction (client fd srv)" "\<not> in_transaction (client fd2 srv)"
    and "watched_keys (client fd srv) = []" "entry k (keyspace srv) = None"
    and "moved env2 ''SET'' (map bulk [''SET'', k, v]) srv = None" "moved env2 ''SET'' (map bulk [''SET'', k, w]) srv = None"
      "moved env2 ''DEL'' (map bulk [''DEL'', k]) srv = None"
  shows "fst (process_from
      [(env2, fd2, request [''SET'', k, v]), (env, fd, request [''WATCH'', k]), (env, fd, request [''MULTI'']),
       (env, fd, request [''GET'', k]), (env2, fd2, request [''DEL'', k]), (env2, fd2, request [''SET'', k, w]),
       (env, fd, request [''EXEC''])] srv) =
    [Some ok_reply, Some ok_reply, Some ok_reply, Some (simple_reply ''QUEUED''), Some (int_reply 1), Some ok_reply,
     Some (''*1'' @ CRLF @ bulk_reply w)]"
proof -
  have names: "map_of (queued_commands @ expiry_commands) ''SET'' = Some handle_set"
    "map_of (queued_commands @ expiry_commands) ''DEL'' = Some handle_del"
    by (simp_all add: queued_commands_def expiry_commands_def)
  let ?v = "(new_value String)\<lparr>str_val := v, mod_count := 1\<rparr>" and ?w = "(new_value String)\<lparr>str_val := w, mod_count := 1\<rparr>"
  define p where "p = client fd srv"
  define d1 where "d1 = snd (handle_set (clocks env2 0) (map bulk [''SET'', k, v]) (keyspace srv))"
  define s1 where "s1 = srv\<lparr>keyspace := d1\<rparr>"
  define p2 where "p2 = p\<lparr>watched_keys := [(k, 1)], in_transaction := True, transaction_queue := [(''GET'', map bulk [''GET'', k])]\<rparr>"
  define s2 where "s2 = set_client fd p2 s1"
  define d3 where "d3 = snd (handle_del (clocks env2 0) (map bulk [''DEL'', k]) d1)"
  define d4 where "d4 = snd (handle_set (clocks env2 0) (map bulk [''SET'', k, w]) d3)"
  have d1: "entry k d1 = Some ?v" 
    using assms(5) by (simp add: d1_def handle_set_def db_set_def at_key_def Let_def new_value_def)
  have d3: "entry k d3 = None" "fst (handle_del (clocks env2 0) (map bulk [''DEL'', k]) d1) = int_reply 1"
    using d1 by (simp_all add: d3_def handle_del_def bool_reply_def db_defs count_mod_def is_expired_def new_value_def case_prod_beta Let_def)
  have d4: "entry k d4 = Some ?w" 
    using d3 by (simp add: d4_def handle_set_def db_set_def at_key_def Let_def new_value_def)
  have "process_command env2 fd2 (request [''SET'', k, v]) srv = (Some ok_reply, s1)"
    using process_data [of fd2 srv env2 "''SET''" "[k, v]" handle_set] assms names
    by (simp add: s1_def d1_def) (simp add: handle_set_def Let_def)
  moreover have "process_from [(env, fd, request [''WATCH'', k]), (env, fd, request [''MULTI'']), (env, fd, request [''GET'', k])] s1 =
     ([Some ok_reply, Some ok_reply, Some (simple_reply ''QUEUED'')], s2)"
    using assms(2,4) d1
    by (simp add: s1_def s2_def p2_def p_def process_watch process_multi db_get_mod_count_def case_prod_beta Let_def)
      (simp add: process_command_def queue_command_def on_client_def upper_def toupper_def ord_def Let_def)
  moreover have "process_command env2 fd2 (request [''DEL'', k]) s2 = (Some (int_reply 1), s2\<lparr>keyspace := d3\<rparr>)"
    using process_data [of fd2 s2 env2 "''DEL''" "[k]" handle_del] assms names d3 moved_cong [of s2 srv]
    by (simp add: s2_def s1_def d3_def)
  moreover have "process_command env2 fd2 (request [''SET'', k, w]) (s2\<lparr>keyspace := d3\<rparr>) = (Some ok_reply, s2\<lparr>keyspace := d4\<rparr>)"
    using process_data [of fd2 "s2\<lparr>keyspace := d3\<rparr>" env2 "''SET''" "[k, w]" handle_set] assms names moved_cong [of "s2\<lparr>keyspace := d3\<rparr>" srv]
    by (simp add: s2_def s1_def d4_def) (simp add: handle_set_def Let_def)
  moreover have "fst (process_command env fd (request [''EXEC'']) (s2\<lparr>keyspace := d4\<rparr>)) = Some (''*1'' @ CRLF @ bulk_reply w)"
    using d4 by (simp add: process_exec handle_exec_def s2_def p2_def watch_broken_def db_get_mod_count_def run_queued_def queued_commands_def
        on_keyspace_def handle_get_def db_defs is_expired_def new_value_def to_string_def nat_digits.simps digit_char_def char_of_def bit_0
        case_prod_beta Let_def)
  ultimately show ?thesis by (simp add: case_prod_beta Let_def)
qed

theorem watch_misses_delete_and_set_witness:
  "last (fst (process_from
      [(sample_env, 5, request [''SET'', ''k'', ''a'']), (sample_env, 4, request [''WATCH'', ''k'']), (sample_env, 4, request [''MULTI'']),
       (sample_env, 4, request [''GET'', ''k'']), (sample_env, 5, request [''DEL'', ''k'']), (sample_env, 5, request [''SET'', ''k'', ''b'']),
       (sample_env, 4, request [''EXEC''])] sample_server)) = Some (''*1'' @ CRLF @ bulk_reply ''b'')"
proof -
  have "moved sample_env name args sample_server = None" for name args by (simp add: moved_def default_config_def)
  then show ?thesis
    using watch_misses_delete_and_set [where fd = 4 and ?fd2.0 = 5 and srv = sample_server and k = "''k''" and v = "''a''"
        and w = "''b''" and env = sample_env and ?env2.0 = sample_env]
    by (simp add: sample_db_data del: process_from.simps)
qed

text \<open>A script's writes are invisible to WATCH: a script that calls SET on an existing key changes
  its value and not its counter.\<close>

theorem script_write_not_counted:
  assumes "validate_script script" "entry k db = Some v" "c_str k = k" "c_str s = s"
    and "interp (lua_state eng) (c_str script) (map c_str keys) (map c_str sargs) =
      Inr (Call Redis_call [Lua_string ''SET'', Lua_string k, Lua_string s] (\<lambda>_. Returned Lua_nil l))"
    and "db' = snd (snd (eval interp clk script keys sargs eng db))"
  shows "entry k db' = Some (v\<lparr>value_type := String, str_val := s\<rparr>) \<and>
    db_get_mod_count k db' = db_get_mod_count k db"
proof -
  have "db' = snd (db_set k s db)"
    using assms by (simp add: eval_def api_call_def redis_call_def redis_pcall_def tostring_def c_str_def [of "''SET''"] ord_def)
  then show ?thesis using assms(2) by (simp add: db_set_def at_key_def db_get_mod_count_def)
qed

theorem script_write_not_counted_witness:
  "db_get_mod_count ''name'' (snd (snd (eval
     (\<lambda>l script keys sargs. Inr (Call Redis_call [Lua_string ''SET'', Lua_string ''name'', Lua_string ''x''] (\<lambda>_. Returned Lua_nil ())))
     (\<lambda>_. 0) ''return 1'' [] [] \<lparr>script_cache = [], lua_state = ()\<rparr> sample_db))) = db_get_mod_count ''name'' sample_db"
  using script_write_not_counted [where script = "''return 1''" and k = "''name''" and s = "''x''" and db = sample_db
      and interp = "\<lambda>l script keys sargs. Inr (Call Redis_call [Lua_string ''SET'', Lua_string ''name'', Lua_string ''x''] (\<lambda>_. Returned Lua_nil ()))"
      and clk = "\<lambda>_. 0" and keys = "[]" and sargs = "[]" and eng = "\<lparr>script_cache = [], lua_state = ()\<rparr>" and l = "()"]
  by (simp add: sample_db_data validate_script_def c_str_def ord_def)


lemma run_queued_ok:
  assumes "db_ok n (keyspace srv)"
  shows "db_ok (n + length (snd c)) (keyspace (snd (run_queued env i c srv)))"
    and "n + length (snd c) < 2 ^ 63 \<Longrightarrow> one_reply (fst (run_queued env i c srv))"
proof -
  obtain name args where c: "c = (name, args)" by (cases c)
  have cmd: "db_ok (n + length args) (snd (h clk args (keyspace srv))) \<and>
      (n + length args < 2 ^ 63 \<longrightarrow> one_reply (fst (h clk args (keyspace srv))))"
    if "map_of queued_commands name = Some h" for h clk
    using queued_map_of [OF that] assms by (blast intro: command.ok command.reply)
  show "db_ok (n + length (snd c)) (keyspace (snd (run_queued env i c srv)))"
    using cmd assms by (auto simp: c run_queued_def on_keyspace_def case_prod_beta Let_def split: option.split
        intro: db_ok_mono)
  show "one_reply (fst (run_queued env i c srv))" if "n + length (snd c) < 2 ^ 63"
    using cmd that by (auto simp: c run_queued_def on_keyspace_def handle_save_def save_rdb_def case_prod_beta Let_def
        split: option.split intro!: replies)
qed

lemma run_queue_replies:
  "db_ok n (keyspace srv) \<Longrightarrow> n + sum_list (map (length \<circ> snd) cs) < 2 ^ 63 \<Longrightarrow>
     list_all one_reply (fst (run_queue env i cs srv))"
proof (induction cs arbitrary: n i srv)
  case (Cons c cs)
  have ok: "db_ok (n + length (snd c)) (keyspace (snd (run_queued env i c srv)))"
    "one_reply (fst (run_queued env i c srv))"
    using run_queued_ok [OF Cons.prems(1), of c env i] Cons.prems(2) by simp_all
  moreover have "list_all one_reply (fst (run_queue env (Suc i) cs (snd (run_queued env i c srv))))"
    by (rule Cons.IH [OF ok(1)]) (use Cons.prems(2) in simp)
  ultimately show ?case by (simp add: case_prod_beta Let_def)
qed simp

text \<open>EXEC replies with one protocol value: the array of its results parses as one value, whatever
  was queued, also when commands in it fail or are unknown.\<close>

theorem exec_replies_once:
  assumes "db_ok n (keyspace srv)" "n + sum_list (map (length \<circ> snd) (transaction_queue (client fd srv))) < 2 ^ 63"
  shows "\<exists>r v. fst (process_command env fd (request [''EXEC'']) srv) = Some r \<and>
    (\<forall>post. small (r @ post) \<longrightarrow> parse (r @ post) 0 = Inr (v, length r))"
proof -
  have "one_reply (fst (handle_exec env [bulk ''EXEC''] (client fd srv) srv))"
    using one_array [OF run_queue_replies [OF assms, of env 0]]
    by (auto simp: handle_exec_def case_prod_beta Let_def line_ok_def intro!: replies)
  then obtain v where "\<forall>pre post. small (pre @ fst (handle_exec env [bulk ''EXEC''] (client fd srv) srv) @ post) \<longrightarrow>
      parse (pre @ fst (handle_exec env [bulk ''EXEC''] (client fd srv) srv) @ post) (length pre) =
        Inr (v, length pre + length (fst (handle_exec env [bulk ''EXEC''] (client fd srv) srv)))"
    by (auto simp: one_reply_def)
  then show ?thesis by (auto simp: process_exec case_prod_beta Let_def dest: spec [of _ "[]"])
qed

theorem exec_replies_once_witness:
  "\<exists>r v. fst (process_command sample_env 4 (request [''EXEC'']) sample_server) = Some r \<and>
    (\<forall>post. small (r @ post) \<longrightarrow> parse (r @ post) 0 = Inr (v, length r))"
proof (rule exec_replies_once)
  show "db_ok 2 (keyspace sample_server)"
    using sample_db_ok(1) by (simp add: db_ok_def db_cap_def all_values_def sample_db_data value_cap_def)
qed simp

text \<open>Commands that a transaction refuses: the expiry commands, which run outside a transaction,
  are answered inside it with the error for unknown commands and have no effect.\<close>

theorem expiry_commands_not_in_transactions:
  assumes "(name, h) \<in> set expiry_commands"
  shows "run_queued env i (name, args) srv = (err ''Unknown command'', srv)"
proof -
  have "name = ''EXPIRE'' \<or> name = ''PEXPIRE'' \<or> name = ''TTL'' \<or> name = ''PTTL'' \<or> name = ''PERSIST''"
    using assms unfolding expiry_commands_def by auto
  then have "map_of queued_commands name = None" "name \<noteq> ''SAVE''"
    by (elim disjE; simp add: queued_commands_def)+
  then show ?thesis by (simp add: run_queued_def)
qed

theorem expiry_commands_not_in_transactions_witness:
  "run_queued sample_env 0 (''EXPIRE'', map bulk [''EXPIRE'', ''name'', ''10'']) sample_server =
     (err ''Unknown command'', sample_server)"
  using expiry_commands_not_in_transactions [of "''EXPIRE''" handle_expire] by (simp add: expiry_commands_def)

text \<open>Redirection: with the server's configuration a key command outside a transaction is answered
  with a redirection, without effect, exactly when the key's slot is 2 or 3, and the redirection
  names the slot and the address of the node that owns it; inside a transaction the same command
  is executed locally.\<close>

theorem transaction_ignores_routing:
  assumes "cluster srv = server_config" "2 \<le> key_slot (hash env) server_config k"
    and "registered fd srv" "\<not> in_transaction (client fd srv)" "watched_keys (client fd srv) = []"
  shows "process_command env fd (request [''SET'', k, s]) srv =
      (Some (minus_reply (''MOVED '' @ size_string (key_slot (hash env) server_config k) @ '' 127.0.0.1:6380'')), srv) \<and>
    (\<exists>v. entry k (keyspace (snd (process_all env fd
        [request [''MULTI''], request [''SET'', k, s], request [''EXEC'']] srv))) = Some v \<and> str_val v = s)"
proof -
  have "process_command env fd (request [''SET'', k, s]) srv =
      (Some (minus_reply (''MOVED '' @ size_string (key_slot (hash env) server_config k) @ '' 127.0.0.1:6380'')), srv)"
    using assms(1,2,4)
    by (simp add: process_command_def moved_def routed_def get_node_for_key_server make_node_def Let_def
        to_string_def nat_digits.simps digit_char_def char_of_def bit_0)
  moreover have "\<exists>v. entry k (keyspace (snd (process_all env fd
        [request [''MULTI''], request [''SET'', k, s], request [''EXEC'']] srv))) = Some v \<and> str_val v = s"
    using transaction_runs [OF assms(3,4), of "[request [''SET'', k, s]]" env] assms(5)
    by (simp add: tx_command_def tx_entry_def watch_broken_def run_queued_def queued_commands_def on_keyspace_def
        handle_set_def db_set_def case_prod_beta Let_def del: process_all.simps split: option.split)
  ultimately show ?thesis by blast
qed

theorem transaction_ignores_routing_witness:
  "let srv = sample_server\<lparr>cluster := server_config\<rparr> in
     \<exists>v. entry ''kk'' (keyspace (snd (process_all sample_env 4
       [request [''MULTI''], request [''SET'', ''kk'', ''1''], request [''EXEC'']] srv))) = Some v \<and> str_val v = ''1''"
proof -
  have "2 \<le> key_slot (hash sample_env) server_config ''kk''"
    by (simp add: key_slot_server sample_env_def)
  moreover have "registered 4 (sample_server\<lparr>cluster := server_config\<rparr>)"
    "client 4 (sample_server\<lparr>cluster := server_config\<rparr>) = make_processor 6 ()"
    by (simp_all add: registered_def client_def sample_server_def)
  ultimately show ?thesis
    using transaction_ignores_routing [where srv = "sample_server\<lparr>cluster := server_config\<rparr>" and env = sample_env
        and k = "''kk''" and fd = 4 and s = "''1''"] by simp
qed

end
