(* ===== verification/Server.thy ===== *)
theory Server
  imports Transactions
begin

text \<open>
  The connection loop of \<open>main.cpp\<close> (\<open>handle_client\<close>, one thread per client, and the accept loop
  that starts it): the receive buffer of each client with its scan position, the iterations of the
  \<open>while (processed_pos < buf_pos)\<close> loop, the delivery of published messages after a notification,
  and the clean-up.  The system is a machine of events; the iterations of different clients
  interleave in any order, each command is processed in one piece.
\<close>

section \<open>State\<close>

definition BUFFER_SIZE :: nat where
  "BUFFER_SIZE = 8192"

text \<open>
  \<open>buffer\<close> holds the bytes \<open>buf[0 .. buf_pos)\<close>; \<open>processed_pos\<close> is \<open>None\<close> while the thread waits in
  \<open>select\<close>.
\<close>

record connection =
  buffer :: string
  processed_pos :: "nat option"

text \<open>\<open>sent\<close> records the successful writes in order; \<open>aborted\<close> is set when the process has died.\<close>

record 'l system =
  shared :: "'l server"
  conns :: "(int, connection) umap"
  sent :: "(int \<times> string) list"
  aborted :: bool

text \<open>
  The events: \<open>accept\<close> returns a descriptor, \<open>pipe\<close> the write end of a notification pipe or fails, and
  \<open>luaL_newstate\<close> a fresh interpreter state or none; \<open>read\<close> returns a chunk (empty when the peer has closed or the call
  fails); one iteration of the scan loop in an environment, with the success of its \<open>write\<close>; a
  notification is read, with the success of the writes that follow; \<open>select\<close> fails; the saver's
  worker calls the save function that \<open>main\<close> gave it, which can or cannot open the file.
\<close>

datatype 'l event =
    Accepted int "int option" "'l option"
  | Readable int string
  | Iterate int "'l environment" bool
  | Notified int "nat \<Rightarrow> bool"
  | Select_failed int
  | Periodic_save bool

definition boot :: "database \<Rightarrow> string option \<Rightarrow> cluster_config \<Rightarrow> 'l system" where
  "boot db file_bytes cfg =
     \<lparr>shared = \<lparr>keyspace = db, snapshot = file_bytes, clients = [], cluster = cfg\<rparr>,
      conns = [], sent = [], aborted = False\<rparr>"

text \<open>\<open>main\<close> up to the accept loop: the cluster set-up, the snapshot of the last run, the saver.\<close>

definition main_boot :: "string option \<Rightarrow> 'l system \<times> save_daemon" where
  "main_boot file_bytes =
     (boot (snd (load_rdb file_bytes empty_db)) file_bytes (initialize_cluster_mvc default_config),
      start (make_daemon ''minimalredis.rdb'' False))"

section \<open>Steps\<close>

text \<open>The clean-up leaves the subscription table as it is.\<close>

definition cleanup :: "int \<Rightarrow> 'l system \<Rightarrow> 'l system" where
  "cleanup fd sys =
     sys\<lparr>shared := (shared sys)\<lparr>clients := AList.delete fd (clients (shared sys))\<rparr>,
         conns := AList.delete fd (conns sys)\<rparr>"

definition send :: "int \<Rightarrow> string \<Rightarrow> 'l system \<Rightarrow> 'l system" where
  "send fd msg sys = sys\<lparr>sent := sent sys @ [(fd, msg)]\<rparr>"

definition set_conn :: "int \<Rightarrow> connection \<Rightarrow> 'l system \<Rightarrow> 'l system" where
  "set_conn fd c sys = sys\<lparr>conns := AList.update fd c (conns sys)\<rparr>"

definition accept :: "int \<Rightarrow> int \<Rightarrow> 'l \<Rightarrow> 'l system \<Rightarrow> 'l system" where
  "accept fd notify_fd l sys =
     (set_conn fd \<lparr>buffer = [], processed_pos = None\<rparr> sys)
       \<lparr>shared := set_client fd (make_processor notify_fd l) (shared sys)\<rparr>"

text \<open>
  The head of \<open>handle_client\<close>: without a pipe it returns; without an interpreter the constructor of
  the processor throws, and an exception that leaves a thread ends the process.
\<close>

definition start_client :: "int \<Rightarrow> int option \<Rightarrow> 'l option \<Rightarrow> 'l system \<Rightarrow> 'l system" where
  "start_client fd pipe_fd state sys =
     (case pipe_fd of
        None \<Rightarrow> sys
      | Some notify_fd \<Rightarrow>
          (case state of None \<Rightarrow> sys\<lparr>aborted := True\<rparr> | Some l \<Rightarrow> accept fd notify_fd l sys))"

text \<open>
  An iteration of the accept loop: a negative descriptor is a failed \<open>accept\<close>; the operating system
  gives no descriptor that is still open.
\<close>

definition on_accepted :: "int \<Rightarrow> int option \<Rightarrow> 'l option \<Rightarrow> 'l system \<Rightarrow> 'l system" where
  "on_accepted fd pipe_fd state sys =
     (if fd < 0 then sys
      else case map_of (conns sys) fd of None \<Rightarrow> start_client fd pipe_fd state sys | Some _ \<Rightarrow> sys)"

definition on_readable :: "int \<Rightarrow> string \<Rightarrow> connection \<Rightarrow> 'l system \<Rightarrow> 'l system" where
  "on_readable fd chunk c sys =
     (let n = min (length chunk) (BUFFER_SIZE - length (buffer c) - 1)
      in if n = 0 then cleanup fd sys
         else set_conn fd \<lparr>buffer = buffer c @ take n chunk, processed_pos = Some 0\<rparr> sys)"

text \<open>Behind the scan loop: the unprocessed bytes move to the front, a nearly full buffer closes.\<close>

definition end_scan :: "int \<Rightarrow> string \<Rightarrow> nat \<Rightarrow> 'l system \<Rightarrow> 'l system" where
  "end_scan fd bytes pos sys =
     (let rest = (if 0 < pos \<and> pos < length bytes then drop pos bytes
                  else if pos = length bytes then [] else bytes)
      in if BUFFER_SIZE - 1024 \<le> length rest then cleanup fd (send fd (err ''Command too large'') sys)
         else set_conn fd \<lparr>buffer = rest, processed_pos = None\<rparr> sys)"

definition on_iterate :: "int \<Rightarrow> 'l environment \<Rightarrow> bool \<Rightarrow> string \<Rightarrow> nat \<Rightarrow> 'l system \<Rightarrow> 'l system" where
  "on_iterate fd env written bytes pos sys =
     (if length bytes \<le> pos then end_scan fd bytes pos sys
      else case parse (drop pos bytes) 0 of
        Inl (Runtime_error err_msg) \<Rightarrow>
          if err_msg = ''Incomplete command'' then end_scan fd bytes pos sys
          else cleanup fd (send fd (err err_msg) sys)
      | Inl _ \<Rightarrow> sys\<lparr>aborted := True\<rparr>
      | Inr (cmd, consumed) \<Rightarrow>
          (case process_command env fd cmd (shared sys) of
             (None, srv) \<Rightarrow> sys\<lparr>shared := srv, aborted := True\<rparr>
           | (Some response, srv) \<Rightarrow>
               if \<not> written then cleanup fd (sys\<lparr>shared := srv\<rparr>)
               else set_conn fd \<lparr>buffer = bytes, processed_pos = Some (pos + consumed)\<rparr>
                 (send fd response (sys\<lparr>shared := srv\<rparr>))))"

text \<open>
  One byte of the pipe is read, then the queue is written out; the message of a failed write is
  already off the queue.
\<close>

fun drain :: "int \<Rightarrow> (nat \<Rightarrow> bool) \<Rightarrow> nat \<Rightarrow> string list \<Rightarrow> 'l system \<Rightarrow> 'l system" where
  "drain fd written i [] sys = sys"
| "drain fd written i (msg # msgs) sys =
     (if written i then drain fd written (Suc i) msgs (send fd msg sys) else cleanup fd sys)"

definition on_notified :: "int \<Rightarrow> (nat \<Rightarrow> bool) \<Rightarrow> 'l system \<Rightarrow> 'l system" where
  "on_notified fd written sys =
     (let p = client fd (shared sys)
      in drain fd written 0 (pubsub_messages p)
           (sys\<lparr>shared := set_client fd
              (p\<lparr>pubsub_messages := [], notifications := notifications p - 1\<rparr>) (shared sys)\<rparr>))"

definition periodic_save :: "bool \<Rightarrow> 'l system \<Rightarrow> 'l system" where
  "periodic_save opened sys =
     (case save_rdb opened (keyspace (shared sys)) of
        (True, bytes) \<Rightarrow> sys\<lparr>shared := (shared sys)\<lparr>snapshot := bytes\<rparr>\<rparr>
      | (False, _) \<Rightarrow> sys)"

definition sys_step :: "'l system \<Rightarrow> 'l event \<Rightarrow> 'l system" where
  "sys_step sys e =
     (if aborted sys then sys
      else case e of
        Accepted fd pipe_fd state \<Rightarrow> on_accepted fd pipe_fd state sys
      | Readable fd chunk \<Rightarrow>
          (case map_of (conns sys) fd of
             Some c \<Rightarrow> if processed_pos c = None then on_readable fd chunk c sys else sys
           | None \<Rightarrow> sys)
      | Iterate fd env written \<Rightarrow>
          (case map_of (conns sys) fd of
             Some c \<Rightarrow>
               (case processed_pos c of
                  Some pos \<Rightarrow> on_iterate fd env written (buffer c) pos sys
                | None \<Rightarrow> sys)
           | None \<Rightarrow> sys)
      | Notified fd written \<Rightarrow>
          (case map_of (conns sys) fd of
             Some c \<Rightarrow>
               if processed_pos c = None \<and> 0 < notifications (client fd (shared sys))
               then on_notified fd written sys else sys
           | None \<Rightarrow> sys)
      | Select_failed fd \<Rightarrow>
          (case map_of (conns sys) fd of
             Some c \<Rightarrow> if processed_pos c = None then cleanup fd sys else sys
           | None \<Rightarrow> sys)
      | Periodic_save opened \<Rightarrow> periodic_save opened sys)"

section \<open>The invariant of the system\<close>

text \<open>
  Between reads at most \<open>BUFFER_SIZE - 1025\<close> bytes are kept, during a scan the buffer and its final
  zero byte fit into the array; the registry and the connections are the same descriptors.
\<close>

definition conn_ok :: "connection \<Rightarrow> bool" where
  "conn_ok c \<longleftrightarrow>
     (case processed_pos c of
        None \<Rightarrow> length (buffer c) < BUFFER_SIZE - 1024
      | Some pos \<Rightarrow> length (buffer c) < BUFFER_SIZE \<and> pos \<le> length (buffer c))"

definition sys_wf :: "'l system \<Rightarrow> bool" where
  "sys_wf sys \<longleftrightarrow> server_wf (shared sys) \<and> umap_wf (conns sys) \<and>
     fst ` set (conns sys) = fst ` set (clients (shared sys)) \<and> list_all (\<lambda>(fd, c). conn_ok c) (conns sys)"

lemma set_conn_simps [simp]:
  "shared (set_conn fd c sys) = shared sys" "sent (set_conn fd c sys) = sent sys"
  "aborted (set_conn fd c sys) = aborted sys" "conns (set_conn fd c sys) = AList.update fd c (conns sys)"
  by (simp_all add: set_conn_def)

lemma send_simps [simp]:
  "shared (send fd m sys) = shared sys" "sent (send fd m sys) = sent sys @ [(fd, m)]"
  "aborted (send fd m sys) = aborted sys" "conns (send fd m sys) = conns sys"
  by (simp_all add: send_def)

lemma sys_wf_send [simp]: "sys_wf (send fd m sys) = sys_wf sys"
  by (simp add: sys_wf_def)

lemma sys_wf_aborted [simp]: "sys_wf (sys\<lparr>aborted := b\<rparr>) = sys_wf sys"
  by (simp add: sys_wf_def)

lemma keys_delete: "fst ` set (AList.delete k m) = fst ` set m - {k}"
  by (auto simp: AList.delete_eq)

lemma all_conns_delete: "list_all P m \<Longrightarrow> list_all P (AList.delete k m)"
  using set_delete_subset [of k m] unfolding list_all_iff by blast

lemma all_conns_update: "list_all (\<lambda>(k, v). P v) m \<Longrightarrow> P v \<Longrightarrow> list_all (\<lambda>(k, v). P v) (AList.update k v m)"
  using set_update_subset [of k v m] unfolding list_all_iff by blast

lemma all_conns_lookup: "list_all (\<lambda>(k, v). P v) m \<Longrightarrow> map_of m k = Some v \<Longrightarrow> P v"
  unfolding list_all_iff by (drule map_of_SomeD) blast

lemma sys_wf_conn:
  assumes "sys_wf sys" "map_of (conns sys) fd = Some c"
  shows "conn_ok c" "registered fd (shared sys)"
proof -
  show "conn_ok c" using assms unfolding sys_wf_def by (blast intro: all_conns_lookup)
  have "fd \<in> fst ` set (conns sys)" using assms(2) by (rule map_of_Some_in)
  then show "registered fd (shared sys)" using assms(1) by (simp add: sys_wf_def registered_def)
qed

lemma sys_wf_cleanup: "sys_wf sys \<Longrightarrow> sys_wf (cleanup fd sys)"
  by (simp add: sys_wf_def cleanup_def server_wf_def clients_wf_delete all_conns_delete keys_delete del: delete_keys)

lemma sys_wf_set_conn:
  assumes "sys_wf sys" "conn_ok c" "registered fd (shared sys)"
  shows "sys_wf (set_conn fd c sys)"
  using assms by (auto simp: sys_wf_def all_conns_update dom_update registered_def)

lemma sys_wf_shared:
  assumes "sys_wf sys" "server_wf srv" "\<And>fd. registered fd srv = registered fd (shared sys)"
  shows "sys_wf (sys\<lparr>shared := srv\<rparr>)"
proof -
  have "fst ` set (clients srv) = fst ` set (clients (shared sys))"
    using assms(3) unfolding registered_def by blast
  then show ?thesis using assms(1,2) by (simp add: sys_wf_def)
qed

lemma sys_wf_accept: "sys_wf sys \<Longrightarrow> sys_wf (accept fd n l sys)"
  by (simp add: sys_wf_def accept_def set_conn_def server_wf_set_client all_conns_update dom_update set_client_def
      server_wf_def clients_wf_update conn_ok_def BUFFER_SIZE_def)

lemma sys_wf_start_client: "sys_wf sys \<Longrightarrow> sys_wf (start_client fd pipe_fd state sys)"
  by (auto simp: start_client_def sys_wf_accept sys_wf_aborted split: option.split)

lemma sys_wf_accepted: "sys_wf sys \<Longrightarrow> sys_wf (on_accepted fd pipe_fd state sys)"
  by (auto simp: on_accepted_def sys_wf_start_client split: option.split)

lemma sys_wf_readable:
  assumes "sys_wf sys" "map_of (conns sys) fd = Some c" "processed_pos c = None"
  shows "sys_wf (on_readable fd chunk c sys)"
  using assms sys_wf_conn [OF assms(1,2)]
  by (auto simp: on_readable_def Let_def sys_wf_cleanup conn_ok_def BUFFER_SIZE_def intro!: sys_wf_set_conn)

lemma sys_wf_end_scan:
  assumes "sys_wf sys" "registered fd (shared sys)"
  shows "sys_wf (end_scan fd bytes pos sys)"
  using assms by (auto simp: end_scan_def Let_def sys_wf_cleanup conn_ok_def intro!: sys_wf_set_conn)

lemma sys_wf_iterate:
  assumes "sys_wf sys" "registered fd (shared sys)" "length bytes < BUFFER_SIZE"
  shows "sys_wf (on_iterate fd env written bytes pos sys)"
proof (cases "length bytes \<le> pos")
  case False
  show ?thesis
  proof (cases "parse (drop pos bytes) 0")
    case (Inl e)
    then show ?thesis
      using assms False by (auto simp: on_iterate_def sys_wf_end_scan sys_wf_cleanup split: cpp_exception.split)
  next
    case (Inr x)
    then obtain cmd consumed where x: "parse (drop pos bytes) 0 = Inr (cmd, consumed)" by (cases x) auto
    have "small (drop pos bytes)" using assms(3) by (simp add: small_def BUFFER_SIZE_def)
    then have le: "pos + consumed \<le> length bytes" using parse_bounds [OF _ x] False by auto
    obtain r srv where p: "process_command env fd cmd (shared sys) = (r, srv)"
      by (cases "process_command env fd cmd (shared sys)")
    have srv: "server_wf srv" "\<And>fd'. registered fd' srv = registered fd' (shared sys)"
      using process_command_wf [of "shared sys" fd env cmd] process_command_registered [of fd "shared sys" _ env cmd]
        p assms(1,2) by (simp_all add: sys_wf_def)
    then have wf: "sys_wf (sys\<lparr>shared := srv\<rparr>)" using assms(1) by (intro sys_wf_shared)
    then show ?thesis
      using x p False le assms srv(2) sys_wf_aborted [where sys = "sys\<lparr>shared := srv\<rparr>" and b = True]
      by (auto simp: on_iterate_def conn_ok_def sys_wf_cleanup split: option.split intro!: sys_wf_set_conn)
  qed
qed (use assms in \<open>simp add: on_iterate_def sys_wf_end_scan\<close>)

lemma sys_wf_drain: "sys_wf sys \<Longrightarrow> sys_wf (drain fd written i msgs sys)"
  by (induction msgs arbitrary: i sys) (simp_all add: sys_wf_cleanup)

lemma sys_wf_notified:
  assumes "sys_wf sys" "registered fd (shared sys)"
  shows "sys_wf (on_notified fd written sys)"
proof -
  have "proc_wf (client fd (shared sys))" using assms by (auto simp: sys_wf_def intro: server_wf_client)
  then show ?thesis
    using assms unfolding on_notified_def Let_def
    by (intro sys_wf_drain sys_wf_shared server_wf_set_client) (auto simp: sys_wf_def proc_wf_def)
qed

lemma sys_wf_periodic: "sys_wf sys \<Longrightarrow> sys_wf (periodic_save opened sys)"
  by (simp add: periodic_save_def save_rdb_def sys_wf_def server_wf_def)

interpretation connections: machine sys_step sys_wf
proof
  fix sys :: "'l system" and e :: "'l event"
  assume wf: "sys_wf sys"
  have len: "length (buffer c) < BUFFER_SIZE" if "map_of (conns sys) fd = Some c" for fd c
    using sys_wf_conn(1) [OF wf that] by (auto simp: conn_ok_def BUFFER_SIZE_def split: option.splits)
  show "sys_wf (sys_step sys e)"
    unfolding sys_step_def
    by (cases e) (auto simp: wf len sys_wf_accepted sys_wf_readable sys_wf_cleanup sys_wf_iterate sys_wf_notified sys_wf_periodic sys_wf_conn(2)
        split: option.split)
qed

end
