(* ===== verification/Server_Laws.thy ===== *)
theory Server_Laws
  imports Server
begin

text \<open>
  What the connection loop promises: bounded buffers and a well-formed shared state in every
  interleaving, service of pipelined and split requests in order, the end of the scan loop, the
  delivery of published messages and the isolation of clients; and where the loop gives up on
  input that has not arrived completely or cannot be parsed.
\<close>

lemma sys_wf_main_boot: "sys_wf (fst (main_boot img))"
  using load_rdb_wf [of empty_db img] by (simp add: sys_wf_def main_boot_def boot_def server_wf_def clients_wf_def)

section \<open>One iteration\<close>

lemma sys_step_iterate:
  assumes "\<not> aborted sys" "map_of (conns sys) fd = Some c" "processed_pos c = Some pos"
  shows "sys_step sys (Iterate fd env written) = on_iterate fd env written (buffer c) pos sys"
  using assms by (simp add: sys_step_def)

lemma sys_step_readable:
  assumes "\<not> aborted sys" "map_of (conns sys) fd = Some c" "processed_pos c = None"
  shows "sys_step sys (Readable fd chunk) = on_readable fd chunk c sys"
  using assms by (simp add: sys_step_def)

lemma on_readable_fits:
  assumes "chunk \<noteq> []" "length (buffer c @ chunk) < BUFFER_SIZE"
  shows "on_readable fd chunk c sys = set_conn fd \<lparr>buffer = buffer c @ chunk, processed_pos = Some 0\<rparr> sys"
  using assms by (auto simp: on_readable_def Let_def min_def)

lemma set_conn_twice [simp]: "set_conn fd c (set_conn fd d sys) = set_conn fd c sys"
  by (simp add: set_conn_def update_update)

lemma set_conn_same: "map_of (conns sys) fd = Some c \<Longrightarrow> set_conn fd c sys = sys"
  by (simp add: set_conn_def update_id_conv)

text \<open>Requests with the environments in which they are processed.\<close>

primrec process_each ::
  "int \<Rightarrow> ('l environment \<times> RespValue) list \<Rightarrow> 'l server \<Rightarrow> string option list \<times> 'l server" where
  "process_each fd [] srv = ([], srv)"
| "process_each fd (x # xs) srv =
     (let (r, srv') = process_command (fst x) fd (snd x) srv; (rs, srv'') = process_each fd xs srv' in (r # rs, srv''))"

lemma process_each_ConsE:
  assumes "process_each fd ((env, cmd) # xs) srv = (map Some rs, srv'')"
  obtains r rs' srv' where "rs = r # rs'" "process_command env fd cmd srv = (Some r, srv')"
    "process_each fd xs srv' = (map Some rs', srv'')"
proof -
  obtain r srv' where r: "process_command env fd cmd srv = (r, srv')" by (rule prod.exhaust)
  obtain qs srv2 where qs: "process_each fd xs srv' = (qs, srv2)" by (rule prod.exhaust)
  have "map Some rs = r # qs" "srv2 = srv''" using assms by (simp_all add: r qs)
  then show ?thesis using that r qs by (cases rs) auto
qed

definition wire :: "('l environment \<times> RespValue) list \<Rightarrow> string" where
  "wire reqs = concat (map (print_resp \<circ> snd) reqs)"

definition iterations :: "int \<Rightarrow> ('l environment \<times> RespValue) list \<Rightarrow> 'l event list" where
  "iterations fd reqs = map (\<lambda>(env, _). Iterate fd env True) reqs"

lemma scan_requests:
  assumes "\<not> aborted sys" "list_all (canonical \<circ> snd) reqs" "length (pre @ wire reqs @ post) < BUFFER_SIZE"
    and "process_each fd reqs (shared sys) = (map Some rs, srv)"
    and "map_of (conns sys) fd = Some \<lparr>buffer = pre @ wire reqs @ post, processed_pos = Some (length pre)\<rparr>"
  shows "run_machine sys_step sys (iterations fd reqs) =
    set_conn fd \<lparr>buffer = pre @ wire reqs @ post, processed_pos = Some (length (pre @ wire reqs))\<rparr>
      (sys\<lparr>shared := srv, sent := sent sys @ map (Pair fd) rs\<rparr>)"
  using assms
proof (induction reqs arbitrary: pre rs sys)
  case Nil
  then show ?case by (simp add: iterations_def wire_def set_conn_same)
next
  case (Cons x reqs)
  obtain env cmd where x: "x = (env, cmd)" by (cases x)
  let ?buf = "pre @ print_resp cmd @ wire reqs @ post"
  have buf: "pre @ wire (x # reqs) @ post = ?buf" by (simp add: wire_def x)
  obtain r rs' srv' where rs: "rs = r # rs'" "process_command env fd cmd (shared sys) = (Some r, srv')"
    "process_each fd reqs srv' = (map Some rs', srv)"
    using Cons.prems(4) unfolding x by (rule process_each_ConsE)
  have "parse (print_resp cmd @ wire reqs @ post) 0 = Inr (cmd, length (print_resp cmd))"
    using parse_print_at [of cmd "[]" "wire reqs @ post"] Cons.prems(2,3) buf by (simp add: x small_def BUFFER_SIZE_def)
  then have step: "sys_step sys (Iterate fd env True) =
      set_conn fd \<lparr>buffer = ?buf, processed_pos = Some (length (pre @ print_resp cmd))\<rparr>
        (send fd r (sys\<lparr>shared := srv'\<rparr>))"
    using sys_step_iterate [OF Cons.prems(1,5), of "length pre" env True] rs
    unfolding buf by (simp add: on_iterate_def)
  have "run_machine sys_step (sys_step sys (Iterate fd env True)) (iterations fd reqs) =
      set_conn fd \<lparr>buffer = ?buf, processed_pos = Some (length (pre @ print_resp cmd @ wire reqs))\<rparr>
        ((sys_step sys (Iterate fd env True))\<lparr>shared := srv, sent := sent (sys_step sys (Iterate fd env True)) @ map (Pair fd) rs'\<rparr>)"
    using Cons.IH [of "sys_step sys (Iterate fd env True)" "pre @ print_resp cmd" rs'] Cons.prems rs buf
    by (simp add: step x)
  then show ?case by (simp add: step x iterations_def wire_def rs set_conn_def send_def update_update)
qed

text \<open>The beginning of a request, cut between its elements; nothing at all is such a beginning.\<close>

definition cut_between :: "string \<Rightarrow> bool" where
  "cut_between s \<longleftrightarrow> s = [] \<or>
     (\<exists>n vs. s = ''*'' @ size_string n @ CRLF @ concat (map print_resp vs) \<and> list_all canonical vs \<and>
        length vs < n \<and> n \<le> max_vector)"

lemma parse_cut_between:
  assumes "cut_between s" "length s < BUFFER_SIZE"
  shows "parse s 0 = Inl (Runtime_error ''Incomplete command'')"
proof (cases "s = []")
  case False
  then obtain n vs where s: "s = ''*'' @ size_string n @ CRLF @ concat (map print_resp vs)"
    and vs: "list_all canonical vs" "length vs < n" "n \<le> max_vector"
    using assms(1) by (auto simp: cut_between_def)
  have "parse (''*'' @ size_string n @ CRLF @ concat (map print_resp vs) @ []) 0 = Inl (Runtime_error ''Incomplete command'')"
  proof (rule parse_array_cut [where f = print_resp and g = "\<lambda>v. v" and vs = vs])
    show "parse (''*'' @ size_string n @ CRLF @ concat (map print_resp vs) @ [])
        (length (''*'' @ size_string n @ CRLF @ concat (map print_resp vs))) = Inl (Runtime_error ''Incomplete command'')"
      by (simp add: parse.simps)
  qed (use vs assms(2) s in \<open>auto simp: parse_print_at list_all_iff small_def BUFFER_SIZE_def\<close>)
  then show ?thesis by (simp add: s)
qed (simp add: parse.simps)

lemma iterate_cut:
  assumes "cut_between post" "length (pre @ post) < BUFFER_SIZE" "length post < BUFFER_SIZE - 1024"
  shows "on_iterate fd env written (pre @ post) (length pre) sys = set_conn fd \<lparr>buffer = post, processed_pos = None\<rparr> sys"
  using parse_cut_between [OF assms(1)] assms(2,3)
  by (cases "pre = []") (auto simp: on_iterate_def end_scan_def BUFFER_SIZE_def Let_def)

text \<open>A round of the thread: one read and the iterations of the scan loop behind it.\<close>

definition read_round :: "int \<Rightarrow> 'l environment \<Rightarrow> string \<Rightarrow> ('l environment \<times> RespValue) list \<Rightarrow> 'l event list" where
  "read_round fd env chunk reqs = Readable fd chunk # iterations fd reqs @ [Iterate fd env True]"

lemma serve_round:
  assumes "\<not> aborted sys" "map_of (conns sys) fd = Some \<lparr>buffer = b, processed_pos = None\<rparr>"
    and "chunk \<noteq> []" "b @ chunk = wire reqs @ kept" "length (wire reqs @ kept) < BUFFER_SIZE" "list_all (canonical \<circ> snd) reqs"
    and "cut_between kept" "length kept < BUFFER_SIZE - 1024"
    and "process_each fd reqs (shared sys) = (map Some rs, srv)"
  shows "run_machine sys_step sys (Readable fd chunk # iterations fd reqs @ [Iterate fd env written]) =
    set_conn fd \<lparr>buffer = kept, processed_pos = None\<rparr> (sys\<lparr>shared := srv, sent := sent sys @ map (Pair fd) rs\<rparr>)"
proof -
  let ?s = "set_conn fd \<lparr>buffer = wire reqs @ kept, processed_pos = Some 0\<rparr> sys"
  have "sys_step sys (Readable fd chunk) = ?s"
    using sys_step_readable [OF assms(1,2), of chunk] on_readable_fits [of chunk "\<lparr>buffer = b, processed_pos = None\<rparr>" fd sys]
      assms(3,4,5) by simp
  moreover have "run_machine sys_step ?s (iterations fd reqs) =
      set_conn fd \<lparr>buffer = wire reqs @ kept, processed_pos = Some (length (wire reqs))\<rparr>
        (?s\<lparr>shared := srv, sent := sent sys @ map (Pair fd) rs\<rparr>)"
    using scan_requests [of ?s reqs "[]" kept fd rs srv] assms by simp
  ultimately show ?thesis
    using assms(1) by (simp add: run_machine_append sys_step_iterate iterate_cut [OF assms(7,5,8)])
qed

lemma serve_requests:
  assumes "\<not> aborted sys" "map_of (conns sys) fd = Some \<lparr>buffer = b, processed_pos = None\<rparr>"
    and "chunk \<noteq> []" "b @ chunk = wire reqs" "length (wire reqs) < BUFFER_SIZE" "list_all (canonical \<circ> snd) reqs"
    and "process_each fd reqs (shared sys) = (map Some rs, srv)"
  shows "run_machine sys_step sys (Readable fd chunk # iterations fd reqs @ [Iterate fd env written]) =
    set_conn fd \<lparr>buffer = [], processed_pos = None\<rparr> (sys\<lparr>shared := srv, sent := sent sys @ map (Pair fd) rs\<rparr>)"
  using assms by (intro serve_round) (simp_all add: cut_between_def BUFFER_SIZE_def)

text \<open>
  A stream in pieces: each piece is a chunk, the requests it completes and the beginning of the
  next request that is left over; \<open>b\<close> is what was left over before.
\<close>

fun pieces_ok :: "string \<Rightarrow> (string \<times> ('l environment \<times> RespValue) list \<times> string) list \<Rightarrow> bool" where
  "pieces_ok b [] \<longleftrightarrow> True"
| "pieces_ok b ((chunk, reqs, kept) # ps) \<longleftrightarrow>
     chunk \<noteq> [] \<and> b @ chunk = wire reqs @ kept \<and> length (wire reqs @ kept) < BUFFER_SIZE \<and>
     length kept < BUFFER_SIZE - 1024 \<and> cut_between kept \<and> list_all (canonical \<circ> snd) reqs \<and> pieces_ok kept ps"

definition piece_events ::
  "int \<Rightarrow> 'l environment \<Rightarrow> (string \<times> ('l environment \<times> RespValue) list \<times> string) list \<Rightarrow> 'l event list" where
  "piece_events fd env ps = concat (map (\<lambda>(chunk, reqs, kept). read_round fd env chunk reqs) ps)"

lemma process_each_append:
  assumes "process_each fd (xs @ ys) srv = (map Some rs, srv'')"
  obtains rs1 rs2 srv' where "rs = rs1 @ rs2" "process_each fd xs srv = (map Some rs1, srv')"
    "process_each fd ys srv' = (map Some rs2, srv'')"
  using assms
proof (induction xs arbitrary: srv rs thesis)
  case Nil
  then show ?case using Nil.prems(1) [of "[]" rs srv] by simp
next
  case (Cons x xs)
  obtain env cmd where x: "x = (env, cmd)" by (cases x)
  obtain r rs' srv1 where r: "rs = r # rs'" "process_command env fd cmd srv = (Some r, srv1)"
    "process_each fd (xs @ ys) srv1 = (map Some rs', srv'')"
    using Cons.prems(2) unfolding x append_Cons by (rule process_each_ConsE)
  obtain rs1 rs2 srv' where q: "rs' = rs1 @ rs2" "process_each fd xs srv1 = (map Some rs1, srv')"
    "process_each fd ys srv' = (map Some rs2, srv'')"
    using Cons.IH [OF _ r(3)] by blast
  show ?case by (rule Cons.prems(1) [of "r # rs1" rs2 srv']) (simp_all add: x r q)
qed

lemma serve_pieces:
  assumes "\<not> aborted sys" "map_of (conns sys) fd = Some \<lparr>buffer = b, processed_pos = None\<rparr>" "pieces_ok b ps"
    and "process_each fd (concat (map (fst \<circ> snd) ps)) (shared sys) = (map Some rs, srv)"
  shows "run_machine sys_step sys (piece_events fd env ps) =
    set_conn fd \<lparr>buffer = last (b # map (snd \<circ> snd) ps), processed_pos = None\<rparr>
      (sys\<lparr>shared := srv, sent := sent sys @ map (Pair fd) rs\<rparr>)"
  using assms
proof (induction ps arbitrary: b sys rs)
  case Nil
  then show ?case by (simp add: piece_events_def set_conn_same)
next
  case (Cons p ps)
  obtain chunk reqs kept where p: "p = (chunk, reqs, kept)" by (cases p) auto
  have "process_each fd (reqs @ concat (map (fst \<circ> snd) ps)) (shared sys) = (map Some rs, srv)"
    using Cons.prems(4) by (simp add: p comp_def)
  then obtain rs1 rs2 srv' where rs: "rs = rs1 @ rs2" "process_each fd reqs (shared sys) = (map Some rs1, srv')"
    "process_each fd (concat (map (fst \<circ> snd) ps)) srv' = (map Some rs2, srv)"
    by (rule process_each_append)
  let ?s = "set_conn fd \<lparr>buffer = kept, processed_pos = None\<rparr> (sys\<lparr>shared := srv', sent := sent sys @ map (Pair fd) rs1\<rparr>)"
  have "run_machine sys_step sys (read_round fd env chunk reqs) = ?s"
    unfolding read_round_def using Cons.prems rs(2) by (intro serve_round) (auto simp: p)
  moreover have "run_machine sys_step ?s (piece_events fd env ps) =
      set_conn fd \<lparr>buffer = last (kept # map (snd \<circ> snd) ps), processed_pos = None\<rparr>
        (?s\<lparr>shared := srv, sent := sent ?s @ map (Pair fd) rs2\<rparr>)"
    using Cons.prems rs(3) by (intro Cons.IH) (simp_all add: p comp_def)
  ultimately show ?case by (simp add: p piece_events_def run_machine_append rs(1)) (simp add: set_conn_def update_update comp_def)
qed

lemma scan_fails:
  assumes "\<not> aborted sys" "map_of (conns sys) fd = Some \<lparr>buffer = [], processed_pos = None\<rparr>"
    and "bytes \<noteq> []" "length bytes < BUFFER_SIZE"
    and "parse bytes 0 = Inl (Runtime_error m)" "m \<noteq> ''Incomplete command''"
  shows "run_machine sys_step sys [Readable fd bytes, Iterate fd env written] = cleanup fd (send fd (err m) sys)"
  using assms sys_step_readable [OF assms(1,2), of bytes]
  by (simp add: on_readable_fits sys_step_iterate on_iterate_def)
    (simp add: cleanup_def set_conn_def send_def delete_update)

lemma scan_dies:
  assumes "\<not> aborted sys" "map_of (conns sys) fd = Some \<lparr>buffer = [], processed_pos = None\<rparr>"
    and "bytes \<noteq> []" "length bytes < BUFFER_SIZE" "parse bytes 0 = Inl Length_error"
  shows "aborted (run_machine sys_step sys [Readable fd bytes, Iterate fd env written])"
  using assms sys_step_readable [OF assms(1,2), of bytes]
  by (simp add: on_readable_fits sys_step_iterate on_iterate_def)

lemma scan_crashes:
  assumes "\<not> aborted sys" "map_of (conns sys) fd = Some \<lparr>buffer = [], processed_pos = None\<rparr>"
    and "length (print_resp cmd) < BUFFER_SIZE" "canonical cmd" "process_command env fd cmd (shared sys) = (None, srv)"
  shows "aborted (run_machine sys_step sys [Readable fd (print_resp cmd), Iterate fd env written])"
proof -
  have "parse (print_resp cmd) 0 = Inr (cmd, length (print_resp cmd))"
    using parse_print_at [of cmd "[]" "[]"] assms(3,4) by (simp add: small_def BUFFER_SIZE_def)
  then show ?thesis
    using assms sys_step_readable [OF assms(1,2), of "print_resp cmd"]
    by (simp add: on_readable_fits sys_step_iterate on_iterate_def)
qed

lemma aborted_stays: "aborted sys \<Longrightarrow> run_machine sys_step sys es = sys"
  by (induction es) (simp_all add: sys_step_def)

lemma stoi_zero: "stoi ''0'' = Inr 0"
  by (simp add: stoi_def signed_in_def scan_number_def scan_sign_def digits_val_def digit_val_def is_digit_def is_space_def ord_def)

lemma parse_negative_count:
  assumes "0 < n" "n \<le> 2 ^ 64 - 2 ^ 59"
  shows "parse (''*'' @ to_string (- int n) @ CRLF) 0 = Inl Length_error"
proof -
  have "stoul (to_string (- int n)) = Inr (2 ^ 64 - n)"
    using scan_number_to_string [of "[]" "- int n"] assms by (simp add: stoul_def size_wrap_def zmod_zminus1_eq_if nat_diff_distrib)
  moreover have "read_line (''*'' @ to_string (- int n) @ CRLF) (Suc 0) = Inr (to_string (- int n), length (to_string (- int n)) + 3)"
    using read_line_after [of "to_string (- int n)" "[]" "CHR ''*''" "[]"] length_to_string [of "- int n"] assms by (simp add: small_def)
  moreover have "max_vector < 2 ^ 64 - n" using assms by (simp add: max_vector_def)
  ultimately show ?thesis
    using parse_char_at [of "[]" "CHR ''*''" "to_string (- int n) @ CRLF"] by (simp add: parse_array.simps array_count_def)
qed

section \<open>Published messages\<close>

definition queue_messages :: "string \<Rightarrow> nat \<Rightarrow> 'l processor \<Rightarrow> 'l processor" where
  "queue_messages m n p =
     p\<lparr>pubsub_messages := pubsub_messages p @ replicate n m,
       notifications := (if notify_write_fd p = - 1 then notifications p else notifications p + n)\<rparr>"

lemma queue_messages_0 [simp]: "queue_messages m 0 p = p"
  by (simp add: queue_messages_def)

lemma queue_messages_Suc: "queue_messages m n (queue_pubsub_message m p) = queue_messages m (Suc n) p"
  by (simp add: queue_messages_def queue_pubsub_message_def Let_def)

lemma map_of_publish:
  "map_of (fold (deliver m) fds cs) fd = map_option (queue_messages m (count_list fds fd)) (map_of cs fd)"
proof (induction fds arbitrary: cs)
  case (Cons f fds)
  then show ?case
    by (auto simp: deliver_def queue_messages_Suc split: option.split)
qed (simp add: option.map_ident_strong)

lemma process_publish:
  assumes "\<not> in_transaction (client fd srv)"
  shows "process_command env fd (request [''PUBLISH'', ch, msg]) srv =
    (let subs = get_subscribers ch (pubsub (keyspace srv))
     in (Some (int_reply (int (length subs))), srv\<lparr>clients := fold (deliver (message_text ch msg)) subs (clients srv)\<rparr>))"
  using assms by (simp add: process_command_def execute_def handle_publish_def Let_def)

lemma client_publish:
  assumes "registered fd srv"
  shows "client fd (srv\<lparr>clients := fold (deliver m) fds (clients srv)\<rparr>) =
    queue_messages m (count_list fds fd) (client fd srv)"
proof -
  obtain p where "map_of (clients srv) fd = Some p" using registered_client [OF assms] by blast
  then show ?thesis by (simp add: client_def map_of_publish)
qed

lemma sent_drain:
  "sent (drain fd (\<lambda>_. True) i msgs sys) = sent sys @ map (Pair fd) msgs"
  by (induction msgs arbitrary: i sys) simp_all


section \<open>Clients do not disturb each other\<close>

text \<open>What a command of another client may change of a processor: its queue of messages.\<close>

definition only_messages :: "'l processor \<Rightarrow> 'l processor \<Rightarrow> bool" where
  "only_messages p q \<longleftrightarrow> (\<exists>ms n. q = p\<lparr>pubsub_messages := pubsub_messages p @ ms, notifications := notifications p + n\<rparr>)"

lemma only_messages_refl [simp]: "only_messages p p"
  unfolding only_messages_def by (rule exI [of _ "[]"], rule exI [of _ 0]) simp

lemma only_messages_queue: "only_messages p (queue_messages m n p)"
  unfolding only_messages_def queue_messages_def
  by (rule exI [of _ "replicate n m"], rule exI [of _ "if notify_write_fd p = - 1 then 0 else n"]) simp

lemma client_same_clients: "clients srv = clients srv' \<Longrightarrow> client fd srv = client fd srv'"
  by (simp add: client_def)

lemma execute_others:
  assumes "fd' \<noteq> fd" "registered fd' srv"
  shows "only_messages (client fd' srv) (client fd' (snd (execute env fd name args srv)))"
proof (cases "map_of (queued_commands @ expiry_commands) name")
  case (Some h)
  have "client fd' (snd (on_keyspace h clk args srv)) = client fd' srv" for clk
    by (rule client_same_clients) simp
  then show ?thesis unfolding execute_def Some option.case by (simp add: case_prod_beta Let_def)
next
  case None
  have "only_messages (client fd' srv) (client fd' (snd (handle_publish args srv)))"
    by (simp add: handle_publish_def Let_def client_publish [OF assms(2)] only_messages_queue)
  moreover have "client fd' (snd (handle_save b args srv)) = client fd' srv"
    "client fd' (snd (snd (handle_exec env args p srv))) = client fd' srv" for b p
    by (rule client_same_clients, simp)+
  ultimately show ?thesis
    using assms(1) unfolding execute_def None option.case on_client_def by (simp add: case_prod_beta Let_def)
qed

lemma process_command_others:
  "fd' \<noteq> fd \<Longrightarrow> registered fd' srv \<Longrightarrow>
     only_messages (client fd' srv) (client fd' (snd (process_command env fd cmd srv)))"
  by (auto simp: process_command_def Let_def on_client_def case_prod_beta execute_others split: option.split)

section \<open>The scan loop ends\<close>

lemma conns_after_iterate:
  assumes "\<not> aborted sys" "map_of (conns sys) fd = Some \<lparr>buffer = bytes, processed_pos = Some pos\<rparr>"
    and "map_of (conns (sys_step sys (Iterate fd env written))) fd = Some \<lparr>buffer = bytes', processed_pos = Some pos'\<rparr>"
    and "\<not> aborted (sys_step sys (Iterate fd env written))"
  shows "bytes' = bytes \<and> pos < length bytes \<and> pos < pos'"
proof -
  have step: "sys_step sys (Iterate fd env written) = on_iterate fd env written bytes pos sys"
    using sys_step_iterate [OF assms(1,2)] by simp
  have ended: "map_of (conns (end_scan fd bytes pos sys)) fd \<noteq> Some \<lparr>buffer = bytes', processed_pos = Some pos'\<rparr>"
    "map_of (conns (cleanup fd s)) fd \<noteq> Some \<lparr>buffer = bytes', processed_pos = Some pos'\<rparr>" for s :: "'a system"
    by (simp_all add: end_scan_def cleanup_def Let_def)
  show ?thesis
  proof (cases "parse (drop pos bytes) 0")
    case (Inl e)
    then show ?thesis using assms(3,4) ended unfolding step on_iterate_def
      by (cases e) (auto split: if_splits)
  next
    case (Inr x)
    then obtain cmd n where x: "parse (drop pos bytes) 0 = Inr (cmd, n)" by (cases x) auto
    obtain r srv where p: "process_command env fd cmd (shared sys) = (r, srv)" by (rule prod.exhaust)
    show ?thesis
      using assms(3,4) ended parse_forward [OF x] unfolding step on_iterate_def x sum.case prod.case p
      by (cases r) (auto split: if_splits)
  qed
qed

definition scanning :: "int \<Rightarrow> 'l system \<Rightarrow> bool" where
  "scanning fd sys \<longleftrightarrow> \<not> aborted sys \<and>
     (case map_of (conns sys) fd of Some c \<Rightarrow> processed_pos c \<noteq> None | None \<Rightarrow> False)"

lemma scanningE:
  assumes "scanning fd sys"
  obtains bytes pos where "\<not> aborted sys" "map_of (conns sys) fd = Some \<lparr>buffer = bytes, processed_pos = Some pos\<rparr>"
proof -
  from assms obtain c pos where "\<not> aborted sys" "map_of (conns sys) fd = Some c" "processed_pos c = Some pos"
    by (auto simp: scanning_def split: option.splits)
  then show ?thesis using that [of "buffer c" pos] by simp
qed

lemma not_scanning_stays: "\<not> scanning fd sys \<Longrightarrow> sys_step sys (Iterate fd env written) = sys"
  by (auto simp: scanning_def sys_step_def split: option.splits)

lemma scan_ends:
  assumes "map_of (conns sys) fd = Some \<lparr>buffer = bytes, processed_pos = Some pos\<rparr>" "length bytes - pos < length ts"
  shows "\<not> scanning fd (run_machine sys_step sys (map (\<lambda>(env, written). Iterate fd env written) ts))"
  using assms
proof (induction ts arbitrary: sys pos)
  case (Cons t ts)
  obtain env written where t: "t = (env, written)" by (cases t)
  let ?s = "sys_step sys (Iterate fd env written)"
  have idle: "run_machine sys_step s (map (\<lambda>(env, written). Iterate fd env written) ts) = s"
    if "\<not> scanning fd s" for s :: "'a system"
    using that by (induction ts) (auto simp: not_scanning_stays)
  show ?case
  proof (cases "scanning fd sys \<and> scanning fd ?s")
    case True
    then have live: "\<not> aborted sys" by (simp add: scanning_def)
    from True obtain b' p' where s: "\<not> aborted ?s" "map_of (conns ?s) fd = Some \<lparr>buffer = b', processed_pos = Some p'\<rparr>"
      by (auto elim: scanningE)
    have "b' = bytes" "pos < length bytes" "pos < p'"
      using conns_after_iterate [OF live Cons.prems(1) s(2,1)] by simp_all
    then show ?thesis using Cons.IH [of ?s p'] s(2) Cons.prems(2) by (simp add: t)
  next
    case False
    then show ?thesis using idle [of ?s] not_scanning_stays [of fd sys env written] by (auto simp: t)
  qed
qed simp


section \<open>A sample system\<close>

definition sample_system :: "unit system" where
  "sample_system =
     \<lparr>shared = sample_server,
      conns = [(4, \<lparr>buffer = [], processed_pos = None\<rparr>), (5, \<lparr>buffer = [], processed_pos = None\<rparr>)],
      sent = [], aborted = False\<rparr>"

lemma sample_system_simps [simp]:
  "shared sample_system = sample_server" "\<not> aborted sample_system" "sent sample_system = []"
  "map_of (conns sample_system) 4 = Some \<lparr>buffer = [], processed_pos = None\<rparr>"
  "map_of (conns sample_system) 5 = Some \<lparr>buffer = [], processed_pos = None\<rparr>"
  by (simp_all add: sample_system_def)

section \<open>Properties\<close>

lemma sample_unwatch: "process_command sample_env 4 (request [''UNWATCH'']) sample_server = (Some ok_reply, sample_server)"
  by (simp add: process_command_def moved_def routed_def execute_def queued_commands_def expiry_commands_def map_add_def
      on_client_def handle_unwatch_def upper_def toupper_def ord_def Let_def set_client_def sample_server_def client_def make_processor_def)

text \<open>C2. The server's invariant: from the start of the server with any snapshot file, whatever clients
  connect, send, receive and close, in any interleaving, the keyspace, the registry and the
  subscription table stay well formed, every open connection has its processor in the registry, no
  receive buffer ever exceeds the array (with its final zero byte), and a thread that waits in
  \<open>select\<close> has at least 1024 free bytes for the next read.\<close>

theorem connections_stay_well_formed:
  "let sys = run_machine sys_step (fst (main_boot img)) es in
    server_wf (shared sys) \<and>
    (\<forall>fd c. map_of (conns sys) fd = Some c \<longrightarrow>
       registered fd (shared sys) \<and> length (buffer c) < BUFFER_SIZE \<and>
       (processed_pos c = None \<longrightarrow> length (buffer c) + 1024 < BUFFER_SIZE))"
proof -
  have wf: "sys_wf (run_machine sys_step (fst (main_boot img)) es)" by (rule connections.run_inv [OF sys_wf_main_boot])
  show ?thesis
    using wf sys_wf_conn [OF wf]
    by (fastforce simp: Let_def sys_wf_def conn_ok_def BUFFER_SIZE_def split: option.splits)
qed

theorem connections_stay_well_formed_witness:
  "server_wf (shared (run_machine sys_step (fst (main_boot (Some ''REDIS'')))
     [Accepted 4 (Some 6) (Some ()), Readable 4 ''*1'', Iterate 4 sample_env True, Periodic_save True]))"
  using connections_stay_well_formed [where img = "Some ''REDIS''" and
      es = "[Accepted 4 (Some 6) (Some ()), Readable 4 ''*1'', Iterate 4 sample_env True, Periodic_save True]"]
  by (simp only: Let_def)

text \<open>C5. Requests are served in order: when the bytes of a connection, those kept from earlier reads
  and the chunk just read, are a sequence of printed requests, one iteration of the scan loop per
  request processes exactly these requests in their order and sends exactly their replies, and
  the loop ends with an empty buffer in \<open>select\<close>.  Pipelined requests and requests whose first part
  was kept in the buffer are covered.\<close>

theorem requests_served_in_order:
  assumes "\<not> aborted sys" "map_of (conns sys) fd = Some \<lparr>buffer = b, processed_pos = None\<rparr>"
    and "chunk \<noteq> []" "b @ chunk = wire reqs" "length (wire reqs) < BUFFER_SIZE" "list_all (canonical \<circ> snd) reqs"
    and "process_each fd reqs (shared sys) = (map Some rs, srv)"
  shows "run_machine sys_step sys (Readable fd chunk # iterations fd reqs @ [Iterate fd env written]) =
    set_conn fd \<lparr>buffer = [], processed_pos = None\<rparr> (sys\<lparr>shared := srv, sent := sent sys @ map (Pair fd) rs\<rparr>)"
  using assms by (rule serve_requests)

theorem requests_served_in_order_witness:
  "sent (run_machine sys_step sample_system
     (Readable 4 (''*1'' @ CRLF @ ''$7'' @ CRLF @ ''UNWATCH'' @ CRLF @ ''*1'' @ CRLF @ ''$5'' @ CRLF @ ''MULTI'' @ CRLF)
       # [Iterate 4 sample_env True, Iterate 4 sample_env True] @ [Iterate 4 sample_env True])) = [(4, ok_reply), (4, ok_reply)]"
proof -
  let ?reqs = "[(sample_env, request [''UNWATCH'']), (sample_env, request [''MULTI''])]"
  have w: "wire ?reqs = ''*1'' @ CRLF @ ''$7'' @ CRLF @ ''UNWATCH'' @ CRLF @ ''*1'' @ CRLF @ ''$5'' @ CRLF @ ''MULTI'' @ CRLF"
    by (simp add: wire_def request_def bulk_def bulk_reply_def to_string_def nat_digits.simps digit_char_def char_of_def bit_0 CRLF_def)
  have "process_each 4 ?reqs (shared sample_system) =
      (map Some [ok_reply, ok_reply], snd (process_command sample_env 4 (request [''MULTI'']) sample_server))"
    by (simp add: process_multi sample_unwatch)
  then show ?thesis
    using requests_served_in_order [where sys = sample_system and fd = 4 and b = "[]" and reqs = ?reqs and env = sample_env
        and written = True and rs = "[ok_reply, ok_reply]" and chunk = "wire ?reqs"]
    unfolding w iterations_def
    by (simp add: request_def bulk_def BUFFER_SIZE_def)
qed


text \<open>C25. The way the network cuts a stream of requests does not matter as long as it cuts between
  elements: when every read ends behind a request or between two elements of one, and the buffer
  never fills up, the requests are processed exactly once and in order, exactly their replies are
  sent, and what is left over is the beginning of the next request.\<close>

theorem split_stream_served:
  assumes "\<not> aborted sys" "map_of (conns sys) fd = Some \<lparr>buffer = [], processed_pos = None\<rparr>" "pieces_ok [] ps"
    and "process_each fd (concat (map (fst \<circ> snd) ps)) (shared sys) = (map Some rs, srv)"
  shows "run_machine sys_step sys (piece_events fd env ps) =
    set_conn fd \<lparr>buffer = last ([] # map (snd \<circ> snd) ps), processed_pos = None\<rparr>
      (sys\<lparr>shared := srv, sent := sent sys @ map (Pair fd) rs\<rparr>)"
  using assms by (rule serve_pieces)

theorem split_stream_served_witness:
  "sent (run_machine sys_step sample_system (piece_events 4 sample_env
     [(''*1'' @ CRLF, [], ''*1'' @ CRLF), (''$7'' @ CRLF @ ''UNWATCH'' @ CRLF, [(sample_env, request [''UNWATCH''])], [])])) =
   [(4, ok_reply)]"
proof -
  let ?ps = "[(''*1'' @ CRLF, [], ''*1'' @ CRLF), (''$7'' @ CRLF @ ''UNWATCH'' @ CRLF, [(sample_env, request [''UNWATCH''])], [])]"
  have w: "wire [(sample_env, request [''UNWATCH''])] = ''*1'' @ CRLF @ ''$7'' @ CRLF @ ''UNWATCH'' @ CRLF"
    by (simp add: wire_def request_def bulk_def bulk_reply_def to_string_def nat_digits.simps digit_char_def char_of_def bit_0 CRLF_def)
  have "cut_between (''*1'' @ CRLF)"
    unfolding cut_between_def
    by (intro disjI2 exI [of _ 1] exI [of _ "[]"]) (simp add: to_string_def nat_digits.simps digit_char_def char_of_def bit_0 max_vector_def)
  then have ok: "pieces_ok [] ?ps"
    using w by (simp add: wire_def [of "[]"] BUFFER_SIZE_def) (simp add: cut_between_def request_def bulk_def)
  have "run_machine sys_step sample_system (piece_events 4 sample_env ?ps) =
      set_conn 4 \<lparr>buffer = last ([] # map (snd \<circ> snd) ?ps), processed_pos = None\<rparr>
        (sample_system\<lparr>shared := sample_server, sent := sent sample_system @ map (Pair 4) [ok_reply]\<rparr>)"
    by (rule split_stream_served [OF _ _ ok]) (simp_all add: sample_unwatch)
  then show ?thesis by simp
qed

text \<open>A request must not be cut inside an element: when a read ends inside a bulk string of a
  request, in its length line or in its bytes, the server answers with an error and closes the
  connection instead of waiting for the rest.\<close>

theorem cut_element_closes:
  assumes "\<not> aborted sys" "map_of (conns sys) fd = Some \<lparr>buffer = [], processed_pos = None\<rparr>"
    and "i < length ws" "0 < j" "j < length (bulk_reply (ws ! i))" "length (print_resp (request ws)) < BUFFER_SIZE"
  shows "let bytes = ''*'' @ size_string (length ws) @ CRLF @ concat (map bulk_reply (take i ws)) @ take j (bulk_reply (ws ! i)) in
    \<exists>m. run_machine sys_step sys [Readable fd bytes, Iterate fd env written] = cleanup fd (send fd (err m) sys) \<and>
      m \<in> {''Incomplete line'', ''Incomplete bulk string''}"
proof -
  let ?pre = "''*'' @ size_string (length ws) @ CRLF @ concat (map bulk_reply (take i ws))"
  let ?bytes = "?pre @ take j (bulk_reply (ws ! i))"
  have all: "print_resp (request ws) = ''*'' @ size_string (length ws) @ CRLF @ concat (map bulk_reply ws)"
    by (simp add: request_def bulk_def comp_def)
  have ws: "ws = take i ws @ ws ! i # drop (Suc i) ws" using assms(3) by (rule id_take_nth_drop)
  have "concat (map bulk_reply ws) =
      concat (map bulk_reply (take i ws)) @ bulk_reply (ws ! i) @ concat (map bulk_reply (drop (Suc i) ws))"
    by (subst ws) simp
  then have len: "length (?pre @ bulk_reply (ws ! i)) < BUFFER_SIZE" using assms(6) by (simp add: all)
  have lenb: "length ?bytes < BUFFER_SIZE" using len assms(5) by simp
  have "length ws \<le> length (concat (map bulk_reply ws))" by (rule length_le_concat) (simp add: bulk_reply_def)
  then have n: "length ws \<le> max_vector" using assms(6) by (simp add: all max_vector_def BUFFER_SIZE_def)
  obtain m where m: "parse ?bytes (length ?pre) = Inl (Runtime_error m)" "m \<in> {''Incomplete line'', ''Incomplete bulk string''}"
    using parse_bulk_cut [OF _ assms(4,5), of ?pre] len by (auto simp: small_def BUFFER_SIZE_def)
  have "parse ?bytes 0 = Inl (Runtime_error m)"
    using parse_array_cut [of "take i ws" bulk_reply bulk "length ws" "take j (bulk_reply (ws ! i))"] m(1) n assms(3) lenb
    by (simp add: parse_bulk_at small_def BUFFER_SIZE_def)
  moreover have "m \<noteq> ''Incomplete command''" using m(2) by auto
  ultimately show ?thesis using scan_fails [OF assms(1,2) _ lenb] m(2) by auto
qed

theorem cut_element_closes_witness:
  "\<exists>m. run_machine sys_step sample_system
     [Readable 4 (''*1'' @ CRLF @ ''$4'' @ CRLF @ ''IN''), Iterate 4 sample_env True] =
   cleanup 4 (send 4 (err m) sample_system) \<and> m \<in> {''Incomplete line'', ''Incomplete bulk string''}"
proof -
  have w: "''*'' @ size_string (length [''INFO'']) @ CRLF @ concat (map bulk_reply (take 0 [''INFO''])) @
      take 6 (bulk_reply ([''INFO''] ! 0)) = ''*1'' @ CRLF @ ''$4'' @ CRLF @ ''IN''"
    and l: "length (bulk_reply ''INFO'') = 10" "length (print_resp (request [''INFO''])) = 14"
    by (simp_all add: request_def bulk_def bulk_reply_def to_string_def nat_digits.simps digit_char_def char_of_def bit_0 CRLF_def)
  show ?thesis
    using cut_element_closes [where sys = sample_system and fd = 4 and ws = "[''INFO'']" and i = 0 and j = 6 and env = sample_env
        and written = True] l unfolding w Let_def
    by (simp add: BUFFER_SIZE_def)
qed

text \<open>C35. One client can end the server: \<open>stoul\<close> turns a negative element count into a huge one, so from -1 down to
  2^59 - 2^64 it makes \<open>vector::reserve\<close> throw an exception that the connection loop does not catch, and the
  process dies for all clients.\<close>

theorem negative_count_ends_server:
  assumes "\<not> aborted sys" "map_of (conns sys) fd = Some \<lparr>buffer = [], processed_pos = None\<rparr>"
    and "0 < n" "n \<le> 2 ^ 64 - 2 ^ 59"
  shows "aborted (run_machine sys_step sys ([Readable fd (''*'' @ to_string (- int n) @ CRLF), Iterate fd env written] @ es))"
proof -
  have "length (''*'' @ to_string (- int n) @ CRLF) < BUFFER_SIZE"
    using length_to_string [of "- int n"] assms(4) by (simp add: BUFFER_SIZE_def)
  then have "aborted (run_machine sys_step sys [Readable fd (''*'' @ to_string (- int n) @ CRLF), Iterate fd env written])"
    using assms by (intro scan_dies parse_negative_count) simp_all
  then show ?thesis unfolding run_machine_append by (simp add: aborted_stays del: run_machine.simps)
qed

theorem negative_count_ends_server_witness:
  "aborted (run_machine sys_step sample_system ([Readable 4 (''*-1'' @ CRLF), Iterate 4 sample_env True] @ [Accepted 9 (Some 10) (Some ())]))"
  using negative_count_ends_server [where sys = sample_system and fd = 4 and env = sample_env and written = True and n = 1
      and es = "[Accepted 9 (Some 10) (Some ())]"]
  by (simp add: to_string_def nat_digits.simps digit_char_def char_of_def bit_0 del: run_machine.simps)

text \<open>C36. A script can end the server: when it fails with an error value that has no text (for example a
  table), \<open>eval\<close> adds a null pointer to a string, so the process dies for all clients.\<close>

theorem script_error_ends_server:
  assumes "\<not> aborted sys" "map_of (conns sys) fd = Some \<lparr>buffer = [], processed_pos = None\<rparr>"
    and "\<not> in_transaction (client fd (shared sys))" "validate_script script"
    and "length (print_resp (request [''EVAL'', script, ''0''])) < BUFFER_SIZE"
    and "lua env (lua_state (engine (client fd (shared sys)))) (c_str script) [] [] = Inr (Failed v l)" "tostring v = None"
  shows "aborted (run_machine sys_step sys ([Readable fd (print_resp (request [''EVAL'', script, ''0''])), Iterate fd env written] @ es))"
proof -
  have "fst (process_command env fd (request [''EVAL'', script, ''0'']) (shared sys)) = None"
    using assms(3,4,6,7)
    by (simp add: process_command_def execute_def handle_eval_def script_arguments_def stoi_zero eval_def case_prod_beta size_wrap_def
        Let_def)
  then obtain srv where "process_command env fd (request [''EVAL'', script, ''0'']) (shared sys) = (None, srv)"
    by (metis prod.collapse)
  then have "aborted (run_machine sys_step sys [Readable fd (print_resp (request [''EVAL'', script, ''0''])), Iterate fd env written])"
    using assms(1,2,5) by (intro scan_crashes) (auto simp: request_def bulk_def)
  then show ?thesis unfolding run_machine_append by (simp add: aborted_stays del: run_machine.simps)
qed

theorem script_error_ends_server_witness:
  "aborted (run_machine sys_step sample_system
     ([Readable 4 (print_resp (request [''EVAL'', ''error({})'', ''0''])),
       Iterate 4 (sample_env\<lparr>lua := \<lambda>l script keys sargs. Inr (Failed Lua_other ())\<rparr>) True] @ []))"
  by (rule script_error_ends_server [where v = Lua_other and l = "()"])
    (simp_all add: tostring_def validate_script_def request_def bulk_def bulk_reply_def BUFFER_SIZE_def to_string_def nat_digits.simps)

text \<open>C22. The scan loop ends: whatever the bytes are and whatever the commands do, after at most one
  iteration more than there are unprocessed bytes the thread has left the loop (it waits in
  \<open>select\<close>, has closed the connection, or the process has died).\<close>

theorem scan_loop_terminates:
  assumes "map_of (conns sys) fd = Some \<lparr>buffer = bytes, processed_pos = Some pos\<rparr>" "length bytes - pos < length ts"
  shows "\<not> scanning fd (run_machine sys_step sys (map (\<lambda>(env, written). Iterate fd env written) ts))"
  using assms by (rule scan_ends)

theorem scan_loop_terminates_witness:
  "\<not> scanning 4 (run_machine sys_step
     (set_conn 4 \<lparr>buffer = ''*1'' @ CRLF, processed_pos = Some 2\<rparr> sample_system)
     (map (\<lambda>(env, written). Iterate 4 env written) (replicate 3 (sample_env, True))))"
  by (rule scan_loop_terminates [where bytes = "''*1'' @ CRLF" and pos = 2]) simp_all

text \<open>C20. Published messages arrive: PUBLISH answers with the number of subscriptions of the channel and
  leaves the keyspace alone, and the next notification of a connected client sends it everything
  that was pending followed by one message per subscription it has on the channel.\<close>

theorem published_messages_arrive:
  assumes "\<not> in_transaction (client fd (shared sys))" "registered fd' (shared sys)"
  shows "\<exists>srv. process_command env fd (request [''PUBLISH'', ch, msg]) (shared sys) =
      (Some (int_reply (int (length (get_subscribers ch (pubsub (keyspace (shared sys))))))), srv) \<and>
    keyspace srv = keyspace (shared sys) \<and>
    sent (on_notified fd' (\<lambda>_. True) (sys\<lparr>shared := srv\<rparr>)) =
      sent sys @ map (Pair fd') (pubsub_messages (client fd' (shared sys)) @
        replicate (count_list (get_subscribers ch (pubsub (keyspace (shared sys)))) fd') (message_text ch msg))"
  using assms
  by (simp add: process_publish Let_def on_notified_def sent_drain client_publish queue_messages_def)

theorem published_messages_arrive_witness:
  "let db = sample_db\<lparr>pubsub := subscribe 5 ''news'' (pubsub sample_db)\<rparr>;
       sys = sample_system\<lparr>shared := sample_server\<lparr>keyspace := db\<rparr>\<rparr>
   in \<exists>srv. sent (on_notified 5 (\<lambda>_. True) (sys\<lparr>shared := srv\<rparr>)) = [(5, message_text ''news'' ''hi'')]"
proof -
  let ?sys = "sample_system\<lparr>shared := sample_server\<lparr>keyspace := sample_db\<lparr>pubsub := subscribe 5 ''news'' (pubsub sample_db)\<rparr>\<rparr>\<rparr>"
  have "get_subscribers ''news'' (pubsub (keyspace (shared ?sys))) = [5]"
    by (simp add: get_subscribers_subscribe sample_db_ok(3)) (simp add: get_subscribers_def)
  then show ?thesis
    using published_messages_arrive [where sys = ?sys and fd = 4 and fd' = 5 and ch = "''news''" and msg = "''hi''" and env = sample_env]
    by (auto simp: Let_def)
qed

text \<open>C37. Subscriptions outlive their connection: the clean-up does not unsubscribe, so after a
  subscriber has disconnected PUBLISH still counts it, and a new client that is given the same
  descriptor receives the messages of channels it never subscribed to.\<close>

theorem subscription_outlives_connection:
  assumes "\<not> aborted sys" "map_of (conns sys) fd = Some \<lparr>buffer = [], processed_pos = None\<rparr>"
    and "fd \<in> set (get_subscribers ch (pubsub (keyspace (shared sys))))"
    and "fd' \<noteq> fd" "\<not> in_transaction (client fd' (shared sys))" "0 \<le> fd"
  shows "let sys' = run_machine sys_step sys [Readable fd [], Accepted fd (Some n) (Some l)]; srv = shared sys' in
    client fd srv = make_processor n l \<and>
    (\<exists>srv'. process_command env fd' (request [''PUBLISH'', ch, msg]) srv =
        (Some (int_reply (int (length (get_subscribers ch (pubsub (keyspace (shared sys))))))), srv') \<and>
      message_text ch msg \<in> set (pubsub_messages (client fd srv')))"
proof -
  have hung: "sys_step sys (Readable fd []) = cleanup fd sys"
    using assms(1,2) by (simp add: sys_step_readable on_readable_def)
  have new: "sys_step (cleanup fd sys) (Accepted fd (Some n) (Some l)) = accept fd n l (cleanup fd sys)"
    using assms(1,6) by (simp add: sys_step_def on_accepted_def cleanup_def start_client_def)
  let ?srv = "shared (accept fd n l (cleanup fd sys))"
  have srv: "client fd ?srv = make_processor n l" "registered fd ?srv" "keyspace ?srv = keyspace (shared sys)"
    "client fd' ?srv = client fd' (shared sys)"
    using assms(4) by (simp_all add: accept_def cleanup_def set_conn_def) (simp_all add: client_def)
  have "count_list (get_subscribers ch (pubsub (keyspace (shared sys)))) fd \<noteq> 0"
    using assms(3) by (simp add: count_list_0_iff)
  then show ?thesis
    using assms(5) srv by (simp add: hung new process_publish Let_def client_publish queue_messages_def)
qed

theorem subscription_outlives_connection_witness:
  "let db = sample_db\<lparr>pubsub := subscribe 5 ''news'' (pubsub sample_db)\<rparr>;
       sys = sample_system\<lparr>shared := sample_server\<lparr>keyspace := db\<rparr>\<rparr>
   in client 5 (shared (run_machine sys_step sys [Readable 5 [], Accepted 5 (Some 11) (Some ())])) = make_processor 11 ()"
proof -
  let ?sys = "sample_system\<lparr>shared := sample_server\<lparr>keyspace := sample_db\<lparr>pubsub := subscribe 5 ''news'' (pubsub sample_db)\<rparr>\<rparr>\<rparr>"
  have "5 \<in> set (get_subscribers ''news'' (pubsub (keyspace (shared ?sys))))"
    by (simp add: get_subscribers_subscribe)
  then show ?thesis
    using subscription_outlives_connection [where sys = ?sys and fd = 5 and ch = "''news''" and fd' = 4 and n = 11 and l = "()"
        and env = sample_env and msg = "[]"] by (simp add: Let_def)
qed

text \<open>C21. Clients are isolated: a command of one client changes of another client's state nothing but
  its queue of published messages, to which it can only append; transaction, watched keys and
  scripts of other clients stay as they are.\<close>

theorem clients_are_isolated:
  assumes "fd' \<noteq> fd" "registered fd' srv"
  shows "\<exists>ms n. client fd' (snd (process_command env fd cmd srv)) =
    (client fd' srv)\<lparr>pubsub_messages := pubsub_messages (client fd' srv) @ ms,
      notifications := notifications (client fd' srv) + n\<rparr>"
  using process_command_others [OF assms] by (simp add: only_messages_def)

theorem clients_are_isolated_witness:
  "\<exists>ms n. client 5 (snd (process_command sample_env 4 (request [''MULTI'']) sample_server)) =
    (make_processor 8 ())\<lparr>pubsub_messages := ms, notifications := n\<rparr>"
  using clients_are_isolated [of 5 4 sample_server sample_env "request [''MULTI'']"] by auto

end
