(* ===== verification/Runtime.thy ===== *)
theory Runtime
  imports Server_Laws
begin

text \<open>
  The whole process: \<open>main\<close> with its listening socket, the threads of the clients (theory \<open>Server\<close>) and
  the worker thread of the saver (theory \<open>Save_Daemon\<close>) on one shared keyspace.  The threads
  interleave freely; a step of the process is a step of one of them.  A save is one step: what another
  thread does while the file is written, and the incomplete file that an abort at that time leaves,
  are not states of this machine (theory \<open>Rdb\<close> says what becomes of a file that was cut).
\<close>

section \<open>State and start-up\<close>

record 'l runtime =
  system_of :: "'l system"
  saver :: save_daemon

text \<open>
  \<open>main\<close> up to the accept loop: \<open>fd\<close> is the result of \<open>socket\<close>, \<open>bind_rv\<close> and \<open>listen_rv\<close> those of \<open>bind\<close> and
  \<open>listen\<close>.  \<open>Inl\<close> is the message of \<open>die\<close>, which ends the process.
\<close>

definition main_start :: "string option \<Rightarrow> int \<Rightarrow> int \<Rightarrow> int \<Rightarrow> string + 'l runtime" where
  "main_start file_bytes fd bind_rv listen_rv =
     (let (sys, d) = main_boot file_bytes
      in if fd < 0 then Inl ''socket()''
         else if bind_rv \<noteq> 0 then Inl ''bind()''
         else if listen_rv \<noteq> 0 then Inl ''listen()''
         else Inr \<lparr>system_of = sys, saver = d\<rparr>)"

section \<open>Steps\<close>

text \<open>
  \<open>Saver_runs\<close> is the worker behind its wait, with its two readings of the clock and whether the
  snapshot file can be opened; the other saver events are its moves from point to point.
\<close>

datatype 'l runtime_event =
    Clients "'l event"
  | Saver_begins int
  | Saver_checks
  | Saver_waits
  | Saver_times_out
  | Saver_spurious
  | Saver_runs int bool int

definition on_saver :: "worker_point \<Rightarrow> (save_daemon \<Rightarrow> save_daemon) \<Rightarrow> 'l runtime \<Rightarrow> 'l runtime" where
  "on_saver w f rt = (if worker (saver rt) = w then rt\<lparr>saver := f (saver rt)\<rparr> else rt)"

text \<open>\<open>handle_client\<close> gives its processor no saver.\<close>

fun of_main :: "'l event \<Rightarrow> 'l event" where
  "of_main (Iterate fd env written) = Iterate fd (env\<lparr>save_daemon_ptr := None\<rparr>) written"
| "of_main ev = ev"

text \<open>The save function that \<open>main\<close> gives to the saver is \<open>db.save_rdb(file)\<close>.\<close>

definition saver_runs :: "bool \<Rightarrow> int \<Rightarrow> bool \<Rightarrow> int \<Rightarrow> 'l runtime \<Rightarrow> 'l runtime" where
  "saver_runs notified now opened now' rt =
     (let d = saver rt; sys = system_of rt; saves = (\<not> stop_requested d \<and> save_due notified now d);
          outcome = (if fst (save_rdb opened (keyspace (shared sys))) then Saved else Not_saved)
      in rt\<lparr>system_of := (if saves then periodic_save opened sys else sys),
            saver := worker_wake notified now outcome now' d\<rparr>)"

definition runtime_step :: "'l runtime \<Rightarrow> 'l runtime_event \<Rightarrow> 'l runtime" where
  "runtime_step rt e =
     (if aborted (system_of rt) then rt
      else case e of
        Clients ev \<Rightarrow>
          (case ev of
             Periodic_save _ \<Rightarrow> rt
           | _ \<Rightarrow> rt\<lparr>system_of := sys_step (system_of rt) (of_main ev)\<rparr>)
      | Saver_begins now \<Rightarrow> on_saver Starting (worker_begin now) rt
      | Saver_checks \<Rightarrow> on_saver Checking worker_check rt
      | Saver_waits \<Rightarrow> on_saver Entering (worker_update (\<lambda>_. Waiting)) rt
      | Saver_times_out \<Rightarrow> on_saver Waiting (worker_update (\<lambda>_. Woken False)) rt
      | Saver_spurious \<Rightarrow> on_saver Waiting (worker_update (\<lambda>_. Woken True)) rt
      | Saver_runs now opened now' \<Rightarrow>
          (case worker (saver rt) of Woken b \<Rightarrow> saver_runs b now opened now' rt | _ \<Rightarrow> rt))"

text \<open>The process refines its two parts: each of its steps is a step or a pause of each part.\<close>

lemma runtime_step_system:
  "system_of (runtime_step rt e) = system_of rt \<or>
   (\<exists>ev. system_of (runtime_step rt e) = sys_step (system_of rt) ev)"
proof (cases "aborted (system_of rt)")
  case False
  then have "periodic_save opened (system_of rt) = sys_step (system_of rt) (Periodic_save opened)" for opened
    by (simp add: sys_step_def)
  then show ?thesis
    using False by (auto simp: runtime_step_def on_saver_def saver_runs_def Let_def
        split: runtime_event.split event.split worker_point.split)
qed (simp add: runtime_step_def)

lemma runtime_step_saver:
  "saver (runtime_step rt e) = saver rt \<or> daemon_step (saver rt) (saver (runtime_step rt e))"
  by (auto simp: runtime_step_def on_saver_def saver_runs_def Let_def
      split: runtime_event.split event.split worker_point.split intro: daemon_step.intros)

section \<open>The invariant of the process\<close>

definition runtime_wf :: "'l runtime \<Rightarrow> bool" where
  "runtime_wf rt \<longleftrightarrow> sys_wf (system_of rt) \<and>
     daemon_reachable ''minimalredis.rdb'' (saver rt) \<and> running (saver rt) \<and> \<not> stop_requested (saver rt) \<and>
     worker_alive (saver rt) \<and> save_interval (saver rt) = 30"

lemma saver_keeps:
  assumes "running (saver rt)" "\<not> stop_requested (saver rt)" "worker_alive (saver rt)"
  shows "running (saver (runtime_step rt e)) \<and> \<not> stop_requested (saver (runtime_step rt e)) \<and>
    worker_alive (saver (runtime_step rt e)) \<and> save_interval (saver (runtime_step rt e)) = save_interval (saver rt)"
  using assms
  by (auto simp: runtime_step_def on_saver_def saver_runs_def daemon_defs worker_alive_def
      split: runtime_event.split event.split worker_point.split save_outcome.split)

interpretation process: machine runtime_step runtime_wf
proof
  fix rt :: "'l runtime" and e :: "'l runtime_event"
  assume wf: "runtime_wf rt"
  then have sys: "sys_wf (system_of rt)" by (simp add: runtime_wf_def)
  have "sys_wf (system_of (runtime_step rt e))"
    using runtime_step_system [of rt e] connections.step_inv [OF sys] sys by auto
  moreover have "daemon_reachable ''minimalredis.rdb'' (saver (runtime_step rt e))"
    using runtime_step_saver [of rt e] wf by (auto simp: runtime_wf_def intro: daemon_reachable.later)
  ultimately show "runtime_wf (runtime_step rt e)"
    using wf saver_keeps [of rt e] by (simp add: runtime_wf_def)
qed

lemma runtime_wf_start:
  assumes "main_start found fd bind_rv listen_rv = Inr rt"
  shows "runtime_wf rt"
proof -
  have rt: "rt = \<lparr>system_of = fst (main_boot found), saver = start (make_daemon ''minimalredis.rdb'' False)\<rparr>"
    using assms by (auto simp: main_start_def main_boot_def case_prod_beta Let_def split: if_splits)
  have "daemon_reachable ''minimalredis.rdb'' (start (make_daemon ''minimalredis.rdb'' False))"
    by (rule daemon_reachable.later [OF daemon_reachable.initial daemon_step.start_step])
  moreover have "sys_wf (fst (main_boot found))"
    by (rule sys_wf_main_boot)
  ultimately show ?thesis
    by (simp add: rt runtime_wf_def main_boot_def boot_def start_def make_daemon_def worker_alive_def)
qed

section \<open>A round of the saver\<close>

text \<open>
  The moves of the worker from each of its points to its next save, when it begins at time \<open>t\<close> and
  finds that the interval has passed.
\<close>

definition save_now :: "save_daemon \<Rightarrow> int \<Rightarrow> 'l runtime_event" where
  "save_now d t = Saver_runs (max t (last_save_time d) + save_interval d * 1000000000) True t"

definition saver_round :: "save_daemon \<Rightarrow> int \<Rightarrow> 'l runtime_event list" where
  "saver_round d t =
     (let run = save_now d t
      in case worker d of
           Starting \<Rightarrow> [Saver_begins t, Saver_checks, Saver_waits, Saver_times_out, run]
         | Checking \<Rightarrow> [Saver_checks, Saver_waits, Saver_times_out, run]
         | Entering \<Rightarrow> [Saver_waits, Saver_times_out, run]
         | Waiting \<Rightarrow> [Saver_times_out, run]
         | Woken _ \<Rightarrow> [run]
         | _ \<Rightarrow> [])"

lemma saver_move_steps:
  assumes "\<not> aborted (system_of rt)"
  shows "worker (saver rt) = Starting \<Longrightarrow> runtime_step rt (Saver_begins t) = rt\<lparr>saver := worker_begin t (saver rt)\<rparr>"
    "worker (saver rt) = Checking \<Longrightarrow> runtime_step rt Saver_checks = rt\<lparr>saver := worker_check (saver rt)\<rparr>"
    "worker (saver rt) = Entering \<Longrightarrow> runtime_step rt Saver_waits = rt\<lparr>saver := (saver rt)\<lparr>worker := Waiting\<rparr>\<rparr>"
    "worker (saver rt) = Waiting \<Longrightarrow> runtime_step rt Saver_times_out = rt\<lparr>saver := (saver rt)\<lparr>worker := Woken False\<rparr>\<rparr>"
    "worker (saver rt) = Woken b \<Longrightarrow> runtime_step rt (Saver_runs now opened now') = saver_runs b now opened now' rt"
  using assms by (simp_all add: runtime_step_def on_saver_def)

text \<open>What a save that succeeds leaves behind.\<close>

definition saved :: "'l runtime \<Rightarrow> 'l runtime \<Rightarrow> bool" where
  "saved rt rt' \<longleftrightarrow> shared (system_of rt') = (shared (system_of rt))\<lparr>snapshot := Some (rdb_image (keyspace (shared (system_of rt))))\<rparr> \<and>
     successful_saves (saver rt') = wrap32 (successful_saves (saver rt) + 1) \<and> failed_saves (saver rt') = failed_saves (saver rt)"

lemma saver_runs_saves:
  assumes "\<not> stop_requested (saver rt)" "save_due b now (saver rt)"
  shows "saved rt (saver_runs b now True now' rt)"
  using assms
  by (simp add: saved_def saver_runs_def Let_def periodic_save_def save_rdb_def worker_wake_def perform_save_def)

lemma saver_round_saves:
  assumes "\<not> aborted (system_of rt)" "\<not> stop_requested (saver rt)" "worker_alive (saver rt)"
  shows "saved rt (run_machine runtime_step rt (saver_round (saver rt) t))"
proof -
  have run: "saved rt (runtime_step rt' (save_now (saver rt) t))"
    if "system_of rt' = system_of rt" "\<not> stop_requested (saver rt')" "worker (saver rt') = Woken b"
      "save_interval (saver rt') = save_interval (saver rt)" "last_save_time (saver rt') \<le> max t (last_save_time (saver rt))"
      "successful_saves (saver rt') = successful_saves (saver rt)" "failed_saves (saver rt') = failed_saves (saver rt)" for rt' b
  proof -
    have "saved rt' (runtime_step rt' (save_now (saver rt) t))"
      using saver_move_steps(5) [of rt' b] saver_runs_saves [of rt' b] that assms(1)
      by (simp add: save_now_def save_due_def)
    then show ?thesis using that by (simp add: saved_def)
  qed
  show ?thesis
    using assms
    by (cases "worker (saver rt)")
      (auto simp: saver_round_def Let_def saver_move_steps worker_begin_def worker_check_def worker_alive_def intro!: run)
qed

section \<open>Properties\<close>

text \<open>C13. The invariant of the process: whatever file \<open>main\<close> finds, once it listens, in every interleaving
  of the steps of all clients with those of the saver the shared state is well formed, every open
  connection belongs to a registered client and its bytes fit into the receive buffer, and the saver
  runs with one worker that has neither ended nor been asked to, so that another \<open>start\<close> changes
  nothing.  The processing of a command and a save are single steps here.\<close>

theorem process_stays_well_formed:
  assumes "main_start found fd bind_rv listen_rv = Inr rt"
  shows "let rt' = run_machine runtime_step rt es; sys = system_of rt' in
    server_wf (shared sys) \<and>
    (\<forall>fd c. map_of (conns sys) fd = Some c \<longrightarrow> registered fd (shared sys) \<and> length (buffer c) < BUFFER_SIZE) \<and>
    running (saver rt') \<and> \<not> stop_requested (saver rt') \<and> worker_alive (saver rt') \<and> start (saver rt') = saver rt'"
proof -
  have wf: "runtime_wf (run_machine runtime_step rt es)"
    by (rule process.run_inv [OF runtime_wf_start [OF assms]])
  then have sys: "sys_wf (system_of (run_machine runtime_step rt es))" by (simp add: runtime_wf_def)
  have "registered fd (shared (system_of (run_machine runtime_step rt es))) \<and> length (buffer c) < BUFFER_SIZE"
    if "map_of (conns (system_of (run_machine runtime_step rt es))) fd = Some c" for fd c
    using sys_wf_conn [OF sys that] by (auto simp: conn_ok_def split: option.splits)
  then show ?thesis
    using wf sys by (simp add: Let_def runtime_wf_def sys_wf_def start_def)
qed

theorem process_stays_well_formed_witness:
  "\<exists>rt :: unit runtime. main_start (Some ''REDIS'') 3 0 0 = Inr rt \<and>
    server_wf (shared (system_of (run_machine runtime_step rt
      [Clients (Accepted 4 (Some 6) (Some ())), Saver_begins 0, Clients (Readable 4 ''*1''), Saver_checks])))"
proof -
  obtain rt :: "unit runtime" where rt: "main_start (Some ''REDIS'') 3 0 0 = Inr rt"
    by (simp add: main_start_def case_prod_beta)
  then show ?thesis
    using process_stays_well_formed [OF rt, of "[Clients (Accepted 4 (Some 6) (Some ())), Saver_begins 0, Clients (Readable 4 ''*1''), Saver_checks]"]
    by (auto simp: Let_def)
qed

text \<open>C14. The saver keeps saving: from every state the process can reach alive, at most five moves of the saver's
  worker (it wakes, finds the interval passed and can open the file) bring it to a save that writes
  the image of the current keyspace and counts it, and changes nothing else of the shared state.\<close>

theorem saver_keeps_saving:
  assumes "main_start found fd bind_rv listen_rv = Inr rt0" "rt = run_machine runtime_step rt0 es" "\<not> aborted (system_of rt)"
  shows "length (saver_round (saver rt) t) \<le> 5 \<and>
    (let rt' = run_machine runtime_step rt (saver_round (saver rt) t); srv = shared (system_of rt) in
      shared (system_of rt') = srv\<lparr>snapshot := Some (rdb_image (keyspace srv))\<rparr> \<and>
      successful_saves (saver rt') = wrap32 (successful_saves (saver rt) + 1) \<and> failed_saves (saver rt') = failed_saves (saver rt))"
proof -
  have wf: "runtime_wf rt"
    unfolding assms(2) by (rule process.run_inv [OF runtime_wf_start [OF assms(1)]])
  then have "saved rt (run_machine runtime_step rt (saver_round (saver rt) t))"
    using assms(3) by (intro saver_round_saves) (simp_all add: runtime_wf_def)
  moreover have "length (saver_round (saver rt) t) \<le> 5"
    by (simp add: saver_round_def Let_def split: worker_point.split)
  ultimately show ?thesis by (simp add: saved_def Let_def)
qed

theorem saver_keeps_saving_witness:
  "\<exists>rt :: unit runtime. main_start None 3 0 0 = Inr rt \<and>
    snapshot (shared (system_of (run_machine runtime_step rt (saver_round (saver rt) 7)))) = Some (rdb_image empty_db)"
proof -
  obtain rt :: "unit runtime" where rt: "main_start None 3 0 0 = Inr rt"
    by (simp add: main_start_def case_prod_beta)
  moreover have "keyspace (shared (system_of rt)) = empty_db" "\<not> aborted (system_of rt)"
    using rt by (auto simp: main_start_def main_boot_def boot_def load_rdb_def)
  ultimately show ?thesis
    using saver_keeps_saving [OF rt, of rt "[]" 7] by (auto simp: Let_def)
qed

text \<open>C34. A restart loses the data: when the process has saved a keyspace whose first record is of the
  kinds named (an empty one, or a record that is not a plain string, or one with a short key that starts
  with a byte from 0x40 to 0x7F), a new process on the same file starts with the empty keyspace, and
  its first periodic save replaces the file by the image of the empty keyspace.\<close>

theorem restart_loses_data:
  fixes rt :: "'l runtime"
  assumes "\<not> aborted (system_of rt)" "\<not> stop_requested (saver rt)" "worker (saver rt) = Woken b" "save_due b now (saver rt)"
    and "first_record_misread (keyspace (shared (system_of rt)))" "0 \<le> fd"
  shows "\<exists>rt1 :: 'l runtime. main_start (snapshot (shared (system_of (runtime_step rt (Saver_runs now True now'))))) fd 0 0 = Inr rt1 \<and>
    keyspace (shared (system_of rt1)) = empty_db \<and>
    snapshot (shared (system_of (run_machine runtime_step rt1 (saver_round (saver rt1) t)))) = Some (rdb_image empty_db)"
proof -
  let ?db = "keyspace (shared (system_of rt))"
  have "snapshot (shared (system_of (runtime_step rt (Saver_runs now True now')))) = snd (save_rdb True ?db)"
    using saver_runs_saves [OF assms(2,4)] saver_move_steps(5) [OF assms(1,3)] by (simp add: saved_def save_rdb_def)
  moreover obtain rt1 :: "'l runtime" where rt1: "main_start (snd (save_rdb True ?db)) fd 0 0 = Inr rt1"
    using assms(6) by (simp add: main_start_def case_prod_beta)
  moreover have sys: "system_of rt1 = fst (main_boot (snd (save_rdb True ?db)))"
    using rt1 assms(6) by (auto simp: main_start_def case_prod_beta)
  then have empty: "keyspace (shared (system_of rt1)) = empty_db" "\<not> aborted (system_of rt1)"
    using load_saved [OF assms(5), of empty_db] by (simp_all add: main_boot_def boot_def)
  moreover have "saved rt1 (run_machine runtime_step rt1 (saver_round (saver rt1) t))"
    using runtime_wf_start [OF rt1] empty by (intro saver_round_saves) (simp_all add: runtime_wf_def)
  ultimately show ?thesis by (auto simp: saved_def)
qed

definition sample_runtime :: "unit runtime" where
  "sample_runtime =
     \<lparr>system_of = sample_system\<lparr>shared := sample_server\<lparr>keyspace := snd (db_set ''name'' ''Ann'' empty_db)\<rparr>\<rparr>,
      saver = (start (make_daemon ''minimalredis.rdb'' False))\<lparr>worker := Woken True\<rparr>\<rparr>"

theorem restart_loses_data_witness:
  "\<exists>rt1 :: unit runtime. main_start (snapshot (shared (system_of (runtime_step sample_runtime (Saver_runs 5 True 6))))) 3 0 0 = Inr rt1 \<and>
    keyspace (shared (system_of rt1)) = empty_db"
proof -
  have "first_record_misread (keyspace (shared (system_of sample_runtime)))"
    by (simp add: sample_runtime_def first_record_misread_def db_set_def alter_def write_entry_def empty_db_def at_key_def ord_def)
  then show ?thesis
    using restart_loses_data [of sample_runtime True 5 3 6 0]
    by (auto simp: sample_runtime_def start_def make_daemon_def save_due_def)
qed

end
