(* ===== verification/Service.thy ===== *)
theory Service
  imports Runtime
begin

text \<open>
  What the server promises, without buffers, positions and pipes: a service is a keyspace with its
  subscriptions and snapshot and the registered clients.  A step of the service registers a client,
  processes one command of one client and replies, delivers the queued messages of a client,
  refuses or drops a client, or takes a snapshot.  The connection loop and the whole process
  implement it: what they send is what the service outputs, and the commands that are processed for a
  client are the values that the bytes received from it spell out.  The processing of a command and a
  save are single steps on both sides; that they are not atomic in the code is not seen here.
\<close>

section \<open>The service\<close>

definition drop_client :: "int \<Rightarrow> 'l server \<Rightarrow> 'l server" where
  "drop_client fd srv = srv\<lparr>clients := AList.delete fd (clients srv)\<rparr>"

definition take_messages :: "int \<Rightarrow> 'l server \<Rightarrow> string list \<times> 'l server" where
  "take_messages fd srv =
     (let p = client fd srv
      in (pubsub_messages p, set_client fd (p\<lparr>pubsub_messages := [], notifications := notifications p - 1\<rparr>) srv))"

text \<open>What a step is about: a client joins, or a command runs for a client.\<close>

datatype label = Joins int | Runs int RespValue

inductive service_step :: "'l server \<Rightarrow> label list \<Rightarrow> (int \<times> string) list \<Rightarrow> 'l server \<Rightarrow> bool" where
  Connect: "\<not> registered fd srv \<Longrightarrow> service_step srv [Joins fd] [] (set_client fd (make_processor n l) srv)"
| Command: "registered fd srv \<Longrightarrow> process_command env fd cmd srv = (Some r, srv') \<Longrightarrow>
    service_step srv [Runs fd cmd] [(fd, r)] srv'"
| Command_lost: "registered fd srv \<Longrightarrow> process_command env fd cmd srv = (Some r, srv') \<Longrightarrow>
    service_step srv [Runs fd cmd] [] (drop_client fd srv')"
| Deliver: "registered fd srv \<Longrightarrow> take_messages fd srv = (ms, srv') \<Longrightarrow> service_step srv [] (map (Pair fd) ms) srv'"
| Deliver_lost: "registered fd srv \<Longrightarrow> take_messages fd srv = (ms @ ms', srv') \<Longrightarrow>
    service_step srv [] (map (Pair fd) ms) (drop_client fd srv')"
| Refuse: "registered fd srv \<Longrightarrow> service_step srv [] [(fd, err m)] (drop_client fd srv)"
| Disconnect: "registered fd srv \<Longrightarrow> service_step srv [] [] (drop_client fd srv)"
| Snapshot: "service_step srv [] [] (srv\<lparr>snapshot := Some (rdb_image (keyspace srv))\<rparr>)"

inductive service_run :: "'l server \<Rightarrow> label list \<Rightarrow> (int \<times> string) list \<Rightarrow> 'l server \<Rightarrow> bool" where
  Stay: "service_run srv [] [] srv"
| Step: "service_run srv ls outs srv' \<Longrightarrow> service_step srv' ls' outs' srv'' \<Longrightarrow> service_run srv (ls @ ls') (outs @ outs') srv''"

lemma service_run_one: "service_step srv ls outs srv' \<Longrightarrow> service_run srv ls outs srv'"
  using Step [OF Stay] by simp

lemma service_run_trans:
  "service_run srv' ls' outs' srv'' \<Longrightarrow> service_run srv ls outs srv' \<Longrightarrow> service_run srv (ls @ ls') (outs @ outs') srv''"
proof (induction rule: service_run.induct)
  case (Step srv1 ls1 outs1 srv2 ls2 outs2 srv3)
  then show ?case using service_run.Step [of srv "ls @ ls1" "outs @ outs1" srv2] by simp
qed simp

text \<open>The commands of a client since it joined last.\<close>

definition commands_of :: "int \<Rightarrow> label list \<Rightarrow> RespValue list" where
  "commands_of fd ls =
     foldl (\<lambda>cs l. case l of
        Joins fd' \<Rightarrow> if fd' = fd then [] else cs
      | Runs fd' cmd \<Rightarrow> if fd' = fd then cs @ [cmd] else cs) [] ls"

lemma commands_of_append:
  "commands_of fd (ls @ [Joins fd']) = (if fd' = fd then [] else commands_of fd ls)"
  "commands_of fd (ls @ [Runs fd' cmd]) = (if fd' = fd then commands_of fd ls @ [cmd] else commands_of fd ls)"
  by (simp_all add: commands_of_def)

section \<open>The connection loop implements the service\<close>

text \<open>From \<open>sys\<close> to \<open>sys'\<close> the service makes steps with these labels, and what was sent meanwhile is their output.\<close>

definition implements :: "'l system \<Rightarrow> label list \<Rightarrow> 'l system \<Rightarrow> bool" where
  "implements sys ls sys' \<longleftrightarrow> (\<exists>outs. service_run (shared sys) ls outs (shared sys') \<and> sent sys' = sent sys @ outs)"

lemma implements_same: "shared sys' = shared sys \<Longrightarrow> sent sys' = sent sys \<Longrightarrow> implements sys [] sys'"
  unfolding implements_def by (rule exI [of _ "[]"]) (simp add: Stay)

lemma implements_step:
  "service_step (shared sys) ls outs (shared sys') \<Longrightarrow> sent sys' = sent sys @ outs \<Longrightarrow> implements sys ls sys'"
  unfolding implements_def using service_run_one by blast

lemma implements_trans: "implements sys ls sys' \<Longrightarrow> implements sys' ls' sys'' \<Longrightarrow> implements sys (ls @ ls') sys''"
  unfolding implements_def by (metis append.assoc service_run_trans)

lemma cleanup_drops [simp]: "shared (cleanup fd sys) = drop_client fd (shared sys)" "sent (cleanup fd sys) = sent sys"
  by (simp_all add: cleanup_def drop_client_def)

text \<open>The label of an event.\<close>

definition iterate_label :: "int \<Rightarrow> connection \<Rightarrow> label list" where
  "iterate_label fd c =
     (case processed_pos c of
        None \<Rightarrow> []
      | Some pos \<Rightarrow>
          if length (buffer c) \<le> pos then []
          else case parse (drop pos (buffer c)) 0 of Inl _ \<Rightarrow> [] | Inr (cmd, _) \<Rightarrow> [Runs fd cmd])"

definition labels :: "'l system \<Rightarrow> 'l event \<Rightarrow> label list" where
  "labels sys e =
     (case e of
        Accepted fd pipe_fd state \<Rightarrow>
          if 0 \<le> fd \<and> map_of (conns sys) fd = None \<and> pipe_fd \<noteq> None \<and> state \<noteq> None then [Joins fd] else []
      | Iterate fd env written \<Rightarrow> (case map_of (conns sys) fd of None \<Rightarrow> [] | Some c \<Rightarrow> iterate_label fd c)
      | _ \<Rightarrow> [])"

lemma implements_refuse: "registered fd (shared sys) \<Longrightarrow> implements sys [] (cleanup fd (send fd (err m) sys))"
  by (rule implements_step [where outs = "[(fd, err m)]"]) (simp_all add: Refuse)

lemma implements_end_scan: "registered fd (shared sys) \<Longrightarrow> implements sys [] (end_scan fd bytes pos sys)"
  by (auto simp: end_scan_def Let_def implements_refuse intro: implements_same)

lemma implements_iterate:
  assumes "registered fd (shared sys)" "\<not> aborted (on_iterate fd env written (buffer c) pos sys)" "processed_pos c = Some pos"
  shows "implements sys (iterate_label fd c) (on_iterate fd env written (buffer c) pos sys)"
proof (cases "length (buffer c) \<le> pos")
  case False
  note f = assms(1,3) implements_end_scan [OF assms(1)]
  show ?thesis
  proof (cases "parse (drop pos (buffer c)) 0")
    case (Inl e)
    then show ?thesis
      using assms(2) f False by (cases e) (auto simp: on_iterate_def iterate_label_def implements_refuse)
  next
    case (Inr x)
    then obtain cmd n where x: "parse (drop pos (buffer c)) 0 = Inr (cmd, n)" by (cases x) auto
    obtain r srv where p: "process_command env fd cmd (shared sys) = (r, srv)" by (rule prod.exhaust)
    show ?thesis
      using assms(2) f False x p
      by (cases r) (auto simp: on_iterate_def iterate_label_def intro!: implements_step intro: Command Command_lost)
  qed
qed (use assms in \<open>simp add: on_iterate_def implements_end_scan iterate_label_def\<close>)

lemma drain_output:
  "\<exists>ms ms'. msgs = ms @ ms' \<and> sent (drain fd written i msgs sys) = sent sys @ map (Pair fd) ms \<and>
     (ms' = [] \<and> shared (drain fd written i msgs sys) = shared sys \<or>
      shared (drain fd written i msgs sys) = drop_client fd (shared sys))"
proof (induction msgs arbitrary: i sys)
  case (Cons m msgs)
  show ?case
  proof (cases "written i")
    case True
    obtain ms ms' where "msgs = ms @ ms'" "sent (drain fd written (Suc i) msgs (send fd m sys)) = sent (send fd m sys) @ map (Pair fd) ms"
      "ms' = [] \<and> shared (drain fd written (Suc i) msgs (send fd m sys)) = shared (send fd m sys) \<or>
       shared (drain fd written (Suc i) msgs (send fd m sys)) = drop_client fd (shared (send fd m sys))"
      using Cons.IH [of "Suc i" "send fd m sys"] by blast
    then show ?thesis using True by (intro exI [of _ "m # ms"] exI [of _ ms']) auto
  qed (auto intro: exI [of _ "[]"])
qed simp

lemma implements_notified:
  assumes "registered fd (shared sys)"
  shows "implements sys [] (on_notified fd written sys)"
proof -
  let ?ms = "pubsub_messages (client fd (shared sys))" and ?srv = "snd (take_messages fd (shared sys))"
  have t: "take_messages fd (shared sys) = (?ms, ?srv)" by (simp add: take_messages_def Let_def)
  have n: "on_notified fd written sys = drain fd written 0 ?ms (sys\<lparr>shared := ?srv\<rparr>)"
    by (simp add: on_notified_def take_messages_def Let_def)
  obtain ms ms' where "?ms = ms @ ms'" "sent (on_notified fd written sys) = sent (sys\<lparr>shared := ?srv\<rparr>) @ map (Pair fd) ms"
    "ms' = [] \<and> shared (on_notified fd written sys) = shared (sys\<lparr>shared := ?srv\<rparr>) \<or>
     shared (on_notified fd written sys) = drop_client fd (shared (sys\<lparr>shared := ?srv\<rparr>))"
    using drain_output [of ?ms fd written 0 "sys\<lparr>shared := ?srv\<rparr>"] unfolding n by blast
  then have d: "?ms = ms @ ms'" "sent (on_notified fd written sys) = sent sys @ map (Pair fd) ms"
    "ms' = [] \<and> shared (on_notified fd written sys) = ?srv \<or> shared (on_notified fd written sys) = drop_client fd ?srv"
    by simp_all
  from d(3) show ?thesis
  proof
    assume "ms' = [] \<and> shared (on_notified fd written sys) = ?srv"
    then show ?thesis using Deliver [OF assms t] d by (intro implements_step) auto
  next
    assume "shared (on_notified fd written sys) = drop_client fd ?srv"
    then show ?thesis using Deliver_lost [of fd "shared sys" ms ms' ?srv] assms t d by (intro implements_step) auto
  qed
qed

lemma implements_accepted:
  assumes "sys_wf sys" "\<not> aborted (on_accepted fd pipe_fd state sys)"
  shows "implements sys (labels sys (Accepted fd pipe_fd state)) (on_accepted fd pipe_fd state sys)"
proof (cases "map_of (conns sys) fd")
  case None
  then have "\<not> registered fd (shared sys)"
    using assms(1) by (auto simp: sys_wf_def registered_def map_of_eq_None_iff)
  then have "implements sys [Joins fd] (accept fd n l sys)" for n l
    by (intro implements_step [where outs = "[]"]) (auto simp: accept_def intro: Connect)
  then show ?thesis
    using None assms(2) by (auto simp: on_accepted_def start_client_def labels_def implements_same split: option.splits)
qed (simp add: on_accepted_def labels_def implements_same)

lemma implements_periodic: "implements sys [] (periodic_save opened sys)"
  using Snapshot [of "shared sys"]
  by (cases opened) (auto simp: periodic_save_def save_rdb_def intro: implements_same implements_step)

lemma sys_step_implements:
  assumes "sys_wf sys" "\<not> aborted (sys_step sys e)"
  shows "implements sys (labels sys e) (sys_step sys e)"
proof -
  have live: "\<not> aborted sys" using assms(2) by (auto simp: sys_step_def)
  have drop: "implements sys [] (cleanup fd sys)" if "registered fd (shared sys)" for fd
    using Disconnect [OF that] by (intro implements_step) auto
  show ?thesis
  proof (cases e)
    case (Accepted fd pipe_fd state)
    then show ?thesis using assms live implements_accepted [OF assms(1)] by (simp add: sys_step_def)
  next
    case (Iterate fd env written)
    show ?thesis
    proof (cases "map_of (conns sys) fd")
      case (Some c)
      show ?thesis
      proof (cases "processed_pos c")
        case (Some pos)
        then show ?thesis
          using \<open>map_of (conns sys) fd = Some c\<close> assms live sys_wf_conn(2) [OF assms(1)]
          by (simp add: Iterate sys_step_def labels_def implements_iterate)
      qed (use Some live in \<open>simp add: Iterate sys_step_def labels_def iterate_label_def implements_same\<close>)
    qed (simp add: Iterate sys_step_def labels_def implements_same)
  qed (use assms sys_wf_conn(2) [OF assms(1)] live drop in
      \<open>auto simp: sys_step_def labels_def implements_periodic on_readable_def Let_def implements_same
        split: option.splits intro: implements_notified\<close>)
qed

section \<open>The commands of a client are what was received from it\<close>

text \<open>
  \<open>s\<close> is the texts of the values \<open>vs\<close>, one after the other, and then \<open>rest\<close>; the text of a value is what the
  parser reads as this value and consumes.
\<close>

definition spells :: "string \<Rightarrow> RespValue list \<Rightarrow> string \<Rightarrow> bool" where
  "spells s vs rest \<longleftrightarrow> (\<exists>ts. s = concat ts @ rest \<and> list_all2 (\<lambda>t v. parse t 0 = Inr (v, length t)) ts vs)"

lemma spells_none: "spells s [] s"
  by (simp add: spells_def)

lemma spells_more: "spells s vs rest \<Longrightarrow> spells (s @ t) vs (rest @ t)"
  unfolding spells_def by auto

lemma spells_next:
  assumes "spells s vs rest" "small rest" "parse rest 0 = Inr (v, n)"
  shows "spells s (vs @ [v]) (drop n rest)"
proof -
  obtain ts where ts: "s = concat ts @ rest" "list_all2 (\<lambda>t v. parse t 0 = Inr (v, length t)) ts vs"
    using assms(1) by (auto simp: spells_def)
  have "list_all2 (\<lambda>t v. parse t 0 = Inr (v, length t)) (ts @ [take n rest]) (vs @ [v])"
    using ts(2) parse_consumed [OF assms(2,3)] by (intro list_all2_appendI) (simp_all add: min_absorb2)
  moreover have "s = concat (ts @ [take n rest]) @ drop n rest" using ts(1) by simp
  ultimately show ?thesis unfolding spells_def by blast
qed

text \<open>The bytes that \<open>read\<close> has returned for each descriptor since its connection was accepted.\<close>

definition receive :: "'l system \<Rightarrow> 'l event \<Rightarrow> (int \<Rightarrow> string) \<Rightarrow> int \<Rightarrow> string" where
  "receive sys e got =
     (case e of
        Accepted fd pipe_fd state \<Rightarrow> if map_of (conns sys) fd = None then got(fd := []) else got
      | Readable fd chunk \<Rightarrow>
          (case map_of (conns sys) fd of
             None \<Rightarrow> got
           | Some c \<Rightarrow>
               if processed_pos c = None then got(fd := got fd @ take (BUFFER_SIZE - length (buffer c) - 1) chunk) else got)
      | _ \<Rightarrow> got)"

definition unprocessed :: "connection \<Rightarrow> string" where
  "unprocessed c = (case processed_pos c of None \<Rightarrow> buffer c | Some pos \<Rightarrow> drop pos (buffer c))"

definition in_order :: "(int \<Rightarrow> string) \<Rightarrow> label list \<Rightarrow> 'l system \<Rightarrow> bool" where
  "in_order got ls sys \<longleftrightarrow>
     (\<forall>fd c. map_of (conns sys) fd = Some c \<longrightarrow> spells (got fd) (commands_of fd ls) (unprocessed c))"

lemma in_order_fewer:
  "in_order got ls sys \<Longrightarrow> (\<And>fd c. map_of (conns sys') fd = Some c \<Longrightarrow> map_of (conns sys) fd = Some c) \<Longrightarrow> in_order got ls sys'"
  by (auto simp: in_order_def)

lemma cleanup_conns: "map_of (conns (cleanup fd sys)) = (map_of (conns sys))(fd := None)"
  by (simp add: cleanup_def delete_conv')

lemma drain_conns: "map_of (conns (drain fd written i msgs sys)) fd' = Some c \<Longrightarrow> map_of (conns sys) fd' = Some c"
proof (induction msgs arbitrary: i sys)
  case (Cons m msgs)
  then show ?case using Cons.IH [of "Suc i" "send fd m sys"] by (auto simp: cleanup_conns split: if_splits)
qed simp

lemma in_order_set_conn:
  assumes "in_order got ls sys" "spells (got' fd) (commands_of fd ls') (unprocessed c)"
    and "\<And>fd'. fd' \<noteq> fd \<Longrightarrow> got' fd' = got fd' \<and> commands_of fd' ls' = commands_of fd' ls" "conns sys' = AList.update fd c (conns sys)"
  shows "in_order got' ls' sys'"
  using assms by (auto simp: in_order_def update_conv')

lemma in_order_end_scan:
  assumes "in_order got ls sys" "map_of (conns sys) fd = Some c" "processed_pos c = Some pos" "pos \<le> length (buffer c)"
  shows "in_order got ls (end_scan fd (buffer c) pos sys)"
proof -
  have "spells (got fd) (commands_of fd ls) (drop pos (buffer c))"
    using assms(1-3) by (force simp: in_order_def unprocessed_def)
  then have "in_order got ls (set_conn fd \<lparr>buffer = drop pos (buffer c), processed_pos = None\<rparr> sys)"
    by (intro in_order_set_conn [OF assms(1), of _ fd]) (simp_all add: unprocessed_def)
  moreover have "in_order got ls (cleanup fd (send fd m sys))" for m
    by (rule in_order_fewer [OF assms(1)]) (simp add: cleanup_conns split: if_splits)
  moreover have "(if 0 < pos \<and> pos < length (buffer c) then drop pos (buffer c)
      else if pos = length (buffer c) then [] else buffer c) = drop pos (buffer c)"
    using assms(4) by auto
  ultimately show ?thesis unfolding end_scan_def Let_def by simp
qed

lemma in_order_iterate:
  assumes "in_order got ls sys" "map_of (conns sys) fd = Some c" "processed_pos c = Some pos" "conn_ok c"
    and "\<not> aborted (on_iterate fd env written (buffer c) pos sys)"
  shows "in_order got (ls @ iterate_label fd c) (on_iterate fd env written (buffer c) pos sys)"
proof (cases "length (buffer c) \<le> pos")
  case False
  have len: "pos \<le> length (buffer c)" "small (drop pos (buffer c))"
    using assms(3,4) by (auto simp: conn_ok_def small_def BUFFER_SIZE_def)
  note finish = in_order_end_scan [OF assms(1-3) len(1)]
  show ?thesis
  proof (cases "parse (drop pos (buffer c)) 0")
    case (Inl e)
    have "in_order got ls (cleanup fd (send fd m sys))" for m
      by (rule in_order_fewer [OF assms(1)]) (simp add: cleanup_conns split: if_splits)
    then show ?thesis
      using assms(3,5) finish False Inl by (cases e) (auto simp: on_iterate_def iterate_label_def)
  next
    case (Inr x)
    then obtain cmd n where x: "parse (drop pos (buffer c)) 0 = Inr (cmd, n)" by (cases x) auto
    obtain r srv where p: "process_command env fd cmd (shared sys) = (r, srv)" by (rule prod.exhaust)
    have label: "iterate_label fd c = [Runs fd cmd]" using assms(3) False x by (simp add: iterate_label_def)
    have "spells (got fd) (commands_of fd ls) (drop pos (buffer c))"
      using assms(1-3) by (force simp: in_order_def unprocessed_def)
    from spells_next [OF this len(2) x]
    have further: "in_order got (ls @ [Runs fd cmd])
        (set_conn fd \<lparr>buffer = buffer c, processed_pos = Some (pos + n)\<rparr> (send fd m (sys\<lparr>shared := srv\<rparr>)))" for m
      by (intro in_order_set_conn [OF assms(1), of _ fd]) (simp_all add: unprocessed_def commands_of_append add.commute)
    have "in_order got (ls @ [Runs fd cmd]) (cleanup fd (sys\<lparr>shared := srv\<rparr>))"
      using assms(1) by (simp add: in_order_def cleanup_conns commands_of_append)
    then show ?thesis
      using assms(5) further False x p by (cases r) (auto simp: on_iterate_def label)
  qed
qed (use assms in \<open>simp add: on_iterate_def in_order_end_scan iterate_label_def conn_ok_def\<close>)

lemma in_order_readable:
  assumes "in_order got ls sys" "map_of (conns sys) fd = Some c" "processed_pos c = None"
  shows "in_order (got(fd := got fd @ take (BUFFER_SIZE - length (buffer c) - 1) chunk)) ls (on_readable fd chunk c sys)"
proof -
  let ?t = "take (BUFFER_SIZE - length (buffer c) - 1) chunk"
  have t: "take (min (length chunk) (BUFFER_SIZE - length (buffer c) - 1)) chunk = ?t" by (simp add: min_def)
  have "spells (got fd @ ?t) (commands_of fd ls) (buffer c @ ?t)"
    using assms by (intro spells_more) (force simp: in_order_def unprocessed_def)
  then have "in_order (got(fd := got fd @ ?t)) ls (set_conn fd \<lparr>buffer = buffer c @ ?t, processed_pos = Some 0\<rparr> sys)"
    by (intro in_order_set_conn [OF assms(1), of _ fd]) (simp_all add: unprocessed_def)
  moreover have "in_order (got(fd := x)) ls (cleanup fd sys)" for x
    using assms(1) by (simp add: in_order_def cleanup_conns)
  ultimately show ?thesis unfolding on_readable_def Let_def t by simp
qed

lemma in_order_accepted:
  assumes "in_order got ls sys" "\<not> aborted (on_accepted fd pipe_fd state sys)"
  shows "in_order (receive sys (Accepted fd pipe_fd state) got) (ls @ labels sys (Accepted fd pipe_fd state)) (on_accepted fd pipe_fd state sys)"
proof (cases "map_of (conns sys) fd")
  case None
  have "in_order (got(fd := [])) (ls @ [Joins fd]) (accept fd n l sys)" for n l
    by (rule in_order_set_conn [OF assms(1), of _ fd]) (simp_all add: commands_of_append unprocessed_def spells_none accept_def)
  moreover have "in_order (got(fd := [])) ls sys" using assms(1) None by (simp add: in_order_def)
  ultimately show ?thesis
    using None assms by (auto simp: on_accepted_def start_client_def labels_def receive_def split: option.splits)
qed (use assms in \<open>simp add: on_accepted_def labels_def receive_def\<close>)

lemma in_order_step:
  assumes "sys_wf sys" "in_order got ls sys" "\<not> aborted (sys_step sys e)"
  shows "in_order (receive sys e got) (ls @ labels sys e) (sys_step sys e)"
proof -
  have live: "\<not> aborted sys" using assms(3) by (auto simp: sys_step_def)
  have fewer: "in_order got ls (cleanup fd sys)" "in_order got ls (on_notified fd written sys)" "in_order got ls (periodic_save opened sys)"
    for fd written opened
    using assms(2)
    by (auto elim!: in_order_fewer dest: drain_conns simp: cleanup_conns on_notified_def Let_def periodic_save_def
        split: if_splits prod.splits bool.splits)
  show ?thesis
  proof (cases e)
    case (Accepted fd pipe_fd state)
    then show ?thesis using assms(2,3) live by (simp add: sys_step_def in_order_accepted)
  next
    case (Readable fd chunk)
    then show ?thesis
      using assms(2) live in_order_readable [OF assms(2), of fd _ chunk]
      by (auto simp: sys_step_def labels_def receive_def split: option.split)
  next
    case (Iterate fd env written)
    show ?thesis
    proof (cases "map_of (conns sys) fd")
      case None
      then show ?thesis using assms(2) live by (simp add: Iterate sys_step_def labels_def receive_def)
    next
      case c: (Some c)
      show ?thesis
      proof (cases "processed_pos c")
        case (Some pos)
        then show ?thesis
          using c assms(2,3) live sys_wf_conn(1) [OF assms(1) c]
          by (simp add: Iterate sys_step_def labels_def receive_def in_order_iterate)
      qed (use c assms(2) live in \<open>simp add: Iterate sys_step_def labels_def receive_def iterate_label_def\<close>)
    qed
  qed (use assms(2) live fewer in \<open>auto simp: sys_step_def labels_def receive_def split: option.split\<close>)
qed

section \<open>The whole process\<close>

text \<open>The bytes received during a run of the process.\<close>

primrec received :: "'l runtime \<Rightarrow> 'l runtime_event list \<Rightarrow> (int \<Rightarrow> string) \<Rightarrow> int \<Rightarrow> string" where
  "received rt [] got = got"
| "received rt (e # es) got =
     received (runtime_step rt e) es (case e of Clients ev \<Rightarrow> receive (system_of rt) ev got | _ \<Rightarrow> got)"

lemma of_main_receive [simp]: "receive sys (of_main ev) = receive sys ev"
  by (cases ev) (simp_all add: receive_def fun_eq_iff)

lemma runtime_step_implements:
  assumes "sys_wf (system_of rt)" "in_order got ls (system_of rt)" "\<not> aborted (system_of (runtime_step rt e))"
  shows "\<exists>ls'. implements (system_of rt) ls' (system_of (runtime_step rt e)) \<and>
    in_order (case e of Clients ev \<Rightarrow> receive (system_of rt) ev got | _ \<Rightarrow> got) (ls @ ls') (system_of (runtime_step rt e))"
proof -
  have live: "\<not> aborted (system_of rt)" using assms(3) by (auto simp: runtime_step_def)
  show ?thesis
  proof (cases "\<exists>ev. e = Clients ev \<and> (\<forall>b. ev \<noteq> Periodic_save b)")
    case True
    then obtain ev where e: "e = Clients ev" "\<forall>b. ev \<noteq> Periodic_save b" by auto
    then have step: "system_of (runtime_step rt e) = sys_step (system_of rt) (of_main ev)"
      using live by (cases ev) (auto simp: runtime_step_def)
    show ?thesis
      using sys_step_implements [OF assms(1), of "of_main ev"] in_order_step [OF assms(1,2), of "of_main ev"] assms(3) e
      unfolding step by auto
  next
    case False
    then have "system_of (runtime_step rt e) \<in> {system_of rt} \<union> range (\<lambda>opened. periodic_save opened (system_of rt))"
      using live by (auto simp: runtime_step_def on_saver_def saver_runs_def Let_def
          split: runtime_event.split event.split worker_point.split)
    moreover have "(case e of Clients ev \<Rightarrow> receive (system_of rt) ev got | _ \<Rightarrow> got) = got"
      using False by (auto simp: receive_def split: runtime_event.split event.split)
    moreover have "conns (periodic_save opened (system_of rt)) = conns (system_of rt)" for opened
      by (simp add: periodic_save_def split: prod.split bool.split)
    ultimately show ?thesis
      using assms(2) implements_periodic implements_same [OF refl refl, of "system_of rt"] by (intro exI [of _ "[]"]) (auto simp: in_order_def)
  qed
qed

lemma aborted_process: "aborted (system_of rt) \<Longrightarrow> run_machine runtime_step rt es = rt"
  by (induction es) (simp_all add: runtime_step_def)

lemma process_implements:
  "runtime_wf rt \<Longrightarrow> in_order got ls (system_of rt) \<Longrightarrow> \<not> aborted (system_of (run_machine runtime_step rt es)) \<Longrightarrow>
     \<exists>ls'. implements (system_of rt) ls' (system_of (run_machine runtime_step rt es)) \<and>
       in_order (received rt es got) (ls @ ls') (system_of (run_machine runtime_step rt es))"
proof (induction es arbitrary: rt got ls)
  case Nil
  then show ?case by (intro exI [of _ "[]"]) (simp add: implements_same)
next
  case (Cons e es)
  let ?rt = "runtime_step rt e" and ?got = "case e of Clients ev \<Rightarrow> receive (system_of rt) ev got | _ \<Rightarrow> got"
  have "\<not> aborted (system_of ?rt)" using Cons.prems(3) aborted_process [of ?rt es] by auto
  then obtain ls1 where one: "implements (system_of rt) ls1 (system_of ?rt)" "in_order ?got (ls @ ls1) (system_of ?rt)"
    using runtime_step_implements [of rt got ls e] Cons.prems(1,2) by (auto simp: runtime_wf_def)
  obtain ls2 where "implements (system_of ?rt) ls2 (system_of (run_machine runtime_step ?rt es))"
      "in_order (received ?rt es ?got) ((ls @ ls1) @ ls2) (system_of (run_machine runtime_step ?rt es))"
    using Cons.IH [OF process.step_inv [OF Cons.prems(1)] one(2)] Cons.prems(3) by auto
  then show ?case using implements_trans [OF one(1)] by (intro exI [of _ "ls1 @ ls2"]) simp
qed

section \<open>Properties\<close>

text \<open>C12. The whole process implements the service and misreads no client: for every interleaving of the
  steps of all clients and the saver after any start of \<open>main\<close>, as long as the process lives, the
  service has a run in which everything sent so far is the output, in order, and which ends with the
  shared state of the process; in this run the commands that were processed for a client that is
  still connected are exactly the values that the bytes read from its connection spell, in order and
  each once, and the bytes behind the last of them are what its buffer still holds.  How the bytes are
  cut into reads and how the reads of the clients interleave does not matter.  A command and a save are one step of
  the process and of the service alike; this is about the connections, not about the atomicity of commands.\<close>

theorem process_implements_service:
  assumes "main_start found fd bind_rv listen_rv = Inr rt" "sys = system_of (run_machine runtime_step rt es)" "\<not> aborted sys"
  shows "\<exists>ls. service_run (shared (system_of rt)) ls (sent sys) (shared sys) \<and>
    (\<forall>fd' c. map_of (conns sys) fd' = Some c \<longrightarrow> spells (received rt es (\<lambda>_. []) fd') (commands_of fd' ls) (unprocessed c))"
proof -
  have boot: "system_of rt = fst (main_boot found)"
    using assms(1) by (auto simp: main_start_def case_prod_beta Let_def split: if_splits)
  have "in_order (\<lambda>_. []) [] (system_of rt)" "sent (system_of rt) = []"
    by (simp_all add: boot main_boot_def boot_def in_order_def)
  then show ?thesis
    using process_implements [OF runtime_wf_start [OF assms(1)], of "\<lambda>_. []" "[]" es] assms(2,3)
    by (auto simp: implements_def in_order_def)
qed

text \<open>A client connects, sends a request and the beginning of another one, and the first is answered.\<close>

definition sample_events :: "unit runtime_event list" where
  "sample_events =
     [Clients (Accepted 4 (Some 6) (Some ())), Clients (Readable 4 (print_resp (request [''UNWATCH'']) @ ''*1'')),
      Clients (Iterate 4 sample_env True)]"

lemma sample_events_run:
  fixes rt :: "unit runtime"
  assumes "system_of rt = fst (main_boot None)"
  shows "\<not> aborted (system_of (run_machine runtime_step rt sample_events))"
    "map_of (conns (system_of (run_machine runtime_step rt sample_events))) 4 =
       Some \<lparr>buffer = print_resp (request [''UNWATCH'']) @ ''*1'', processed_pos = Some (length (print_resp (request [''UNWATCH''])))\<rparr>"
    "sent (system_of (run_machine runtime_step rt sample_events)) = [(4, ok_reply)]"
    "received rt sample_events (\<lambda>_. []) 4 = print_resp (request [''UNWATCH'']) @ ''*1''"
proof -
  let ?buf = "print_resp (request [''UNWATCH'']) @ ''*1''" and ?env = "sample_env\<lparr>save_daemon_ptr := None\<rparr>"
  have len: "length ?buf < 100" "?buf \<noteq> []"
    by (simp_all add: request_def bulk_def bulk_reply_def to_string_def nat_digits.simps CRLF_def)
  have parsed: "parse ?buf 0 = Inr (request [''UNWATCH''], length (print_resp (request [''UNWATCH''])))"
    using parse_print_at [of "request [''UNWATCH'']" "[]" "''*1''"] len by (simp add: request_def bulk_def small_def)
  have unwatch: "\<exists>srv'. process_command ?env 4 (request [''UNWATCH'']) srv = (Some ok_reply, srv')"
    if "\<not> in_transaction (client 4 srv)" for srv :: "unit server"
    using that by (simp add: process_command_def moved_def routed_def execute_def queued_commands_def expiry_commands_def map_add_def
        on_client_def handle_unwatch_def upper_def toupper_def ord_def Let_def)
  let ?rt1 = "runtime_step (runtime_step rt (Clients (Accepted 4 (Some 6) (Some ())))) (Clients (Readable 4 ?buf))"
  have rt1: "\<not> aborted (system_of ?rt1)" "map_of (conns (system_of ?rt1)) 4 = Some \<lparr>buffer = ?buf, processed_pos = Some 0\<rparr>"
    "sent (system_of ?rt1) = []" "\<not> in_transaction (client 4 (shared (system_of ?rt1)))"
    using assms len
    by (simp_all add: make_processor_def main_boot_def boot_def runtime_step_def sys_step_def on_accepted_def start_client_def accept_def
        on_readable_def Let_def BUFFER_SIZE_def update_conv')
  show "received rt sample_events (\<lambda>_. []) 4 = ?buf"
    using assms len
    by (simp add: sample_events_def main_boot_def boot_def runtime_step_def sys_step_def on_accepted_def start_client_def accept_def
        BUFFER_SIZE_def update_conv' receive_def)
  obtain srv' where srv': "process_command ?env 4 (request [''UNWATCH'']) (shared (system_of ?rt1)) = (Some ok_reply, srv')"
    using unwatch [OF rt1(4)] by blast
  have run: "system_of (run_machine runtime_step rt sample_events) =
      set_conn 4 \<lparr>buffer = ?buf, processed_pos = Some (length (print_resp (request [''UNWATCH''])))\<rparr>
        (send 4 ok_reply ((system_of ?rt1)\<lparr>shared := srv'\<rparr>))"
    using rt1 parsed srv' len(2) unfolding sample_events_def run_machine.simps
    by (subst runtime_step_def) (simp add: sys_step_def on_iterate_def)
  show "\<not> aborted (system_of (run_machine runtime_step rt sample_events))"
    "map_of (conns (system_of (run_machine runtime_step rt sample_events))) 4 =
       Some \<lparr>buffer = ?buf, processed_pos = Some (length (print_resp (request [''UNWATCH''])))\<rparr>"
    "sent (system_of (run_machine runtime_step rt sample_events)) = [(4, ok_reply)]"
    unfolding run using rt1 by (simp_all add: update_conv')
qed

theorem process_implements_service_witness:
  "\<exists>(rt :: unit runtime) ls. main_start None 3 0 0 = Inr rt \<and>
    service_run (shared (system_of rt)) ls [(4, ok_reply)] (shared (system_of (run_machine runtime_step rt sample_events))) \<and>
    spells (print_resp (request [''UNWATCH'']) @ ''*1'') (commands_of 4 ls) ''*1''"
proof -
  obtain rt :: "unit runtime" where rt: "main_start None 3 0 0 = Inr rt"
    by (simp add: main_start_def case_prod_beta)
  then have "system_of rt = fst (main_boot None)" by (auto simp: main_start_def case_prod_beta)
  note s = sample_events_run [OF this]
  obtain ls where ls: "service_run (shared (system_of rt)) ls [(4, ok_reply)] (shared (system_of (run_machine runtime_step rt sample_events)))"
      "\<And>fd c. map_of (conns (system_of (run_machine runtime_step rt sample_events))) fd = Some c \<Longrightarrow>
        spells (received rt sample_events (\<lambda>_. []) fd) (commands_of fd ls) (unprocessed c)"
    using process_implements_service [OF rt refl s(1)] unfolding s(3) by blast
  have "spells (print_resp (request [''UNWATCH'']) @ ''*1'') (commands_of 4 ls) ''*1''"
    using ls(2) [OF s(2)] by (simp add: s(4) unprocessed_def)
  then show ?thesis using ls(1) rt by blast
qed

end
