(* ===== verification/Redis_Client.thy ===== *)
theory Redis_Client
  imports Server_Laws
begin

text \<open>
  The client library of the terminal client (\<open>clients/tui/redis_client.h\<close>, \<open>redis_client.cpp\<close>): the
  splitting of a typed command into words, its encoding as a request, and the splitting of what
  the server sends into messages.  The results of the socket calls are arguments.
\<close>

section \<open>Messages\<close>

text \<open>The client's class \<open>RespParser\<close>.\<close>

record message_parser =
  msg_buffer :: string
  msg_pos :: nat

definition parser_append :: "string \<Rightarrow> message_parser \<Rightarrow> message_parser" where
  "parser_append bytes p = p\<lparr>msg_buffer := msg_buffer p @ bytes\<rparr>"

definition parser_clear :: "message_parser \<Rightarrow> message_parser" where
  "parser_clear p = p\<lparr>msg_buffer := [], msg_pos := 0\<rparr>"

definition has_data :: "message_parser \<Rightarrow> bool" where
  "has_data p \<longleftrightarrow> msg_buffer p \<noteq> [] \<and> msg_pos p < length (msg_buffer p)"

text \<open>\<open>buffer.find(CRLF, pos)\<close>, as the distance from the position.\<close>

fun find_crlf :: "string \<Rightarrow> nat option" where
  "find_crlf (c # d # cs) = (if c = CR \<and> d = LF then Some 0 else map_option Suc (find_crlf (d # cs)))"
| "find_crlf _ = None"

definition get_next_message :: "message_parser \<Rightarrow> string \<times> message_parser" where
  "get_next_message p =
     (if msg_buffer p = [] \<or> length (msg_buffer p) \<le> msg_pos p then ([], p)
      else case find_crlf (drop (msg_pos p) (msg_buffer p)) of
        None \<Rightarrow> ([], p)
      | Some n \<Rightarrow> (take (n + 2) (drop (msg_pos p) (msg_buffer p)), p\<lparr>msg_pos := msg_pos p + n + 2\<rparr>))"

section \<open>The client\<close>

record redis_client =
  sock_fd :: int
  host :: string
  port :: int
  connected :: bool
  msgs :: message_parser

definition make_client :: "string \<Rightarrow> int \<Rightarrow> redis_client" where
  "make_client h p = \<lparr>sock_fd = - 1, host = h, port = p, connected = False, msgs = \<lparr>msg_buffer = [], msg_pos = 0\<rparr>\<rparr>"

text \<open>
  \<open>fd\<close> is the result of \<open>socket\<close>; \<open>reachable\<close> tells whether the address is valid and \<open>::connect\<close> to it
  succeeds.  \<open>htons\<close> keeps 16 bits of the port.  After a failure the closed descriptor stays in
  \<open>sock_fd\<close>.
\<close>

definition connect_to_server :: "int \<Rightarrow> (string \<Rightarrow> nat \<Rightarrow> bool) \<Rightarrow> redis_client \<Rightarrow> bool \<times> redis_client" where
  "connect_to_server fd reachable cl =
     (let cl1 = cl\<lparr>sock_fd := fd\<rparr>
      in if fd < 0 then (False, cl1)
         else if \<not> reachable (c_str (host cl)) (nat (port cl mod 2 ^ 16)) then (False, cl1)
         else (True, cl1))"

text \<open>The parser is not cleared by a new connection.\<close>

definition connect_client :: "int \<Rightarrow> (string \<Rightarrow> nat \<Rightarrow> bool) \<Rightarrow> redis_client \<Rightarrow> bool \<times> redis_client" where
  "connect_client fd reachable cl =
     (let (ok, cl1) = connect_to_server fd reachable cl in (ok, cl1\<lparr>connected := ok\<rparr>))"

definition stop_client :: "redis_client \<Rightarrow> redis_client" where
  "stop_client cl = (if 0 \<le> sock_fd cl then cl\<lparr>sock_fd := - 1\<rparr> else cl)\<lparr>connected := False\<rparr>"

text \<open>\<open>while (ss >> part)\<close>.\<close>

function split_words :: "string \<Rightarrow> string list" where
  "split_words s =
     (let t = dropWhile is_space s
      in if t = [] then [] else takeWhile (\<lambda>c. \<not> is_space c) t # split_words (dropWhile (\<lambda>c. \<not> is_space c) t))"
  by pat_completeness auto
termination split_words
proof (relation "measure length", goal_cases)
  case (2 s t)
  then have "\<not> is_space (hd t)" using hd_dropWhile [of is_space s] by auto
  then have "length (dropWhile (\<lambda>c. \<not> is_space c) t) < length t"
    using 2(2) length_dropWhile_le [of "\<lambda>c. \<not> is_space c" "tl t"] by (cases t) auto
  also have "\<dots> \<le> length s" using 2(1) by (simp add: length_dropWhile_le)
  finally show ?case by simp
qed simp

declare split_words.simps [simp del]

definition encode_request :: "string list \<Rightarrow> string" where
  "encode_request parts = ''*'' @ size_string (length parts) @ CRLF @
     concat (map (\<lambda>p. ''$'' @ size_string (length p) @ CRLF @ p @ CRLF) parts)"

text \<open>\<open>sent\<close> is the result of the \<open>send\<close> call; the bytes it was given are the second component.\<close>

definition send_command :: "string \<Rightarrow> int \<Rightarrow> redis_client \<Rightarrow> bool \<times> string option" where
  "send_command command_text sent_bytes cl =
     (if \<not> connected cl then (False, None)
      else let parts = split_words command_text
           in if parts = [] then (False, None)
              else let cmd = encode_request parts in (sent_bytes = int (length cmd), Some cmd))"

text \<open>
  \<open>ready\<close> is whether \<open>select\<close> found data in time; \<open>received\<close> what \<open>recv\<close> returned, \<open>None\<close> for an error.
  The buffer is turned into a string up to its first zero byte.
\<close>

definition get_response :: "bool \<Rightarrow> string option \<Rightarrow> redis_client \<Rightarrow> string \<times> redis_client" where
  "get_response ready received cl =
     (if \<not> connected cl then ([], cl)
      else if \<not> ready then ([], cl)
      else case received of
        None \<Rightarrow> ([], cl\<lparr>connected := False\<rparr>)
      | Some bytes \<Rightarrow>
          if bytes = [] then ([], cl\<lparr>connected := False\<rparr>)
          else let (msg, p) = get_next_message (parser_append (c_str (take 8191 bytes)) (msgs cl))
               in (msg, cl\<lparr>msgs := p\<rparr>))"

section \<open>Laws\<close>

lemma encode_request_print: "encode_request ws = print_resp (request ws)"
  by (simp add: encode_request_def request_def bulk_def bulk_reply_def comp_def)

lemma canonical_request: "canonical (request ws)"
  by (simp add: request_def bulk_def list_all_iff)

definition is_word :: "string \<Rightarrow> bool" where
  "is_word w \<longleftrightarrow> w \<noteq> [] \<and> list_all (\<lambda>c. \<not> is_space c) w"

lemma is_word_dropWhile:
  assumes "is_word w"
  shows "dropWhile is_space (w @ s) = w @ s"
    "is_space c \<Longrightarrow> takeWhile (\<lambda>c. \<not> is_space c) (w @ c # s) = w"
    "is_space c \<Longrightarrow> dropWhile (\<lambda>c. \<not> is_space c) (w @ c # s) = c # s"
    "takeWhile (\<lambda>c. \<not> is_space c) w = w" "dropWhile (\<lambda>c. \<not> is_space c) w = []"
proof -
  have all: "\<forall>c\<in>set w. \<not> is_space c" and ne: "w \<noteq> []" using assms by (auto simp: is_word_def list_all_iff)
  show "dropWhile is_space (w @ s) = w @ s" using all ne by (cases w) auto
  show "is_space c \<Longrightarrow> takeWhile (\<lambda>c. \<not> is_space c) (w @ c # s) = w"
    "is_space c \<Longrightarrow> dropWhile (\<lambda>c. \<not> is_space c) (w @ c # s) = c # s"
    "takeWhile (\<lambda>c. \<not> is_space c) w = w" "dropWhile (\<lambda>c. \<not> is_space c) w = []"
    using all by (auto simp: takeWhile_append2 dropWhile_append2 takeWhile_eq_all_conv dropWhile_eq_Nil_conv)
qed

text \<open>A typed line: words with white space before each of them, which only the first may lack, and behind the last.\<close>

definition typed_text :: "(string \<times> string) list \<Rightarrow> string \<Rightarrow> string" where
  "typed_text parts trail = concat (map (\<lambda>(sp, w). sp @ w) parts) @ trail"

definition typed_ok :: "(string \<times> string) list \<Rightarrow> string \<Rightarrow> bool" where
  "typed_ok parts trail \<longleftrightarrow>
     list_all (\<lambda>(sp, w). list_all is_space sp \<and> is_word w) parts \<and> list_all (\<lambda>(sp, w). sp \<noteq> []) (tl parts) \<and>
     list_all is_space trail"

lemma typed_text_start:
  assumes "typed_ok parts trail" "list_all (\<lambda>(sp, w). sp \<noteq> []) parts"
  shows "typed_text parts trail = [] \<or> is_space (hd (typed_text parts trail))"
  using assms by (cases parts; cases trail) (auto simp: typed_text_def typed_ok_def list_all_iff neq_Nil_conv hd_append)

lemma split_words_typed: "typed_ok parts trail \<Longrightarrow> split_words (typed_text parts trail) = map snd parts"
proof (induction parts)
  case Nil
  then have "dropWhile is_space trail = []" by (simp add: typed_ok_def list_all_iff)
  then show ?case by (subst split_words.simps) (simp add: typed_text_def)
next
  case (Cons part parts)
  obtain sp w where part: "part = (sp, w)" by (cases part)
  let ?r = "typed_text parts trail"
  have w: "is_word w" "list_all is_space sp" and ok: "typed_ok parts trail" and sep: "list_all (\<lambda>(sp, w). sp \<noteq> []) parts"
    using Cons.prems by (cases parts; auto simp: part typed_ok_def list_all_iff)+
  have eq: "typed_text (part # parts) trail = sp @ w @ ?r" by (simp add: part typed_text_def)
  have "dropWhile is_space (sp @ w @ ?r) = w @ ?r"
    using w is_word_dropWhile(1) [OF w(1)] by (simp add: dropWhile_append2 list_all_iff)
  moreover have "takeWhile (\<lambda>c. \<not> is_space c) (w @ ?r) = w \<and> dropWhile (\<lambda>c. \<not> is_space c) (w @ ?r) = ?r"
    using typed_text_start [OF ok sep] is_word_dropWhile(2-5) [OF w(1)] by (cases ?r) auto
  ultimately show ?case using w(1) Cons.IH [OF ok] unfolding eq
    by (subst split_words.simps) (simp add: is_word_def part Let_def)
qed

lemma find_crlf_take:
  "find_crlf s = Some n \<Longrightarrow> n + 2 \<le> length s \<and> take (n + 2) s = take n s @ CRLF \<and> find_crlf (take n s) = None"
proof (induction s arbitrary: n rule: find_crlf.induct)
  case (1 c d cs)
  show ?case
  proof (cases "c = CR \<and> d = LF")
    case False
    then obtain m where m: "find_crlf (d # cs) = Some m" "n = Suc m" using 1 by auto
    then show ?thesis using 1(1) [OF False m(1)] False by (cases m) auto
  qed (use 1 in \<open>simp add: CRLF_def\<close>)
qed auto

lemma find_crlf_append: "find_crlf s = Some n \<Longrightarrow> find_crlf (s @ r) = Some n"
proof (induction s arbitrary: n rule: find_crlf.induct)
  case (1 c d cs)
  then show ?case by (auto split: if_splits)
qed simp_all

lemma find_crlf_first:
  assumes "LF \<notin> set s"
  shows "find_crlf (s @ CRLF @ r) = Some (length s)"
  using assms
proof (induction s)
  case (Cons c s)
  then show ?case by (cases s) (auto simp: CRLF_def)
qed (simp add: CRLF_def)

lemma c_str_id: "list_all (\<lambda>c. ord c \<noteq> 0) s \<Longrightarrow> c_str s = s"
  by (simp add: c_str_def takeWhile_eq_all_conv list_all_iff)

lemma to_string_not_zero: "c \<in> set (to_string x) \<Longrightarrow> ord c \<noteq> 0"
  using to_string_chars [of c x] by (auto simp: is_digit_def ord_def)

lemma c_str_bulk:
  assumes "length (bulk_reply s) < 8192" "list_all (\<lambda>c. ord c \<noteq> 0) s"
  shows "c_str (take 8191 (bulk_reply s)) = bulk_reply s"
proof -
  have "list_all (\<lambda>c. ord c \<noteq> 0) (bulk_reply s)"
    using assms(2) by (auto simp: bulk_reply_def list_all_iff CRLF_def ord_def dest: to_string_not_zero)
  then show ?thesis using assms(1) by (simp add: c_str_id)
qed

lemma send_command_typed:
  assumes "connected cl" "parts \<noteq> []" "typed_ok parts trail"
  shows "send_command (typed_text parts trail) n cl =
    (n = int (length (print_resp (request (map snd parts)))), Some (print_resp (request (map snd parts))))"
  using assms by (simp add: send_command_def split_words_typed encode_request_print Let_def)

section \<open>A conversation\<close>

lemma request_served:
  assumes "length (print_resp (request ws)) < BUFFER_SIZE"
    and "\<not> aborted sys" "map_of (conns sys) fd = Some \<lparr>buffer = [], processed_pos = None\<rparr>"
    and "process_command env fd (request ws) (shared sys) = (Some r, srv)"
  shows "run_machine sys_step sys [Readable fd (print_resp (request ws)), Iterate fd env True, Iterate fd env' written] =
      set_conn fd \<lparr>buffer = [], processed_pos = None\<rparr> (sys\<lparr>shared := srv, sent := sent sys @ [(fd, r)]\<rparr>)"
proof -
  have "run_machine sys_step sys (Readable fd (print_resp (request ws)) # iterations fd [(env, request ws)] @ [Iterate fd env' written]) =
      set_conn fd \<lparr>buffer = [], processed_pos = None\<rparr> (sys\<lparr>shared := srv, sent := sent sys @ map (Pair fd) [r]\<rparr>)"
    using assms by (intro serve_requests) (auto simp: wire_def canonical_request)
  then show ?thesis by (simp add: iterations_def)
qed

text \<open>
  The client and the server joined by the connection: each typed line is sent, all its bytes at once, the server's
  thread reads and scans them, and \<open>get_response\<close> receives what was sent to the client meanwhile.  When
  \<open>send_command\<close> fails, the client does not wait for a response.
\<close>

definition sent_since :: "int \<Rightarrow> 'l system \<Rightarrow> 'l system \<Rightarrow> string" where
  "sent_since fd sys sys' = concat (map snd (filter (\<lambda>m. fst m = fd) (drop (length (sent sys)) (sent sys'))))"

primrec converse ::
  "int \<Rightarrow> ('l environment \<times> string) list \<Rightarrow> redis_client \<times> 'l system \<Rightarrow> string list \<times> redis_client \<times> 'l system" where
  "converse fd [] st = ([], st)"
| "converse fd (t # ts) st =
     (let (env, line) = t; (cl, sys) = st
      in case send_command line (int (length (encode_request (split_words line)))) cl of
           (True, Some bytes) \<Rightarrow>
             (let sys' = run_machine sys_step sys [Readable fd bytes, Iterate fd env True, Iterate fd env True];
                  received = sent_since fd sys sys';
                  (msg, cl') = get_response (received \<noteq> []) (Some received) cl;
                  (msgs, st') = converse fd ts (cl', sys')
              in (msg # msgs, st'))
         | _ \<Rightarrow> (let (msgs, st') = converse fd ts st in ([] # msgs, st')))"

definition one_line :: "string \<Rightarrow> bool" where
  "one_line r \<longleftrightarrow> length r < 8192 \<and>
     (\<exists>line. r = line @ CRLF \<and> LF \<notin> set line \<and> list_all (\<lambda>c. ord c \<noteq> 0) line)"

definition drained :: "redis_client \<Rightarrow> bool" where
  "drained cl \<longleftrightarrow> connected cl \<and> msg_pos (msgs cl) = length (msg_buffer (msgs cl))"

lemma get_response_line:
  assumes "drained cl" "one_line r"
  shows "fst (get_response True (Some r) cl) = r \<and> drained (snd (get_response True (Some r) cl))"
proof -
  obtain line where r: "r = line @ CRLF" "LF \<notin> set line" "list_all (\<lambda>c. ord c \<noteq> 0) line" "length r < 8192"
    using assms(2) by (auto simp: one_line_def)
  have "list_all (\<lambda>c. ord c \<noteq> 0) r" using r by (simp add: CRLF_def ord_def)
  then have "c_str (take 8191 r) = r" using r(4) by (simp add: c_str_id)
  moreover have "find_crlf r = Some (length line)" using find_crlf_first [OF r(2), of "[]"] r(1) by simp
  ultimately show ?thesis
    using assms(1) r(1) by (simp add: drained_def get_response_def get_next_message_def parser_append_def case_prod_beta Let_def CRLF_def)
qed

section \<open>Properties\<close>

text \<open>C15. From the keyboard to the screen: of a sequence of typed lines, each with at least one word, with any white space
  around its words and with a reply of one line, each is read back by the server as exactly its words and
  processed once, in order, and the client's messages are exactly the replies of the command processor,
  one per line.\<close>

theorem conversation_in_step:
  assumes "drained cl" "\<not> aborted sys" "map_of (conns sys) fd = Some \<lparr>buffer = [], processed_pos = None\<rparr>"
    and "list_all (\<lambda>(env, parts, trail). parts \<noteq> [] \<and> typed_ok parts trail \<and>
      length (print_resp (request (map snd parts))) < BUFFER_SIZE) cs"
    and "process_each fd (map (\<lambda>(env, parts, trail). (env, request (map snd parts))) cs) (shared sys) = (map Some rs, srv)"
    and "list_all one_line rs"
  shows "\<exists>cl' sys'. converse fd (map (\<lambda>(env, parts, trail). (env, typed_text parts trail)) cs) (cl, sys) = (rs, cl', sys') \<and>
    shared sys' = srv \<and> sent sys' = sent sys @ map (Pair fd) rs \<and> drained cl'"
  using assms
proof (induction cs arbitrary: cl sys rs)
  case (Cons c cs)
  obtain env parts trail where c: "c = (env, parts, trail)" by (cases c)
  let ?cs = "map (\<lambda>(env, parts, trail). (env, typed_text parts trail)) cs" and ?ws = "map snd parts"
  obtain r rs' srv' where rs: "rs = r # rs'" "process_command env fd (request ?ws) (shared sys) = (Some r, srv')"
    "process_each fd (map (\<lambda>(env, parts, trail). (env, request (map snd parts))) cs) srv' = (map Some rs', srv)"
    using Cons.prems(5) unfolding c list.map prod.case by (rule process_each_ConsE)
  let ?sys = "set_conn fd \<lparr>buffer = [], processed_pos = None\<rparr> (sys\<lparr>shared := srv', sent := sent sys @ [(fd, r)]\<rparr>)"
  let ?cl = "snd (get_response True (Some r) cl)"
  have ok: "parts \<noteq> []" "typed_ok parts trail" "length (print_resp (request ?ws)) < BUFFER_SIZE"
    using Cons.prems(4) by (simp_all add: c)
  have cl: "fst (get_response True (Some r) cl) = r" "drained ?cl"
    using get_response_line [OF Cons.prems(1), of r] Cons.prems(6) rs(1) by simp_all
  have typed: "send_command (typed_text parts trail) (int (length (encode_request (split_words (typed_text parts trail))))) cl =
      (True, Some (print_resp (request ?ws)))"
    using ok Cons.prems(1) by (simp add: send_command_typed split_words_typed encode_request_print drained_def)
  have served: "run_machine sys_step sys [Readable fd (print_resp (request ?ws)), Iterate fd env True, Iterate fd env True] = ?sys"
    using request_served [OF ok(3) Cons.prems(2,3) rs(2)] by simp
  have "sent_since fd sys ?sys = r" "r \<noteq> []"
    using Cons.prems(6) by (auto simp: sent_since_def rs(1) one_line_def CRLF_def)
  then have step: "converse fd ((env, typed_text parts trail) # ?cs) (cl, sys) =
      (let (msgs, st) = converse fd ?cs (?cl, ?sys) in (r # msgs, st))"
    using cl(1) typed served by (simp add: case_prod_beta Let_def del: run_machine.simps)
  have "\<exists>cl' sys'. converse fd ?cs (?cl, ?sys) = (rs', cl', sys') \<and>
    shared sys' = srv \<and> sent sys' = sent ?sys @ map (Pair fd) rs' \<and> drained cl'"
    by (rule Cons.IH) (use Cons.prems cl(2) rs in \<open>simp_all add: c\<close>)
  then show ?case unfolding c list.map prod.case step using rs(1) by auto
qed simp

theorem conversation_in_step_witness:
  "fst (converse 4 [(sample_env, ''UNWATCH''), (sample_env, '' MULTI '')]
     ((make_client ''127.0.0.1'' 6379)\<lparr>connected := True\<rparr>, sample_system)) = [ok_reply, ok_reply]"
proof -
  let ?cs = "[(sample_env, [([], ''UNWATCH'')], []), (sample_env, [('' '', ''MULTI'')], '' '')]"
  have "list_all (\<lambda>(env, parts, trail). parts \<noteq> [] \<and> typed_ok parts trail \<and>
      length (print_resp (request (map snd parts))) < BUFFER_SIZE) ?cs"
    by (simp add: request_def bulk_def bulk_reply_def BUFFER_SIZE_def to_string_def nat_digits.simps is_word_def typed_ok_def
        is_space_def ord_def)
  moreover have "list_all one_line [ok_reply, ok_reply]"
    unfolding one_line_def by (auto simp: ok_reply_def simple_reply_def ord_def intro!: exI [of _ "''+OK''"])
  moreover obtain srv where "process_each 4 (map (\<lambda>(env, parts, trail). (env, request (map snd parts))) ?cs)
      (shared sample_system) = (map Some [ok_reply, ok_reply], srv)"
    by (rule that) (simp add: sample_unwatch process_multi)
  ultimately show ?thesis
    using conversation_in_step [where cl = "(make_client ''127.0.0.1'' 6379)\<lparr>connected := True\<rparr>" and fd = 4 and sys = sample_system
        and cs = ?cs and rs = "[ok_reply, ok_reply]" and srv = srv]
    by (auto simp: typed_text_def drained_def make_client_def)
qed

text \<open>The client loses no bytes and keeps their order: a message is the part of the received bytes
  up to the first line end behind the position, the position moves just behind it, and without a
  complete line there is no message and nothing moves.\<close>

theorem messages_are_lines:
  "let (m, p') = get_next_message p in
     msg_buffer p' = msg_buffer p \<and> m @ drop (msg_pos p') (msg_buffer p) = drop (msg_pos p) (msg_buffer p) \<and>
     (if m = [] then p' = p else \<exists>line. m = line @ CRLF \<and> find_crlf line = None)"
proof (cases "find_crlf (drop (msg_pos p) (msg_buffer p))")
  case (Some n)
  note f = find_crlf_take [OF Some]
  have "take (n + 2) (drop (msg_pos p) (msg_buffer p)) @ drop (msg_pos p + n + 2) (msg_buffer p) =
      drop (msg_pos p) (msg_buffer p)"
    using append_take_drop_id [of "n + 2" "drop (msg_pos p) (msg_buffer p)"] by (simp add: add.commute add.left_commute)
  then show ?thesis
    using f Some by (auto simp: get_next_message_def split: if_splits intro!: exI [of _ "take n (drop (msg_pos p) (msg_buffer p))"])
qed (simp add: get_next_message_def)

text \<open>A bulk reply is cut: of a reply with a value the client's next message is only the length line,
  whatever the value is; the value stays behind in the client's buffer.\<close>

theorem bulk_reply_is_cut:
  assumes "connected cl" "msgs cl = \<lparr>msg_buffer = [], msg_pos = 0\<rparr>"
    and "length (bulk_reply s) < 8192" "list_all (\<lambda>c. ord c \<noteq> 0) s"
  shows "fst (get_response True (Some (bulk_reply s)) cl) = ''$'' @ size_string (length s) @ CRLF"
proof -
  note c = c_str_bulk [OF assms(3,4)]
  have "find_crlf ((''$'' @ size_string (length s)) @ CRLF @ s @ CRLF) = Some (length (''$'' @ size_string (length s)))"
    by (rule find_crlf_first) simp
  then have f: "find_crlf (bulk_reply s) = Some (Suc (length (size_string (length s))))" by (simp add: bulk_reply_def)
  have "take (Suc (length (size_string (length s))) + 2) (bulk_reply s) = ''$'' @ size_string (length s) @ CRLF"
    by (simp add: bulk_reply_def CRLF_def)
  moreover have "bulk_reply s \<noteq> []" by (simp add: bulk_reply_def)
  ultimately show ?thesis
    using assms(1,2) c f by (simp add: get_response_def get_next_message_def parser_append_def case_prod_beta Let_def)
qed

theorem bulk_reply_is_cut_witness:
  "fst (get_response True (Some (bulk_reply ''abc'')) ((make_client ''127.0.0.1'' 6379)\<lparr>connected := True\<rparr>)) = ''$3'' @ CRLF"
proof -
  have "length (bulk_reply ''abc'') < 8192"
    by (simp add: bulk_reply_def to_string_def nat_digits.simps)
  then show ?thesis
    using bulk_reply_is_cut [where cl = "(make_client ''127.0.0.1'' 6379)\<lparr>connected := True\<rparr>" and s = "''abc''"]
    by (simp add: make_client_def ord_def to_string_def nat_digits.simps digit_char_def char_of_def bit_0)
qed

end
