(* ===== verification/Tui.thy ===== *)
theory Tui
  imports Redis_Client
begin

text \<open>
  The terminal client (\<open>clients/tui/redis_tui.cpp\<close>): its views, the menu loop and \<open>main\<close>.  The keyboard
  is a stream with its state bits; the results of the system calls of the \<open>n\<close>-th exchange with the
  server are \<open>net n\<close>.  What is printed is modelled where it is computed from the state (the rows of
  a page, the bars of the trends) or can raise an exception.  The loops that depend on the
  keyboard are partial functions: \<open>None\<close> means that the loop does not end.
\<close>

section \<open>Input streams\<close>

text \<open>\<open>good\<close>: no state bit is set.\<close>

record istream =
  chars :: string
  good :: bool

text \<open>
  \<open>std::getline(is, line)\<close>: whether it succeeded, the line and the stream.  When the stream is not
  good on entry the line keeps its old value \<open>old\<close>.
\<close>

definition get_line :: "string \<Rightarrow> istream \<Rightarrow> bool \<times> string \<times> istream" where
  "get_line old is =
     (if \<not> good is then (False, old, is)
      else case dropWhile (\<lambda>c. c \<noteq> LF) (chars is) of
        [] \<Rightarrow> (chars is \<noteq> [], chars is, \<lparr>chars = [], good = False\<rparr>)
      | _ # rest \<Rightarrow> (True, takeWhile (\<lambda>c. c \<noteq> LF) (chars is), is\<lparr>chars := rest\<rparr>))"

text \<open>\<open>is.get()\<close> and \<open>is.ignore()\<close>, whose character is not used.\<close>

definition skip_char :: "istream \<Rightarrow> istream" where
  "skip_char is = (if \<not> good is then is else if chars is = [] then is\<lparr>good := False\<rparr> else is\<lparr>chars := tl (chars is)\<rparr>)"

text \<open>\<open>is >> c\<close>; a variable that is not assigned keeps its (indeterminate) value.\<close>

definition read_char :: "char \<Rightarrow> istream \<Rightarrow> char \<times> istream" where
  "read_char old is =
     (if \<not> good is then (old, is)
      else case dropWhile is_space (chars is) of
        [] \<Rightarrow> (old, \<lparr>chars = [], good = False\<rparr>)
      | c # rest \<Rightarrow> (c, is\<lparr>chars := rest\<rparr>))"

definition stream_left :: "istream \<Rightarrow> nat" where
  "stream_left is = (if good is then Suc (length (chars is)) else 0)"

definition string_stream :: "string \<Rightarrow> istream" where
  "string_stream s = \<lparr>chars = s, good = True\<rparr>"

lemma up_to_LF:
  "LF \<notin> set s \<Longrightarrow> takeWhile (\<lambda>c. c \<noteq> LF) (s @ LF # rest) = s"
  "LF \<notin> set s \<Longrightarrow> dropWhile (\<lambda>c. c \<noteq> LF) (s @ LF # rest) = LF # rest"
  by (induction s) auto

lemma get_line_cases:
  obtains (bad) "\<not> good is" "get_line old is = (False, old, is)"
  | (last) "good is" "LF \<notin> set (chars is)" "get_line old is = (chars is \<noteq> [], chars is, \<lparr>chars = [], good = False\<rparr>)"
  | (line) line rest where "good is" "LF \<notin> set line" "chars is = line @ LF # rest"
      "get_line old is = (True, line, is\<lparr>chars := rest\<rparr>)"
proof (cases "good is \<and> LF \<in> set (chars is)")
  case True
  then obtain line rest where cs: "chars is = line @ LF # rest" "LF \<notin> set line" by (metis split_list_first)
  then show ?thesis using line [of line rest] True by (simp add: get_line_def up_to_LF)
next
  case False
  then have "dropWhile (\<lambda>c. c \<noteq> LF) (chars is) = []" if "good is" using that by auto
  then show ?thesis using False bad last by (cases "good is") (simp_all add: get_line_def del: dropWhile_eq_Nil_conv)
qed

lemma get_line_left:
  "stream_left (snd (snd (get_line old is))) \<le> stream_left is"
  "fst (get_line old is) \<Longrightarrow> stream_left (snd (snd (get_line old is))) < stream_left is"
  by (cases rule: get_line_cases [of "is" old]; simp add: stream_left_def)+

section \<open>State\<close>

text \<open>The results of the system calls of one exchange.  The members \<open>current_command\<close> and \<open>current_view\<close> of
  the class are never used and have no field.\<close>

record exchange =
  sent_bytes :: int
  ready :: bool
  received :: "string option"
  socket_fd :: int
  reachable :: "string \<Rightarrow> nat \<Rightarrow> bool"

type_synonym network = "nat \<Rightarrow> exchange"

record tui =
  client :: redis_client
  key_value_pairs :: "(string \<times> string) list"
  current_page :: nat
  server_info :: "(string, string) umap"
  memory_history :: "double list"
  connections_history :: "int list"
  command_history :: "string list"
  response_history :: "string list"
  tui_running :: bool
  cin :: istream
  exchanges :: nat

definition page_size :: nat where "page_size = 20"
definition max_history :: nat where "max_history = 20"
definition max_history_cmds :: nat where "max_history_cmds = 100"

definition make_tui :: "string \<Rightarrow> int \<Rightarrow> string \<Rightarrow> tui" where
  "make_tui h p keyboard =
     \<lparr>client = make_client h p, key_value_pairs = [], current_page = 0, server_info = [], memory_history = [],
      connections_history = [], command_history = [], response_history = [], tui_running = True,
      cin = string_stream keyboard, exchanges = 0\<rparr>"

text \<open>\<open>if (client.send_command(cmd)) \<dots> client.get_response()\<close>; \<open>None\<close> when sending fails.\<close>

definition ask :: "network \<Rightarrow> string \<Rightarrow> tui \<Rightarrow> string option \<times> tui" where
  "ask net cmd t =
     (let x = net (exchanges t); t1 = t\<lparr>exchanges := Suc (exchanges t)\<rparr>
      in if \<not> fst (send_command cmd (sent_bytes x) (client t)) then (None, t1)
         else let (msg, cl) = get_response (ready x) (received x) (client t) in (Some msg, t1\<lparr>client := cl\<rparr>))"

text \<open>\<open>push_back\<close>, and \<open>erase(begin())\<close> when the vector has become too long.\<close>

definition push_capped :: "nat \<Rightarrow> 'a \<Rightarrow> 'a list \<Rightarrow> 'a list" where
  "push_capped cap x xs = (if cap < length (xs @ [x]) then tl (xs @ [x]) else xs @ [x])"

section \<open>Command interface and history\<close>

definition handle_command_interface :: "network \<Rightarrow> tui \<Rightarrow> tui" where
  "handle_command_interface net t =
     (let (_, cmd, is) = get_line [] (cin t); t1 = t\<lparr>cin := is\<rparr>
      in if cmd = ''back'' then t1
         else if cmd = [] then t1
         else case ask net cmd (t1\<lparr>command_history := push_capped max_history_cmds cmd (command_history t1)\<rparr>) of
           (None, t2) \<Rightarrow> t2
         | (Some response, t2) \<Rightarrow>
             (let t3 = (if response \<noteq> [] then t2\<lparr>response_history := response_history t2 @ [response]\<rparr> else t2)
              in t3\<lparr>cin := skip_char (cin t3)\<rparr>))"

definition handle_history :: "tui \<Rightarrow> tui" where
  "handle_history t = t\<lparr>cin := skip_char (cin t)\<rparr>"

section \<open>Data browser\<close>

function listed_keys :: "istream \<Rightarrow> string list" where
  "listed_keys ss =
     (let (ok, line, ss1) = get_line [] ss
      in if \<not> ok then []
         else if 1 < length line \<and> hd line = CHR ''$'' then
           let (_, line2, ss2) = get_line line ss1
           in (if line2 \<noteq> [] then [line2] else []) @ listed_keys ss2
         else listed_keys ss1)"
  by pat_completeness auto
termination listed_keys
proof (relation "measure stream_left", goal_cases)
  case (2 ss p ok q line ss1 p2 ok2 q2 line2 ss2)
  then show ?case
    using get_line_left(2) [of "[]" ss] get_line_left(1) [of line ss1]
    by (metis fst_conv in_measure le_less_trans snd_conv)
next
  case (3 ss p ok q line ss1)
  then show ?case using get_line_left(2) [of "[]" ss] by (metis fst_conv in_measure snd_conv)
qed simp

declare listed_keys.simps [simp del]

definition fetch_value :: "network \<Rightarrow> string \<Rightarrow> tui \<Rightarrow> tui" where
  "fetch_value net key t =
     (case ask net (''GET '' @ key) t of
        (Some value, t1) \<Rightarrow>
          if value \<noteq> [] \<and> hd value \<noteq> CHR ''-'' then t1\<lparr>key_value_pairs := key_value_pairs t1 @ [(key, value)]\<rparr> else t1
      | (None, t1) \<Rightarrow> t1)"

definition refresh_data :: "network \<Rightarrow> tui \<Rightarrow> tui" where
  "refresh_data net t =
     (case ask net ''KEYS *'' (t\<lparr>key_value_pairs := []\<rparr>) of
        (None, t1) \<Rightarrow> t1
      | (Some keys_response, t1) \<Rightarrow>
          if keys_response = [] then t1
          else fold (fetch_value net) (take 50 (listed_keys (string_stream keys_response))) t1)"

text \<open>The rows of the current page: number, key and value, both cut.\<close>

definition page_rows :: "tui \<Rightarrow> (nat \<times> string \<times> string) list" where
  "page_rows t =
     (let start = current_page t * page_size; stop = min (start + page_size) (length (key_value_pairs t))
      in map (\<lambda>i. let (key, value) = key_value_pairs t ! i in (i + 1, take 25 key, take 45 value)) [start..<stop])"

text \<open>The number of pages that the data browser prints.\<close>

definition page_count :: "tui \<Rightarrow> nat" where
  "page_count t = (length (key_value_pairs t) + page_size - 1) div page_size"

definition turn_page :: "char \<Rightarrow> tui \<Rightarrow> tui" where
  "turn_page cmd t =
     (if cmd = CHR ''n'' then
        (if (current_page t + 1) * page_size < length (key_value_pairs t) then t\<lparr>current_page := current_page t + 1\<rparr> else t)
      else if cmd = CHR ''p'' then (if 0 < current_page t then t\<lparr>current_page := current_page t - 1\<rparr> else t)
      else t)"

definition handle_data_browser :: "network \<Rightarrow> char \<Rightarrow> tui \<Rightarrow> tui" where
  "handle_data_browser net unset t =
     (let t1 = refresh_data net t; (cmd, is) = read_char unset (cin t1)
      in turn_page cmd (t1\<lparr>cin := skip_char is\<rparr>))"

section \<open>Server monitor\<close>

function info_entries :: "istream \<Rightarrow> (string, string) umap \<Rightarrow> (string, string) umap" where
  "info_entries ss info =
     (let (ok, line, ss1) = get_line [] ss
      in if \<not> ok then info
         else if line = [] \<or> hd line = CHR ''#'' then info_entries ss1 info
         else if CHR '':'' \<in> set line then
           info_entries ss1
             (AList.update (takeWhile (\<lambda>c. c \<noteq> CHR '':'') line) (tl (dropWhile (\<lambda>c. c \<noteq> CHR '':'') line)) info)
         else info_entries ss1 info)"
  by pat_completeness auto
termination info_entries
proof (relation "measure (\<lambda>(ss, info). stream_left ss)", goal_cases)
  case (2 ss info p ok q line ss1)
  then show ?case using get_line_left(2) [of "[]" ss] by (metis case_prod_conv fst_conv in_measure snd_conv)
next
  case (3 ss info p ok q line ss1)
  then show ?case using get_line_left(2) [of "[]" ss] by (metis case_prod_conv fst_conv in_measure snd_conv)
next
  case (4 ss info p ok q line ss1)
  then show ?case using get_line_left(2) [of "[]" ss] by (metis case_prod_conv fst_conv in_measure snd_conv)
qed simp

declare info_entries.simps [simp del]

definition fetch_server_info :: "network \<Rightarrow> tui \<Rightarrow> tui" where
  "fetch_server_info net t =
     (case ask net ''INFO'' (t\<lparr>server_info := []\<rparr>) of
        (None, t1) \<Rightarrow> t1
      | (Some info_response, t1) \<Rightarrow>
          if info_response = [] then t1
          else t1\<lparr>server_info := info_entries (string_stream info_response) (server_info t1)\<rparr>)"

definition megabytes :: "double \<Rightarrow> double" where
  "megabytes d = dbl_div (dbl_div d (dbl_of_nat 1024)) (dbl_of_nat 1024)"

text \<open>Exceptions of \<open>stod\<close> and \<open>stoi\<close> are caught here.\<close>

definition update_monitoring_data :: "tui \<Rightarrow> tui" where
  "update_monitoring_data t =
     (let t1 =
        (case map_of (server_info t) ''used_memory'' of
           None \<Rightarrow> t
         | Some s \<Rightarrow>
             (case stod s of
                Inl _ \<Rightarrow> t
              | Inr d \<Rightarrow> t\<lparr>memory_history := push_capped max_history (megabytes d) (memory_history t)\<rparr>))
      in case map_of (server_info t1) ''connected_clients'' of
           None \<Rightarrow> t1
         | Some s \<Rightarrow>
             (case stoi s of
                Inl _ \<Rightarrow> t1
              | Inr n \<Rightarrow> t1\<lparr>connections_history := push_capped max_history n (connections_history t1)\<rparr>))"

text \<open>\<open>server_info[key]\<close> inserts an empty value for a missing key.\<close>

definition subscript :: "string \<Rightarrow> (string, string) umap \<Rightarrow> (string, string) umap" where
  "subscript key m = (if map_of m key = None then AList.update key [] m else m)"

definition value_at :: "string \<Rightarrow> (string, string) umap \<Rightarrow> string" where
  "value_at key m = (case map_of m key of None \<Rightarrow> [] | Some v \<Rightarrow> v)"

text \<open>\<open>std::string(bars, c)\<close> for each entry; a negative number becomes a length beyond \<open>max_size()\<close>.\<close>

fun trend :: "char \<Rightarrow> int list \<Rightarrow> string list result" where
  "trend c [] = Inr []"
| "trend c (bars # rest) =
     (if bars < 0 then Inl Length_error
      else case trend c rest of Inl e \<Rightarrow> Inl e | Inr rows \<Rightarrow> Inr (replicate (nat bars) c # rows))"

definition max_element :: "('a \<Rightarrow> 'a \<Rightarrow> bool) \<Rightarrow> 'a list \<Rightarrow> 'a" where
  "max_element lt xs = foldl (\<lambda>m x. if lt m x then x else m) (hd xs) (tl xs)"

definition memory_bars :: "double list \<Rightarrow> int list" where
  "memory_bars hist =
     (let max_mem = max_element dlt hist
      in map (\<lambda>mem. if dlt dzero max_mem then dbl_to_int (dbl_mul (dbl_div mem max_mem) (dbl_of_nat 30)) else 0) hist)"

text \<open>Integer division of C++ by a positive number.\<close>

definition cpp_div :: "int \<Rightarrow> int \<Rightarrow> int" where
  "cpp_div a b = (if a < 0 then - (- a div b) else a div b)"

definition connection_bars :: "int list \<Rightarrow> int list" where
  "connection_bars hist =
     (let max_conn = max_element (<) hist
      in map (\<lambda>conn. if 0 < max_conn then cpp_div (wrap32 (conn * 30)) max_conn else 0) hist)"

text \<open>The part of \<open>handle_server_monitor\<close> that prints.\<close>

definition display_monitor :: "tui \<Rightarrow> tui result" where
  "display_monitor t =
     (if server_info t = [] then Inr t
      else
        let m1 = fold subscript [''redis_version'', ''uptime_in_seconds'', ''connected_clients'', ''used_memory''] (server_info t)
        in case (if value_at ''used_memory'' m1 = [] then Inr dzero else stod (value_at ''used_memory'' m1)) of
             Inl e \<Rightarrow> Inl e
           | Inr _ \<Rightarrow>
               let m2 = fold subscript [''total_commands_processed'', ''save_daemon_running''] m1;
                   m3 = (if value_at ''save_daemon_running'' m2 = [] then m2
                         else fold subscript [''save_daemon_interval'', ''save_daemon_successful_saves'',
                           ''save_daemon_failed_saves''] m2)
               in case trend (CHR ''#'') (memory_bars (memory_history t)) of
                    Inl e \<Rightarrow> Inl e
                  | Inr _ \<Rightarrow>
                      (case trend (CHR ''*'') (connection_bars (connections_history t)) of
                         Inl e \<Rightarrow> Inl e
                       | Inr _ \<Rightarrow> Inr (t\<lparr>server_info := m3\<rparr>)))"

definition monitor_round :: "network \<Rightarrow> tui \<Rightarrow> (string \<times> tui) result" where
  "monitor_round net t =
     (case display_monitor (update_monitoring_data (fetch_server_info net t)) of
        Inl e \<Rightarrow> Inl e
      | Inr t1 \<Rightarrow> let (_, input, is) = get_line [] (cin t1) in Inr (input, t1\<lparr>cin := is\<rparr>))"

partial_function (option) handle_server_monitor :: "network \<Rightarrow> tui \<Rightarrow> tui result option" where
  "handle_server_monitor net t =
     (case monitor_round net t of
        Inl e \<Rightarrow> Some (Inl e)
      | Inr r \<Rightarrow> if fst r \<noteq> ''b'' then handle_server_monitor net (snd r) else Some (Inr (snd r)))"

section \<open>Connection, menu and main\<close>

definition handle_connection :: "network \<Rightarrow> tui \<Rightarrow> tui" where
  "handle_connection net t =
     (let (_, cmd, is) = get_line [] (cin t); t1 = t\<lparr>cin := is\<rparr>; x = net (exchanges t);
          t2 =
            (if connected (client t) then
               (if cmd = ''disconnect'' then t1\<lparr>client := stop_client (client t1)\<rparr> else t1)
             else if cmd = ''connect'' then
               t1\<lparr>client := snd (connect_client (socket_fd x) (reachable x) (client t1)), exchanges := Suc (exchanges t1)\<rparr>
             else t1)
      in t2\<lparr>cin := skip_char (cin t2)\<rparr>)"

text \<open>One iteration of the loop of \<open>run\<close>.\<close>

definition menu_round :: "network \<Rightarrow> char \<Rightarrow> tui \<Rightarrow> tui result option" where
  "menu_round net unset t =
     (let (_, choice, is) = get_line [] (cin t); t1 = t\<lparr>cin := is\<rparr>
      in if choice = [] then Some (Inr t1)
         else if hd choice = CHR ''1'' then Some (Inr (handle_command_interface net t1))
         else if hd choice = CHR ''2'' then Some (Inr (handle_data_browser net unset t1))
         else if hd choice = CHR ''3'' then handle_server_monitor net t1
         else if hd choice = CHR ''4'' then Some (Inr (handle_connection net t1))
         else if hd choice = CHR ''5'' then Some (Inr (handle_history t1))
         else if hd choice = CHR ''0'' then Some (Inr (t1\<lparr>tui_running := False\<rparr>))
         else Some (Inr (t1\<lparr>cin := skip_char (cin t1)\<rparr>)))"

partial_function (option) menu_loop :: "network \<Rightarrow> char \<Rightarrow> tui \<Rightarrow> tui result option" where
  "menu_loop net unset t =
     (if \<not> tui_running t then Some (Inr t)
      else Option.bind (menu_round net unset t)
        (\<lambda>r. case r of Inl e \<Rightarrow> Some (Inl e) | Inr t1 \<Rightarrow> menu_loop net unset t1))"

definition run_tui :: "network \<Rightarrow> char \<Rightarrow> tui \<Rightarrow> tui result option" where
  "run_tui net unset t = menu_loop net unset (t\<lparr>cin := skip_char (cin t)\<rparr>)"

text \<open>The exit status of \<open>main\<close>; \<open>args\<close> are the arguments behind the program name.\<close>

definition tui_main :: "network \<Rightarrow> char \<Rightarrow> string list \<Rightarrow> string \<Rightarrow> int option" where
  "tui_main net unset args keyboard =
     (let h = (if 1 \<le> length args then args ! 0 else ''127.0.0.1'')
      in case (if 2 \<le> length args then stoi (args ! 1) else Inr 6379) of
           Inl _ \<Rightarrow> Some 1
         | Inr p \<Rightarrow>
             (case run_tui net unset (make_tui h p keyboard) of
                None \<Rightarrow> None
              | Some (Inl _) \<Rightarrow> Some 1
              | Some (Inr _) \<Rightarrow> Some 0))"

section \<open>Invariant\<close>

definition parser_wf :: "redis_client \<Rightarrow> bool" where
  "parser_wf cl \<longleftrightarrow> msg_pos (msgs cl) \<le> length (msg_buffer (msgs cl))"

text \<open>
  The responses and the buffer of the message parser are never trimmed; they grow with the number of
  exchanges only, a response and at most 8191 bytes for each.
\<close>

definition tui_wf :: "tui \<Rightarrow> bool" where
  "tui_wf t \<longleftrightarrow>
     length (key_value_pairs t) \<le> 50 \<and> current_page t \<le> 2 \<and> umap_wf (server_info t) \<and>
     length (memory_history t) \<le> max_history \<and> length (connections_history t) \<le> max_history \<and>
     length (command_history t) \<le> max_history_cmds \<and> parser_wf (client t) \<and>
     length (response_history t) \<le> exchanges t \<and> length (msg_buffer (msgs (client t))) \<le> 8191 * exchanges t"

lemma tui_wf_cin [simp]: "tui_wf (t\<lparr>cin := is\<rparr>) = tui_wf t"
  and tui_wf_running [simp]: "tui_wf (t\<lparr>tui_running := b\<rparr>) = tui_wf t"
  by (simp_all add: tui_wf_def)

lemma length_push_capped: "length xs \<le> cap \<Longrightarrow> length (push_capped cap x xs) \<le> cap"
  by (simp add: push_capped_def)

lemma parser_wf_response:
  assumes "parser_wf cl"
  shows "parser_wf (snd (get_response rdy rcv cl))"
proof -
  have "parser_wf (cl\<lparr>msgs := snd (get_next_message (parser_append bytes (msgs cl)))\<rparr>)" for bytes
    using assms find_crlf_take [of "drop (msg_pos (msgs cl)) (msg_buffer (msgs cl) @ bytes)"]
    by (auto simp: parser_wf_def get_next_message_def parser_append_def split: option.split)
  then show ?thesis
    using assms by (auto simp: get_response_def parser_wf_def Let_def case_prod_beta split: option.split)
qed

lemma response_buffer:
  "length (msg_buffer (msgs (snd (get_response rdy rcv cl)))) \<le> 8191 + length (msg_buffer (msgs cl))"
proof -
  have c: "length (c_str (take 8191 bytes)) \<le> 8191" for bytes
    using length_takeWhile_le [of "\<lambda>c. ord c \<noteq> 0" "take 8191 bytes"] by (simp add: c_str_def)
  have "msg_buffer (snd (get_next_message (parser_append bytes p))) = msg_buffer p @ bytes" for bytes p
    by (simp add: get_next_message_def parser_append_def split: option.split)
  then show ?thesis using c by (auto simp: get_response_def Let_def case_prod_beta split: option.split)
qed

lemma msgs_connection [simp]: "msgs (stop_client cl) = msgs cl" "msgs (snd (connect_client fd addr cl)) = msgs cl"
  by (simp_all add: stop_client_def connect_client_def connect_to_server_def Let_def)

lemma parser_wf_connection [simp]:
  "parser_wf (stop_client cl) = parser_wf cl" "parser_wf (snd (connect_client fd addr cl)) = parser_wf cl"
  by (simp_all add: parser_wf_def stop_client_def connect_client_def connect_to_server_def Let_def)

lemma ask_effect:
  obtains cl where "snd (ask net cmd t) = t\<lparr>exchanges := Suc (exchanges t), client := cl\<rparr>"
    "parser_wf (client t) \<Longrightarrow> parser_wf cl" "length (msg_buffer (msgs cl)) \<le> 8191 + length (msg_buffer (msgs (client t)))"
proof (cases "fst (send_command cmd (sent_bytes (net (exchanges t))) (client t))")
  case True
  then show ?thesis
    using that [of "snd (get_response (ready (net (exchanges t))) (received (net (exchanges t))) (client t))"]
    by (simp add: ask_def Let_def case_prod_beta parser_wf_response response_buffer)
next
  case False
  then show ?thesis using that [of "client t"] by (simp add: ask_def)
qed

lemma tui_wf_ask: "tui_wf t \<Longrightarrow> tui_wf (snd (ask net cmd t))"
  by (rule ask_effect [of net cmd t]) (simp add: tui_wf_def)

lemma ask_same [simp]:
  "key_value_pairs (snd (ask net cmd t)) = key_value_pairs t" "cin (snd (ask net cmd t)) = cin t"
  "server_info (snd (ask net cmd t)) = server_info t" "memory_history (snd (ask net cmd t)) = memory_history t"
  "connections_history (snd (ask net cmd t)) = connections_history t" "tui_running (snd (ask net cmd t)) = tui_running t"
  "response_history (snd (ask net cmd t)) = response_history t" "exchanges (snd (ask net cmd t)) = Suc (exchanges t)"
  by (rule ask_effect [of net cmd t], simp)+

lemma ask_obtain:
  obtains r t1 where "ask net cmd t = (r, t1)" "r = fst (ask net cmd t)" "tui_wf t \<Longrightarrow> tui_wf t1"
    "key_value_pairs t1 = key_value_pairs t" "cin t1 = cin t" "server_info t1 = server_info t"
  using that [of "fst (ask net cmd t)" "snd (ask net cmd t)"] by (simp add: tui_wf_ask)

lemma fetch_value_effect:
  assumes "tui_wf t" "length (key_value_pairs t) \<le> n" "n < 50"
  shows "tui_wf (fetch_value net key t)" "length (key_value_pairs (fetch_value net key t)) \<le> Suc n"
proof -
  obtain r t1 where "ask net (''GET '' @ key) t = (r, t1)" "tui_wf t1" "key_value_pairs t1 = key_value_pairs t"
    using ask_obtain [of net "''GET '' @ key" t] assms(1) by metis
  then show "tui_wf (fetch_value net key t)" "length (key_value_pairs (fetch_value net key t)) \<le> Suc n"
    using assms(2,3) by (auto simp: fetch_value_def tui_wf_def split: option.split)
qed

lemma fetch_values_wf:
  "tui_wf t \<Longrightarrow> length (key_value_pairs t) + length ks \<le> 50 \<Longrightarrow> tui_wf (fold (fetch_value net) ks t)"
proof (induction ks arbitrary: t)
  case (Cons k ks)
  then show ?case
    using fetch_value_effect [OF Cons.prems(1) order_refl, of net k] by (simp add: Cons.IH)
qed simp

lemma refresh_data_wf:
  assumes "tui_wf t"
  shows "tui_wf (refresh_data net t)"
proof -
  let ?t = "t\<lparr>key_value_pairs := []\<rparr>"
  have "tui_wf ?t" using assms by (simp add: tui_wf_def)
  then obtain r t1 where "ask net ''KEYS *'' ?t = (r, t1)" "tui_wf t1" "key_value_pairs t1 = key_value_pairs ?t"
    using ask_obtain [of net "''KEYS *''" ?t] by metis
  then show ?thesis by (auto simp: refresh_data_def intro!: fetch_values_wf split: option.split)
qed

lemma turn_page_wf: "tui_wf t \<Longrightarrow> tui_wf (turn_page c t)"
  by (auto simp: turn_page_def tui_wf_def page_size_def)

lemma info_entries_wf: "umap_wf info \<Longrightarrow> umap_wf (info_entries ss info)"
proof (induction ss info rule: info_entries.induct)
  case (1 ss info)
  obtain ok line ss1 where "get_line [] ss = (ok, line, ss1)" by (cases "get_line [] ss")
  with 1 show ?case by (subst info_entries.simps) simp
qed

lemma subscript_wf: "umap_wf m \<Longrightarrow> umap_wf (subscript k m)"
  by (simp add: subscript_def)

lemma fetch_server_info_wf:
  assumes "tui_wf t"
  shows "tui_wf (fetch_server_info net t)"
proof -
  let ?t = "t\<lparr>server_info := []\<rparr>"
  have "tui_wf ?t" using assms by (simp add: tui_wf_def)
  then obtain r t1 where "ask net ''INFO'' ?t = (r, t1)" "tui_wf t1" using ask_obtain [of net "''INFO''" ?t] by metis
  then show ?thesis by (auto simp: fetch_server_info_def tui_wf_def info_entries_wf split: option.split)
qed

lemma update_monitoring_wf: "tui_wf t \<Longrightarrow> tui_wf (update_monitoring_data t)"
  by (auto simp: update_monitoring_data_def Let_def tui_wf_def length_push_capped split: option.split sum.split)

lemma display_monitor_effect:
  assumes "display_monitor t = Inr t'"
  obtains m where "t' = t\<lparr>server_info := m\<rparr>" "umap_wf (server_info t) \<Longrightarrow> umap_wf m"
proof (cases "server_info t = []")
  case True
  then show ?thesis using assms that [of "[]"] by (simp add: display_monitor_def)
next
  case False
  then show ?thesis
    using assms
    by (auto simp: display_monitor_def Let_def split: if_split_asm sum.split_asm
        intro!: that subscript_wf)
qed

lemma monitor_round_wf:
  assumes "tui_wf t" "monitor_round net t = Inr (input, t')"
  shows "tui_wf t'"
proof -
  let ?u = "update_monitoring_data (fetch_server_info net t)"
  obtain t1 where d: "display_monitor ?u = Inr t1" and t': "tui_wf t' = tui_wf t1"
    using assms(2) by (auto simp: monitor_round_def case_prod_beta split: sum.splits)
  have "tui_wf ?u" using assms(1) by (simp add: fetch_server_info_wf update_monitoring_wf)
  moreover obtain m where "t1 = ?u\<lparr>server_info := m\<rparr>" "umap_wf (server_info ?u) \<Longrightarrow> umap_wf m"
    using display_monitor_effect [OF d] by blast
  ultimately show ?thesis using t' by (simp add: tui_wf_def)
qed

lemma monitor_wf:
  assumes "handle_server_monitor net t = Some r" "tui_wf t" "r = Inr t'"
  shows "tui_wf t'"
proof -
  have "tui_wf t \<longrightarrow> r = Inr t' \<longrightarrow> tui_wf t'"
    using assms(1)
  proof (rule handle_server_monitor.raw_induct [where P = "\<lambda>net t r. tui_wf t \<longrightarrow> r = Inr t' \<longrightarrow> tui_wf t'", rotated])
    fix f :: "network \<Rightarrow> tui \<Rightarrow> tui result option" and net t r
    assume IH: "\<And>net t r. f net t = Some r \<Longrightarrow> tui_wf t \<longrightarrow> r = Inr t' \<longrightarrow> tui_wf t'"
      and eq: "(case monitor_round net t of Inl e \<Rightarrow> Some (Inl e)
        | Inr r \<Rightarrow> if fst r \<noteq> ''b'' then f net (snd r) else Some (Inr (snd r))) = Some r"
    have "f net t = Some (Inr t') \<Longrightarrow> tui_wf t \<Longrightarrow> tui_wf t'" for t using IH by blast
    then show "tui_wf t \<longrightarrow> r = Inr t' \<longrightarrow> tui_wf t'"
      using eq by (auto split: sum.splits if_splits dest: monitor_round_wf)
  qed
  then show ?thesis using assms(2,3) by simp
qed

text \<open>One iteration of the menu loop as a step; an exception or a view that does not end changes nothing.\<close>

definition tui_step :: "tui \<Rightarrow> network \<times> char \<Rightarrow> tui" where
  "tui_step t e = (case menu_round (fst e) (snd e) t of Some (Inr t') \<Rightarrow> t' | _ \<Rightarrow> t)"

lemma handle_command_interface_wf:
  assumes "tui_wf t"
  shows "tui_wf (handle_command_interface net t)"
proof -
  obtain ok cmd "is" where g: "get_line [] (cin t) = (ok, cmd, is)" by (cases "get_line [] (cin t)")
  define u where "u = t\<lparr>cin := is, command_history := push_capped max_history_cmds cmd (command_history t)\<rparr>"
  have u: "tui_wf u" using assms by (simp add: u_def tui_wf_def length_push_capped)
  obtain r t1 where a: "ask net cmd u = (r, t1)" by (cases "ask net cmd u")
  have t1: "tui_wf t1" "response_history t1 = response_history u" "exchanges t1 = Suc (exchanges u)"
    using tui_wf_ask [OF u, of net cmd] ask_same(7,8) [of net cmd u] by (simp_all add: a)
  then have "tui_wf (t1\<lparr>response_history := response_history t1 @ [m]\<rparr>)" for m
    using u by (simp add: tui_wf_def)
  then show ?thesis
    using assms g a t1(1) by (auto simp: handle_command_interface_def u_def Let_def split: option.split)
qed

lemma handle_connection_wf: "tui_wf t \<Longrightarrow> tui_wf (handle_connection net t)"
  by (auto simp: handle_connection_def Let_def case_prod_beta tui_wf_def)

lemma tui_step_wf: "tui_wf t \<Longrightarrow> tui_wf (tui_step t e)"
  by (auto simp: tui_step_def menu_round_def Let_def case_prod_beta handle_data_browser_def handle_history_def
      split: option.split sum.split
      intro!: handle_command_interface_wf handle_connection_wf turn_page_wf refresh_data_wf dest: monitor_wf)

interpretation terminal: machine tui_step tui_wf
  by unfold_locales (rule tui_step_wf)

section \<open>Replies as the views see them\<close>

text \<open>The received bytes that no message has used yet.\<close>

definition unread :: "redis_client \<Rightarrow> string" where
  "unread cl = drop (msg_pos (msgs cl)) (msg_buffer (msgs cl))"

lemma get_response_unread:
  assumes "parser_wf cl" "connected cl" "bytes \<noteq> []"
  defines "u \<equiv> unread cl @ c_str (take 8191 bytes)" and "r \<equiv> get_response True (Some bytes) cl"
  shows "fst r = (case find_crlf u of None \<Rightarrow> [] | Some n \<Rightarrow> take (n + 2) u)"
    "unread (snd r) = (case find_crlf u of None \<Rightarrow> u | Some n \<Rightarrow> drop (n + 2) u)" "connected (snd r)"
proof -
  let ?p = "parser_append (c_str (take 8191 bytes)) (msgs cl)"
  have u: "u = drop (msg_pos ?p) (msg_buffer ?p)"
    using assms(1) by (simp add: u_def unread_def parser_append_def parser_wf_def)
  have m: "get_next_message ?p =
      (case find_crlf u of None \<Rightarrow> ([], ?p) | Some n \<Rightarrow> (take (n + 2) u, ?p\<lparr>msg_pos := msg_pos ?p + n + 2\<rparr>))"
    by (simp add: get_next_message_def u split: option.split)
  have r: "r = (fst (get_next_message ?p), cl\<lparr>msgs := snd (get_next_message ?p)\<rparr>)"
    using assms(2,3) by (simp add: r_def get_response_def case_prod_beta)
  show "fst r = (case find_crlf u of None \<Rightarrow> [] | Some n \<Rightarrow> take (n + 2) u)" "connected (snd r)"
    using assms(2) by (simp_all add: r m split: option.split)
  show "unread (snd r) = (case find_crlf u of None \<Rightarrow> u | Some n \<Rightarrow> drop (n + 2) u)"
    by (simp add: r m unread_def u add.commute split: option.split)
qed

text \<open>The first bytes of a reply give its first line, or nothing.\<close>

lemma first_line_response:
  assumes "parser_wf cl" "unread cl = []" "LF \<notin> set line"
  shows "fst (get_response rdy (Some (take k (line @ CRLF @ rest))) cl) \<in> {[], line @ CRLF}"
proof -
  let ?all = "line @ CRLF @ rest"
  define bytes where "bytes = c_str (take 8191 (take k ?all))"
  obtain more where "?all = bytes @ more"
    unfolding bytes_def c_str_def by (metis append_take_drop_id append.assoc takeWhile_dropWhile_id)
  then have "n = length line \<and> take (n + 2) bytes = line @ CRLF" if f: "find_crlf bytes = Some n" for n
  proof -
    have n: "n = length line"
      using find_crlf_append [OF f, of more] find_crlf_first [OF assms(3), of rest] \<open>?all = bytes @ more\<close> by simp
    have "take (n + 2) bytes = take (n + 2) ?all"
      using find_crlf_take [OF f] \<open>?all = bytes @ more\<close> by simp
    then show ?thesis using n by (simp add: CRLF_def)
  qed
  then have "(case find_crlf bytes of None \<Rightarrow> [] | Some n \<Rightarrow> take (n + 2) bytes) \<in> {[], line @ CRLF}"
    by (auto split: option.split)
  then have eq: "fst (get_response True (Some (take k ?all)) cl) \<in> {[], line @ CRLF}"
    if "connected cl" "take k ?all \<noteq> []"
    using get_response_unread(1) [OF assms(1) that] by (simp only: assms(2) bytes_def append_Nil)
  have "fst (get_response rdy (Some b) cl) = [] \<or> connected cl \<and> rdy \<and> b \<noteq> []" for b
    by (simp add: get_response_def)
  then consider "fst (get_response rdy (Some (take k ?all)) cl) = []" | "connected cl" "rdy" "take k ?all \<noteq> []" by blast
  then show ?thesis using eq by cases simp_all
qed

lemma get_line_stream:
  "LF \<notin> set line \<Longrightarrow> get_line old (string_stream (line @ CRLF)) = (True, line @ [CR], string_stream [])"
  "get_line old (string_stream []) = (False, [], \<lparr>chars = [], good = False\<rparr>)"
  "\<not> good is \<Longrightarrow> get_line old is = (False, old, is)"
  using up_to_LF [of "line @ [CR]" "[]"] by (simp_all add: get_line_def string_stream_def CRLF_def)

lemma listed_keys_end: "listed_keys (string_stream []) = []" "\<not> good ss \<Longrightarrow> listed_keys ss = []"
  by (subst listed_keys.simps, simp add: get_line_stream)+

lemma listed_keys_one_line: "LF \<notin> set line \<Longrightarrow> listed_keys (string_stream (line @ CRLF)) = []"
  by (subst listed_keys.simps) (simp add: get_line_stream listed_keys_end)

lemma info_entries_one_line:
  assumes "LF \<notin> set line" "line \<noteq> []" "hd line \<noteq> CHR ''#''"
  shows "info_entries (string_stream (line @ CRLF)) info =
    (if CHR '':'' \<in> set line then
       AList.update (takeWhile (\<lambda>c. c \<noteq> CHR '':'') line) (tl (dropWhile (\<lambda>c. c \<noteq> CHR '':'') line) @ [CR]) info
     else info)"
proof -
  have "info_entries (string_stream []) info = info" for info
    by (subst info_entries.simps) (simp add: get_line_stream)
  then show ?thesis
    using assms by (subst info_entries.simps) (auto simp: get_line_stream takeWhile_append1 dropWhile_append1 neq_Nil_conv in_set_conv_decomp)
qed

lemma print_resp_line:
  assumes "canonical v"
  obtains line rest where "print_resp v = line @ CRLF @ rest" "LF \<notin> set line"
proof -
  obtain ty s n vs where v: "v = RespValue ty s n vs" by (cases v)
  show ?thesis
    using assms that [of "butlast (butlast (print_resp v))" "[]"] that [of "''$'' @ size_string (length s)" "s @ CRLF"]
      that [of "''*'' @ size_string (length vs)" "concat (map print_resp vs)"]
    unfolding v
    by (cases ty) (auto simp: simple_reply_def minus_reply_def int_reply_def bulk_reply_def line_ok_def CRLF_def butlast_append)
qed

section \<open>Pages and trends\<close>

definition page_row :: "tui \<Rightarrow> nat \<Rightarrow> nat \<times> string \<times> string" where
  "page_row t i = (i + 1, take 25 (fst (key_value_pairs t ! i)), take 45 (snd (key_value_pairs t ! i)))"

lemma page_count_iff: "p < page_count t \<longleftrightarrow> p * page_size < length (key_value_pairs t)"
proof -
  have "p < page_count t \<longleftrightarrow> Suc p * page_size \<le> length (key_value_pairs t) + page_size - 1"
    using less_eq_div_iff_mult_less_eq [of page_size "Suc p" "length (key_value_pairs t) + page_size - 1"]
    by (simp add: page_count_def page_size_def Suc_le_eq)
  then show ?thesis by (auto simp: page_size_def)
qed

lemma page_rows_page:
  "page_rows (t\<lparr>current_page := p\<rparr>) =
    map (page_row t) [p * page_size..<min (p * page_size + page_size) (length (key_value_pairs t))]"
  by (simp add: page_rows_def page_row_def Let_def case_prod_beta)

lemma page_rows_concat:
  "concat (map (\<lambda>p. page_rows (t\<lparr>current_page := p\<rparr>)) [0..<k]) =
    map (page_row t) [0..<min (k * page_size) (length (key_value_pairs t))]"
proof (induction k)
  case (Suc k)
  let ?n = "length (key_value_pairs t)"
  have "[0..<min (k * page_size) ?n] @ [k * page_size..<min (k * page_size + page_size) ?n] =
      [0..<min (Suc k * page_size) ?n]"
  proof (cases "k * page_size \<le> ?n")
    case True
    then have eqs: "min (Suc k * page_size) ?n = k * page_size + min page_size (?n - k * page_size)"
      "min (k * page_size + page_size) ?n = k * page_size + min page_size (?n - k * page_size)" by auto
    show ?thesis unfolding eqs min_absorb1 [OF True] by (rule upt_add_eq_append [symmetric]) simp
  qed (simp add: min_def)
  then have "map (page_row t) [0..<min (Suc k * page_size) ?n] =
      concat (map (\<lambda>p. page_rows (t\<lparr>current_page := p\<rparr>)) [0..<k]) @ page_rows (t\<lparr>current_page := k\<rparr>)"
    unfolding Suc by (metis map_append page_rows_page)
  then show ?case by simp
qed simp

lemma max_element_ge:
  fixes xs :: "int list"
  assumes "x \<in> set xs"
  shows "x \<le> max_element (<) xs"
proof -
  have eq: "(\<lambda>m x :: int. if m < x then x else m) = max" by (auto simp: fun_eq_iff max_def)
  have fold: "m \<le> foldl max m ys \<and> (y \<in> set ys \<longrightarrow> y \<le> foldl max m ys)" for m y :: int and ys
  proof (induction ys arbitrary: m)
    case (Cons z ys)
    show ?case using Cons.IH [of "max m z"] by auto
  qed simp
  show ?thesis unfolding max_element_def eq using assms fold [of "hd xs" "tl xs" x] by (cases xs) auto
qed

text \<open>For counts that are not negative and whose thirtyfold is an \<open>int\<close>, the bars are at most thirty long.\<close>

lemma connection_bars_bounds:
  assumes "\<forall>c\<in>set hist. 0 \<le> c \<and> c * 30 < 2 ^ 31" "b \<in> set (connection_bars hist)"
  shows "0 \<le> b \<and> b \<le> 30"
proof -
  let ?m = "max_element (<) hist"
  obtain c where c: "c \<in> set hist" and b: "b = (if 0 < ?m then cpp_div (wrap32 (c * 30)) ?m else 0)"
    using assms(2) unfolding connection_bars_def Let_def set_map by blast
  have "0 \<le> c" "c * 30 < 2 ^ 31" using assms(1) c by auto
  then have "wrap32 (c * 30) = c * 30" by simp
  moreover have "c * 30 \<le> ?m * 30" using max_element_ge [OF c] by simp
  then have "c * 30 div ?m \<le> 30" if "0 < ?m" using that zdiv_mono1 [of "c * 30" "?m * 30" ?m] by simp
  ultimately show ?thesis using b \<open>0 \<le> c\<close> by (auto simp: cpp_div_def pos_imp_zdiv_nonneg_iff)
qed

lemma trend_ok: "\<forall>b\<in>set bs. 0 \<le> b \<Longrightarrow> \<exists>rows. trend c bs = Inr rows \<and> map length rows = map nat bs"
proof (induction bs)
  case (Cons b bs)
  then obtain rows where "trend c bs = Inr rows" "map length rows = map nat bs" by auto
  then show ?case using Cons.prems by simp
qed simp

section \<open>Loops over the keyboard\<close>

lemma monitor_round_cin:
  assumes "monitor_round net t = Inr (input, t')"
  shows "get_line [] (cin t) = (fst (get_line [] (cin t)), input, cin t')"
proof -
  have u: "cin (update_monitoring_data (fetch_server_info net t)) = cin t"
  proof -
    obtain r t1 where "ask net ''INFO'' (t\<lparr>server_info := []\<rparr>) = (r, t1)" "cin t1 = cin (t\<lparr>server_info := []\<rparr>)"
      by (rule ask_obtain)
    then have "cin (fetch_server_info net t) = cin t" by (simp add: fetch_server_info_def split: option.split)
    moreover have "cin (update_monitoring_data s) = cin s" for s
      by (simp add: update_monitoring_data_def Let_def split: option.split sum.split)
    ultimately show ?thesis by simp
  qed
  obtain t1 where d: "display_monitor (update_monitoring_data (fetch_server_info net t)) = Inr t1"
    and "input = fst (snd (get_line [] (cin t1)))" "cin t' = snd (snd (get_line [] (cin t1)))"
    using assms by (auto simp: monitor_round_def case_prod_beta split: sum.splits)
  moreover have "cin t1 = cin t" by (rule display_monitor_effect [OF d]) (simp add: u)
  ultimately show ?thesis by simp
qed

text \<open>The text contains a line that is just \<open>b\<close>.\<close>

lemma monitor_returns_aux:
  assumes "good (cin t)" "chars (cin t) = pre @ ''b'' @ LF # post" "pre = [] \<or> last pre = LF"
  shows "\<exists>r. handle_server_monitor net t = Some r"
  using assms
proof (induction "length pre" arbitrary: pre t rule: less_induct)
  case less
  show ?case
  proof (cases "monitor_round net t")
    case (Inr r)
    then obtain input t1 where r: "monitor_round net t = Inr (input, t1)" by (cases r) simp
    note line = monitor_round_cin [OF r]
    show ?thesis
    proof (cases "pre = []")
      case True
      then have "get_line [] (cin t) = (True, ''b'', (cin t)\<lparr>chars := post\<rparr>)"
        using less.prems(1,2) up_to_LF [of "''b''" post] by (simp add: get_line_def)
      then show ?thesis using r line by (subst handle_server_monitor.simps) simp
    next
      case False
      then have "LF \<in> set pre" using less.prems(3) by (metis last_in_set)
      then obtain l pre' where pre: "pre = l @ LF # pre'" "LF \<notin> set l" by (metis split_list_first)
      then have "get_line [] (cin t) = (True, l, (cin t)\<lparr>chars := pre' @ ''b'' @ LF # post\<rparr>)"
        using less.prems(1,2) up_to_LF [of l "pre' @ ''b'' @ LF # post"] by (simp add: get_line_def)
      then have "cin t1 = (cin t)\<lparr>chars := pre' @ ''b'' @ LF # post\<rparr>" using line by simp
      moreover have "length pre' < length pre" "pre' = [] \<or> last pre' = LF"
        using pre less.prems(3) by (auto split: if_splits)
      ultimately have "\<exists>r. handle_server_monitor net t1 = Some r" using less.hyps [of pre' t1] less.prems(1) by simp
      then show ?thesis using r by (subst handle_server_monitor.simps) simp
    qed
  qed (subst handle_server_monitor.simps, simp)
qed

lemma menu_loop_end_of_input:
  assumes "menu_loop net unset t = Some r"
  shows "\<not> (tui_running t \<and> \<not> good (cin t))"
  using assms
proof (rule menu_loop.raw_induct [where P = "\<lambda>net unset t r. \<not> (tui_running t \<and> \<not> good (cin t))", rotated])
  fix f :: "network \<Rightarrow> char \<Rightarrow> tui \<Rightarrow> tui result option" and net unset t r
  assume IH: "\<And>net unset t r. f net unset t = Some r \<Longrightarrow> \<not> (tui_running t \<and> \<not> good (cin t))"
    and eq: "(if \<not> tui_running t then Some (Inr t)
      else Option.bind (menu_round net unset t) (\<lambda>r. case r of Inl e \<Rightarrow> Some (Inl e) | Inr t1 \<Rightarrow> f net unset t1)) = Some r"
  show "\<not> (tui_running t \<and> \<not> good (cin t))"
  proof
    assume "tui_running t \<and> \<not> good (cin t)"
    moreover from this have "menu_round net unset t = Some (Inr t)"
      by (simp add: menu_round_def get_line_stream)
    ultimately show False using eq IH by auto
  qed
qed

section \<open>Bytes left over\<close>

text \<open>After a bulk reply its text is left in the buffer.\<close>

lemma bulk_left_over:
  assumes "connected cl" "parser_wf cl" "unread cl = []" "length (bulk_reply s) < 8192" "list_all (\<lambda>c. ord c \<noteq> 0) s"
  defines "r \<equiv> get_response True (Some (bulk_reply s)) cl"
  shows "unread (snd r) = s @ CRLF" "connected (snd r)" "parser_wf (snd r)"
proof -
  have f: "find_crlf (bulk_reply s) = Some (length (''$'' @ size_string (length s)))"
    using find_crlf_first [of "''$'' @ size_string (length s)" "s @ CRLF"] by (simp add: bulk_reply_def)
  have "bulk_reply s \<noteq> []" by (simp add: bulk_reply_def)
  note r = get_response_unread [OF assms(2,1) this, folded r_def]
  have "unread cl @ c_str (take 8191 (bulk_reply s)) = bulk_reply s" by (simp only: assms(3) c_str_bulk [OF assms(4,5)] append_Nil)
  then show "unread (snd r) = s @ CRLF" using r(2) f by (simp add: bulk_reply_def CRLF_def)
  show "connected (snd r)" "parser_wf (snd r)" using r(3) assms(2) by (simp_all add: r_def parser_wf_response)
qed

lemma left_over_response:
  assumes "parser_wf cl" "connected cl" "unread cl = line @ CRLF" "LF \<notin> set line" "bytes \<noteq> []"
  shows "fst (get_response True (Some bytes) cl) = line @ CRLF"
  using get_response_unread(1) [OF assms(1,2,5)] find_crlf_first [OF assms(4)] assms(3) by (simp add: CRLF_def)

lemma ask_ready:
  assumes "connected (client t)" "split_words cmd \<noteq> []" "ready (net (exchanges t))"
    "sent_bytes (net (exchanges t)) = int (length (encode_request (split_words cmd)))"
  shows "ask net cmd t =
    (Some (fst (get_response True (received (net (exchanges t))) (client t))),
     t\<lparr>exchanges := Suc (exchanges t), client := snd (get_response True (received (net (exchanges t))) (client t))\<rparr>)"
  using assms by (simp add: ask_def send_command_def Let_def case_prod_beta)

lemma command_interface_ready:
  assumes "connected (client t)" "good (cin t)" "chars (cin t) = cmd @ LF # c # rest" "LF \<notin> set cmd" "cmd \<noteq> ''back''"
    "split_words cmd \<noteq> []" "ready (net (exchanges t))"
    "sent_bytes (net (exchanges t)) = int (length (encode_request (split_words cmd)))"
  shows "client (handle_command_interface net t) = snd (get_response True (received (net (exchanges t))) (client t))"
    "exchanges (handle_command_interface net t) = Suc (exchanges t)" "tui_running (handle_command_interface net t) = tui_running t"
    "cin (handle_command_interface net t) = (cin t)\<lparr>chars := rest\<rparr>"
proof -
  have "cmd \<noteq> []" using assms(6) split_words.simps [of "[]"] by auto
  then show "client (handle_command_interface net t) = snd (get_response True (received (net (exchanges t))) (client t))"
    "exchanges (handle_command_interface net t) = Suc (exchanges t)" "tui_running (handle_command_interface net t) = tui_running t"
    "cin (handle_command_interface net t) = (cin t)\<lparr>chars := rest\<rparr>"
    using assms by (simp_all add: handle_command_interface_def get_line_def up_to_LF ask_ready skip_char_def Let_def)
qed

text \<open>One iteration of the menu with a choice of one character.\<close>

lemma menu_choice:
  assumes "tui_running t" "good (cin t)" "chars (cin t) = c # LF # rest" "c \<noteq> LF"
  shows "c = CHR ''1'' \<Longrightarrow> menu_loop net unset t = menu_loop net unset (handle_command_interface net (t\<lparr>cin := (cin t)\<lparr>chars := rest\<rparr>\<rparr>))"
    "c = CHR ''4'' \<Longrightarrow> menu_loop net unset t = menu_loop net unset (handle_connection net (t\<lparr>cin := (cin t)\<lparr>chars := rest\<rparr>\<rparr>))"
    "c = CHR ''3'' \<Longrightarrow> handle_server_monitor net (t\<lparr>cin := (cin t)\<lparr>chars := rest\<rparr>\<rparr>) = Some (Inl e) \<Longrightarrow> menu_loop net unset t = Some (Inl e)"
  using assms by (subst menu_loop.simps, simp add: menu_round_def get_line_def)+

lemma split_INFO: "split_words ''INFO'' = [''INFO'']"
  by (simp add: split_words.simps [of "''INFO''"] split_words.simps [of "[]"] is_space_def ord_def)

lemma monitor_raises:
  assumes "fst (ask net ''INFO'' (t\<lparr>server_info := []\<rparr>)) = Some (''used_memory:'' @ w @ CRLF)"
    and "LF \<notin> set w" "stod (w @ [CR]) = Inl e"
  shows "handle_server_monitor net t = Some (Inl e)"
proof -
  let ?f = "fetch_server_info net t"
  obtain r t1 where "ask net ''INFO'' (t\<lparr>server_info := []\<rparr>) = (r, t1)" "r = fst (ask net ''INFO'' (t\<lparr>server_info := []\<rparr>))"
    "server_info t1 = server_info (t\<lparr>server_info := []\<rparr>)"
    by (rule ask_obtain)
  then have info: "server_info ?f = [(''used_memory'', w @ [CR])]"
    using assms(1,2) info_entries_one_line [of "''used_memory:'' @ w" "[]"] by (simp add: fetch_server_info_def)
  then have "update_monitoring_data ?f = ?f" using assms(3) by (simp add: update_monitoring_data_def)
  moreover have "display_monitor ?f = Inl e"
    using info assms(3) by (simp add: display_monitor_def subscript_def value_at_def)
  ultimately show ?thesis by (subst handle_server_monitor.simps) (simp add: monitor_round_def)
qed

text \<open>A text left over in the buffer is taken for the reply to INFO.\<close>

lemma left_over_raises:
  assumes "connected (client t)" "parser_wf (client t)" "unread (client t) = (''used_memory:'' @ w) @ CRLF" "LF \<notin> set w"
    and "sent_bytes (net (exchanges t)) = int (length (encode_request [''INFO'']))" "ready (net (exchanges t))"
    and "received (net (exchanges t)) = Some bytes" "bytes \<noteq> []" "stod (w @ [CR]) = Inl e"
  shows "handle_server_monitor net t = Some (Inl e)"
proof -
  have "fst (get_response True (Some bytes) (client t)) = (''used_memory:'' @ w) @ CRLF"
    using left_over_response [OF assms(2,1,3)] assms(4,8) by simp
  then have "fst (ask net ''INFO'' (t\<lparr>server_info := []\<rparr>)) = Some (''used_memory:'' @ w @ CRLF)"
    using assms(1,5-7) by (simp add: ask_ready split_INFO)
  then show ?thesis using assms(4,9) by (intro monitor_raises)
qed

definition sample_net :: "(int \<times> string) list \<Rightarrow> network" where
  "sample_net replies n =
     \<lparr>sent_bytes = fst (replies ! n), ready = True, received = Some (snd (replies ! n)), socket_fd = 3,
      reachable = \<lambda>h p. True\<rparr>"

section \<open>Properties\<close>

text \<open>C31. Whatever is typed and whatever the server sends, in every state between two iterations of the
  menu loop the client holds at most 50 pairs, 20 entries of each trend and 100 commands, the page is
  one of the first three, and the position of the message parser is inside its buffer; the responses and
  that buffer, which are never trimmed, hold at most one response and 8191 bytes for each exchange with the server.\<close>

theorem terminal_stays_bounded:
  "let t = run_machine tui_step (make_tui h p keyboard) events in
     length (key_value_pairs t) \<le> 50 \<and> current_page t \<le> 2 \<and> distinct (map fst (server_info t)) \<and>
     length (memory_history t) \<le> 20 \<and> length (connections_history t) \<le> 20 \<and> length (command_history t) \<le> 100 \<and>
     msg_pos (msgs (client t)) \<le> length (msg_buffer (msgs (client t))) \<and>
     length (response_history t) \<le> exchanges t \<and> length (msg_buffer (msgs (client t))) \<le> 8191 * exchanges t"
proof -
  have "tui_wf (make_tui h p keyboard)" by (simp add: tui_wf_def make_tui_def make_client_def parser_wf_def)
  then have "tui_wf (run_machine tui_step (make_tui h p keyboard) events)" by (rule terminal.run_inv)
  then show ?thesis by (simp add: tui_wf_def parser_wf_def max_history_def max_history_cmds_def Let_def)
qed

text \<open>C32. The server monitor, which calls itself after every line typed, always returns (or raises) when a
  line \<open>b\<close> is typed, whatever the other lines are and whatever the server sends.\<close>

theorem monitor_returns:
  assumes "good (cin t)" "chars (cin t) = pre @ ''b'' @ LF # post" "pre = [] \<or> last pre = LF"
  shows "\<exists>r. handle_server_monitor net t = Some r"
  using assms by (rule monitor_returns_aux)

theorem monitor_returns_witness:
  "\<exists>r. handle_server_monitor (\<lambda>n. \<lparr>sent_bytes = 0, ready = False, received = None, socket_fd = 3, reachable = \<lambda>h p. False\<rparr>)
     (make_tui ''127.0.0.1'' 6379 (''x'' @ [LF] @ ''b'' @ [LF])) = Some r"
  by (rule monitor_returns [where pre = "''x'' @ [LF]" and post = "[]"]) (simp_all add: make_tui_def string_stream_def)

text \<open>At the end of its input the client never ends: once a read from the keyboard has met the end of
  input, the menu loop runs forever.\<close>

theorem menu_never_ends_without_input:
  assumes "tui_running t" "\<not> good (cin t)"
  shows "menu_loop net unset t = None"
  using menu_loop_end_of_input [of net unset t] assms by (cases "menu_loop net unset t") auto

theorem menu_never_ends_without_input_witness:
  "menu_loop net unset ((make_tui ''127.0.0.1'' 6379 [])\<lparr>cin := skip_char (string_stream [])\<rparr>) = None"
  by (rule menu_never_ends_without_input) (simp_all add: make_tui_def skip_char_def string_stream_def)

text \<open>The data browser stays empty whatever value the server replies with: the client reads one line of
  the reply to \<open>KEYS *\<close>, which never holds a key.\<close>

theorem browser_stays_empty:
  assumes "parser_wf (client t)" "unread (client t) = []"
    and "canonical v" "received (net (exchanges t)) = Some (take k (print_resp v))"
  shows "key_value_pairs (refresh_data net t) = []"
proof -
  obtain line rest where v: "print_resp v = line @ CRLF @ rest" "LF \<notin> set line" using print_resp_line [OF assms(3)] .
  let ?t = "t\<lparr>key_value_pairs := []\<rparr>"
  have "fst (ask net ''KEYS *'' ?t) \<in> {None, Some [], Some (line @ CRLF)}"
    using first_line_response [OF assms(1,2) v(2), of "ready (net (exchanges t))" k rest] assms(4)
    by (auto simp: ask_def Let_def case_prod_beta v(1))
  moreover obtain r t1 where "ask net ''KEYS *'' ?t = (r, t1)" "key_value_pairs t1 = key_value_pairs ?t"
    by (rule ask_obtain)
  ultimately show ?thesis
    using listed_keys_one_line [OF v(2)] by (auto simp: refresh_data_def split: option.split)
qed

theorem browser_stays_empty_witness:
  "key_value_pairs (refresh_data (sample_net [(21, print_resp (request [''a'', ''b'']))])
     ((make_tui ''127.0.0.1'' 6379 [])\<lparr>client := (make_client ''127.0.0.1'' 6379)\<lparr>connected := True\<rparr>\<rparr>)) = []"
  by (rule browser_stays_empty [where v = "request [''a'', ''b'']" and k = 100])
    (simp_all add: make_tui_def make_client_def parser_wf_def unread_def canonical_request sample_net_def request_def bulk_def
      bulk_reply_def to_string_def nat_digits.simps CRLF_def)

text \<open>The server monitor stays empty, too: whatever text INFO replies with, the client reads only the
  length line of the reply, so no entry is found.\<close>

theorem monitor_stays_empty:
  assumes "parser_wf (client t)" "unread (client t) = []"
    and "received (net (exchanges t)) = Some (take k (bulk_reply s))"
  shows "server_info (fetch_server_info net t) = []"
proof -
  let ?t = "t\<lparr>server_info := []\<rparr>" and ?line = "''$'' @ size_string (length s)"
  have LF: "LF \<notin> set ?line" by simp
  have colon: "CHR '':'' \<notin> set ?line"
    using to_string_chars [of "CHR '':''" "int (length s)"] by (auto simp: is_digit_def ord_def)
  have "fst (ask net ''INFO'' ?t) \<in> {None, Some [], Some (?line @ CRLF)}"
    using first_line_response [OF assms(1,2) LF, of "ready (net (exchanges t))" k "s @ CRLF"] assms(3)
    by (auto simp: ask_def Let_def case_prod_beta bulk_reply_def)
  moreover obtain r t1 where "ask net ''INFO'' ?t = (r, t1)" "server_info t1 = server_info ?t" by (rule ask_obtain)
  ultimately show ?thesis
    using info_entries_one_line [OF LF, of "[]"] colon by (auto simp: fetch_server_info_def split: option.split)
qed

theorem monitor_stays_empty_witness:
  "server_info (fetch_server_info (sample_net [(14, handle_info None)])
     ((make_tui ''127.0.0.1'' 6379 [])\<lparr>client := (make_client ''127.0.0.1'' 6379)\<lparr>connected := True\<rparr>\<rparr>)) = []"
proof -
  obtain s where "handle_info None = bulk_reply s" by (simp add: handle_info_def)
  then show ?thesis
    by (intro monitor_stays_empty [where s = s and k = "length (bulk_reply s)"])
      (simp_all add: make_tui_def make_client_def parser_wf_def unread_def sample_net_def)
qed

text \<open>C33. A stored value can end the client: in a session that connects, sends a command whose reply is a text
  \<open>used_memory:w\<close> with a \<open>w\<close> that is not a number, and opens the server monitor, the monitor takes the text
  that was left in the buffer for the server's information; the exception of \<open>stod\<close> leaves the menu loop and
  \<open>main\<close> returns 1, whatever else would have been typed.\<close>

theorem stored_value_ends_client:
  assumes typed: "keyboard = c1 # ''4'' @ LF # ''connect'' @ LF # c2 # ''1'' @ LF # cmd @ LF # c3 # ''3'' @ LF # rest"
      "LF \<notin> set cmd" "cmd \<noteq> ''back''" "split_words cmd \<noteq> []"
    and connect: "0 \<le> socket_fd (net 0)" "reachable (net 0) ''127.0.0.1'' 6379"
    and sent1: "sent_bytes (net 1) = int (length (encode_request (split_words cmd)))" "ready (net 1)"
    and reply: "received (net 1) = Some (bulk_reply (''used_memory:'' @ w))"
    and sent2: "sent_bytes (net 2) = int (length (encode_request [''INFO'']))" "ready (net 2)"
    and info: "received (net 2) = Some bytes" "bytes \<noteq> []"
    and w: "list_all (\<lambda>c. c \<noteq> LF \<and> ord c \<noteq> 0) w" "length (bulk_reply (''used_memory:'' @ w)) < 8192"
      "stod (w @ [CR]) = Inl e"
  shows "tui_main net unset [] keyboard = Some 1"
proof -
  let ?in1 = "''1'' @ LF # cmd @ LF # c3 # ''3'' @ LF # rest"
  define t0 where "t0 = (make_tui ''127.0.0.1'' 6379 [])\<lparr>cin := string_stream (''4'' @ LF # ''connect'' @ LF # c2 # ?in1)\<rparr>"
  define t1 where "t1 = handle_connection net (t0\<lparr>cin := string_stream (''connect'' @ LF # c2 # ?in1)\<rparr>)"
  define t2 where "t2 = handle_command_interface net (t1\<lparr>cin := string_stream (cmd @ LF # c3 # ''3'' @ LF # rest)\<rparr>)"
  have start: "run_tui net unset (make_tui ''127.0.0.1'' 6379 keyboard) = menu_loop net unset t0"
    by (simp add: run_tui_def t0_def typed(1) make_tui_def skip_char_def string_stream_def)
  have t1: "connected (client t1)" "msgs (client t1) = \<lparr>msg_buffer = [], msg_pos = 0\<rparr>" "exchanges t1 = 1" "tui_running t1"
    "cin t1 = string_stream ?in1"
    using connect up_to_LF [of "''connect''" "c2 # ?in1"]
    by (simp_all add: t1_def t0_def handle_connection_def get_line_def make_tui_def string_stream_def connect_client_def connect_to_server_def
        make_client_def c_str_def ord_def skip_char_def Let_def)
  have step1: "menu_loop net unset t0 = menu_loop net unset t1"
    using menu_choice(2) [of t0 "CHR ''4''"] by (simp add: t1_def t0_def make_tui_def string_stream_def)
  have step2: "menu_loop net unset t1 = menu_loop net unset t2"
    using menu_choice(1) [of t1 "CHR ''1''"] t1 by (simp add: t2_def string_stream_def)
  have t2: "client t2 = snd (get_response True (Some (bulk_reply (''used_memory:'' @ w))) (client t1))" "exchanges t2 = 2" "tui_running t2"
    "cin t2 = string_stream (''3'' @ LF # rest)"
    using command_interface_ready [where net = net and t = "t1\<lparr>cin := string_stream (cmd @ LF # c3 # ''3'' @ LF # rest)\<rparr>"
        and cmd = cmd and c = c3 and rest = "''3'' @ LF # rest"] t1 typed(2-4) sent1 reply
    by (simp_all add: t2_def string_stream_def)
  have "list_all (\<lambda>c. ord c \<noteq> 0) (''used_memory:'' @ w)" using w(1) by (auto simp: list_all_iff ord_def)
  then have left: "unread (client t2) = (''used_memory:'' @ w) @ CRLF" "connected (client t2)" "parser_wf (client t2)"
    using bulk_left_over [where cl = "client t1" and s = "''used_memory:'' @ w"] t1 w(2) unfolding t2(1)
    by (simp_all add: parser_wf_def unread_def)
  have "handle_server_monitor net (t2\<lparr>cin := string_stream rest\<rparr>) = Some (Inl e)"
    by (rule left_over_raises [where w = w and bytes = bytes]) (use left t2(2) sent2 info w in \<open>auto simp: list_all_iff\<close>)
  then have "menu_loop net unset t2 = Some (Inl e)"
    using menu_choice(3) [of t2 "CHR ''3''"] t2 by (simp add: string_stream_def)
  then have "run_tui net unset (make_tui ''127.0.0.1'' 6379 keyboard) = Some (Inl e)" using start step1 step2 by simp
  then show ?thesis by (simp add: tui_main_def)
qed

theorem stored_value_ends_client_witness:
  "tui_main (sample_net [(0, []), (20, bulk_reply ''used_memory:abc''), (14, handle_info None)]) (CHR ''x'') []
     ([LF] @ ''4'' @ LF # ''connect'' @ LF # LF # ''1'' @ LF # ''GET k'' @ LF # LF # ''3'' @ LF # []) = Some 1"
proof (rule stored_value_ends_client [where cmd = "''GET k''" and rest = "[]" and w = "''abc''" and bytes = "handle_info None"
    and e = Invalid_argument])
  show "stod (''abc'' @ [CR]) = Inl Invalid_argument"
    by (simp add: stod_def scan_sign_def is_space_def ord_def stod_magnitude_def starts_ci_def to_lower_def scan_mantissa_def is_digit_def)
qed (simp_all add: sample_net_def handle_info_def bulk_reply_def
    split_words.simps [of "''GET k''"] split_words.simps [of "'' k''"] split_words.simps [of "[]"] is_space_def ord_def
    encode_request_def to_string_def nat_digits.simps CRLF_def)

text \<open>The pages of the data browser show every pair exactly once, numbered and in order; \<open>n\<close> and \<open>p\<close>
  move by one page and never leave the pages that exist.\<close>

theorem pages_show_all:
  "concat (map (\<lambda>p. page_rows (t\<lparr>current_page := p\<rparr>)) [0..<page_count t]) =
     map (page_row t) [0..<length (key_value_pairs t)] \<and>
   (current_page t < page_count t \<longrightarrow> current_page (turn_page c t) < page_count t) \<and>
   (current_page t + 1 < page_count t \<longrightarrow> current_page (turn_page (CHR ''n'') t) = current_page t + 1) \<and>
   current_page (turn_page (CHR ''p'') t) = current_page t - 1"
proof -
  let ?n = "length (key_value_pairs t)"
  have le: "?n \<le> page_count t * page_size" using page_count_iff [of "page_count t" t] by simp
  have "concat (map (\<lambda>p. page_rows (t\<lparr>current_page := p\<rparr>)) [0..<page_count t]) = map (page_row t) [0..<?n]"
    unfolding page_rows_concat using le by (simp add: min_absorb2)
  moreover have "current_page (turn_page c t) < page_count t" if "current_page t < page_count t"
    using that page_count_iff [of "current_page t + 1" t] by (auto simp: turn_page_def)
  moreover have "current_page (turn_page (CHR ''n'') t) = current_page t + 1" if "current_page t + 1 < page_count t"
    using that page_count_iff [of "current_page t + 1" t] by (simp add: turn_page_def)
  moreover have "current_page (turn_page (CHR ''p'') t) = current_page t - 1" by (simp add: turn_page_def)
  ultimately show ?thesis by blast
qed

theorem pages_show_all_witness:
  "current_page (turn_page (CHR ''n'') ((make_tui ''127.0.0.1'' 6379 [])\<lparr>key_value_pairs := replicate 21 (''k'', ''v'')\<rparr>)) = 1"
  using pages_show_all [of "(make_tui ''127.0.0.1'' 6379 [])\<lparr>key_value_pairs := replicate 21 (''k'', ''v'')\<rparr>" "CHR ''n''"]
  by (simp add: page_count_def page_size_def make_tui_def)

end
