(* ===== verification/Data_Properties.thy ===== *)
theory Data_Properties
  imports Command_Laws
begin

text \<open>
  What the data commands mean to a user of the keyspace: strings are read back, lists are
  sequences, sets are sets, hashes are maps, sorted sets are maps from members to scores with a
  ranking that is kept in step, and expiry times count down; with the places where the code
  departs from that.
\<close>

section \<open>Sorted sets under all commands\<close>

text \<open>No score of the argument list of ZADD is a NaN.\<close>

definition no_nan_args :: "cmd_args \<Rightarrow> bool" where
  "no_nan_args args \<longleftrightarrow>
     (case zadd_pairs (drop 2 args) of Inl _ \<Rightarrow> True | Inr ms \<Rightarrow> list_all (\<lambda>p. \<not> is_nan (fst p)) ms)"

lemma zsets_ok_count_mod: "zsets_ok db \<Longrightarrow> zsets_ok (count_mod b key db)"
  by (simp add: count_mod_def zsets_ok_ops)

lemma hset_loop_zsets: "zsets_ok db \<Longrightarrow> zsets_ok (snd (hset_loop key rest n db))"
  by (induction rest arbitrary: n db rule: induct_list012)
    (auto simp: hset_loop_step zsets_ok_ops simp del: hset_loop.simps(1))

lemmas zsets_simps = zsets_ok_ops zsets_ok_zrem zsets_ok_count_mod hset_loop_zsets case_prod_beta Let_def

lemma handlers_keep_zsets:
  assumes "zsets_ok db"
  shows "zsets_ok (snd (handle_set clk args db))" "zsets_ok (snd (handle_get clk args db))"
    "zsets_ok (snd (handle_del clk args db))" "zsets_ok (snd (handle_exists clk args db))"
    "zsets_ok (snd (handle_keys clk args db))" "zsets_ok (snd (handle_type clk args db))"
    "zsets_ok (snd (handle_lpush clk args db))" "zsets_ok (snd (handle_rpush clk args db))"
    "zsets_ok (snd (handle_lpop clk args db))" "zsets_ok (snd (handle_rpop clk args db))"
    "zsets_ok (snd (handle_llen clk args db))" "zsets_ok (snd (handle_lrange clk args db))"
    "zsets_ok (snd (handle_lindex clk args db))" "zsets_ok (snd (handle_sadd clk args db))"
    "zsets_ok (snd (handle_srem clk args db))" "zsets_ok (snd (handle_sismember clk args db))"
    "zsets_ok (snd (handle_scard clk args db))" "zsets_ok (snd (handle_smembers clk args db))"
    "zsets_ok (snd (handle_sinter clk args db))" "zsets_ok (snd (handle_sunion clk args db))"
    "zsets_ok (snd (handle_sdiff clk args db))" "zsets_ok (snd (handle_hset clk args db))"
    "zsets_ok (snd (handle_hget clk args db))" "zsets_ok (snd (handle_hdel clk args db))"
    "zsets_ok (snd (handle_hlen clk args db))" "zsets_ok (snd (handle_hkeys clk args db))"
    "zsets_ok (snd (handle_hvals clk args db))" "zsets_ok (snd (handle_hgetall clk args db))"
    "zsets_ok (snd (handle_zrem clk args db))" "zsets_ok (snd (handle_zcard clk args db))"
    "zsets_ok (snd (handle_zrange clk args db))" "zsets_ok (snd (handle_zrevrange clk args db))"
    "zsets_ok (snd (handle_zscore clk args db))" "zsets_ok (snd (handle_zrank clk args db))"
    "zsets_ok (snd (handle_expire clk args db))" "zsets_ok (snd (handle_pexpire clk args db))"
    "zsets_ok (snd (handle_ttl clk args db))" "zsets_ok (snd (handle_pttl clk args db))"
    "zsets_ok (snd (handle_persist clk args db))"
  using assms
  unfolding handle_set_def handle_get_def handle_del_def handle_exists_def handle_keys_def handle_type_def
    handle_lpush_def handle_rpush_def handle_lpop_def handle_rpop_def handle_llen_def handle_lrange_def
    handle_lindex_def handle_sadd_def handle_srem_def handle_sismember_def handle_scard_def handle_smembers_def
    handle_sinter_def handle_sunion_def handle_sdiff_def handle_hset_def handle_hget_def handle_hdel_def
    handle_hlen_def handle_hkeys_def handle_hvals_def handle_hgetall_def handle_zrem_def handle_zcard_def
    handle_zrange_def handle_zrevrange_def handle_zscore_def handle_zrank_def handle_expire_def handle_pexpire_def
    handle_ttl_def handle_pttl_def handle_persist_def pop_reply_def
  by (simp_all add: zsets_simps split: option.split sum.split)

lemma zadd_keeps_zsets: "zsets_ok db \<Longrightarrow> no_nan_args args \<Longrightarrow> zsets_ok (snd (handle_zadd clk args db))"
  unfolding handle_zadd_def no_nan_args_def
  by (auto simp: zsets_ok_zadd zsets_ok_count_mod case_prod_beta Let_def list_all_iff split: sum.split)

lemma table_keeps_zsets:
  assumes "(name, h) \<in> set (queued_commands @ expiry_commands)" "zsets_ok db"
    and "name = ''ZADD'' \<longrightarrow> no_nan_args args"
  shows "zsets_ok (snd (h clk args db))"
proof -
  have "list_all (\<lambda>(name, h). (name = ''ZADD'' \<longrightarrow> no_nan_args args) \<longrightarrow> zsets_ok (snd (h clk args db)))
      (queued_commands @ expiry_commands)"
    using assms(2) by (simp add: queued_commands_def expiry_commands_def handlers_keep_zsets zadd_keeps_zsets)
  then show ?thesis using assms(1,3) by (auto simp: list_all_iff)
qed


section \<open>Properties\<close>

text \<open>Strings are read back: after SET of a key whose entry has not expired, GET replies with the
  bytes that were set and changes nothing, at whatever times the two commands look at the clock
  before the expiry.\<close>

theorem set_then_get:
  assumes "\<forall>i v. entry k db = Some v \<longrightarrow> \<not> is_expired (clk' i) v"
  shows "let db' = snd (handle_set clk [bulk ''SET'', bulk k, bulk s] db) in
    fst (handle_set clk [bulk ''SET'', bulk k, bulk s] db) = ok_reply \<and>
    handle_get clk' [bulk ''GET'', bulk k] db' = (bulk_reply s, db')"
proof -
  define d where "d = snd (handle_set clk [bulk ''SET'', bulk k, bulk s] db)"
  have e: "entry k d = Some ((at_key (entry k db))\<lparr>value_type := String, str_val := s,
      mod_count := mod_count (at_key (entry k db)) + 1\<rparr>)"
    by (simp add: d_def handle_set_def bulk_def db_set_def db_increment_mod_count_def at_key_def Let_def split: option.split)
  have "live (clk' i) k d" for i
    using assms by (auto simp: live_def e is_expired_def at_key_def split: option.splits)
  then have "handle_get clk' [bulk ''GET'', bulk k] d = (bulk_reply s, d)"
    by (simp add: handle_get_def bulk_def db_exists_live db_exists_unchanged db_type_live db_get_live e Let_def
        case_prod_beta)
  then show ?thesis unfolding d_def Let_def by (simp add: handle_set_def bulk_def Let_def)
qed

theorem set_then_get_witness:
  "let db' = snd (handle_set (\<lambda>_. 5) [bulk ''SET'', bulk ''name'', bulk ''w''] sample_db) in
    handle_get (\<lambda>_. 6) [bulk ''GET'', bulk ''name''] db' = (bulk_reply ''w'', db')"
  using set_then_get [where k = "''name''" and db = sample_db and clk' = "\<lambda>_. 6" and clk = "\<lambda>_. 5" and s = "''w''"]
  by (simp add: sample_db_data is_expired_def Let_def)

text \<open>C40. A write to an expired key is lost: SET replies OK but keeps the old expiry time, so the next
  GET answers that there is no such key and erases what was just written.\<close>

theorem set_on_expired_key_is_lost:
  assumes "entry k db = Some v" "is_expired (clk' 0) v"
  shows "let db' = snd (handle_set clk [bulk ''SET'', bulk k, bulk s] db) in
    fst (handle_set clk [bulk ''SET'', bulk k, bulk s] db) = ok_reply \<and>
    fst (handle_get clk' [bulk ''GET'', bulk k] db') = nil_reply \<and>
    entry k (snd (handle_get clk' [bulk ''GET'', bulk k] db')) = None"
proof -
  have e: "entry k (snd (handle_set clk [bulk ''SET'', bulk k, bulk s] db)) =
      Some (v\<lparr>value_type := String, str_val := s, mod_count := mod_count v + 1\<rparr>)"
    using assms(1)
    by (simp add: handle_set_def bulk_def db_set_def db_increment_mod_count_def at_key_def Let_def)
  have "\<not> live (clk' 0) k (snd (handle_set clk [bulk ''SET'', bulk k, bulk s] db))"
    using assms(2) by (simp add: live_def e is_expired_def split: if_splits)
  then show ?thesis
    by (simp add: handle_get_def bulk_def db_exists_live db_exists_entry Let_def case_prod_beta)
      (simp add: handle_set_def Let_def)
qed

theorem set_on_expired_key_is_lost_witness:
  "let db' = snd (handle_set (\<lambda>_. 200) [bulk ''SET'', bulk ''name'', bulk ''w''] sample_db) in
    fst (handle_get (\<lambda>_. 201) [bulk ''GET'', bulk ''name''] db') = nil_reply"
  using set_on_expired_key_is_lost [where k = "''name''" and db = sample_db and clk' = "\<lambda>_. 201" and clk = "\<lambda>_. 200" and s = "''w''"]
  by (simp add: sample_db_data is_expired_def Let_def)

text \<open>C16. Lists are sequences, as seen through their length and their elements by index: on a key that is free or
  holds a list that has not expired, RPUSH appends its arguments behind the old elements, LPUSH puts them in
  front with the last one first, both return the new length; LPOP and RPOP return the first and the last
  element and leave the others in place; negative indices count from the end; and LRANGE with any two
  bounds lists the elements at the indices between them, the bounds clipped to the list.\<close>

theorem lists_refine_sequences:
  assumes "list_key k db" "\<forall>v. entry k db = Some v \<longrightarrow> \<not> is_expired now v" "fst (db_llen now k db) < 2 ^ 31"
  shows "let at = (\<lambda>i db. db_lindex k (int i) db); len = (\<lambda>db. fst (db_llen now k db)); n = len db; m = length vs;
             r = snd (db_rpush k vs db); l = snd (db_lpush k vs db); p = snd (db_lpop k db); q = snd (db_rpop k db)
    in fst (db_rpush k vs db) = n + m \<and> len r = n + m \<and>
       (\<forall>i. at i r = (if i < n then at i db else if i < n + m then vs ! (i - n) else [])) \<and>
       fst (db_lpush k vs db) = n + m \<and> len l = n + m \<and>
       (\<forall>i. at i l = (if i < m then vs ! (m - 1 - i) else at (i - m) db)) \<and>
       fst (db_lpop k db) = at 0 db \<and> len p = n - 1 \<and> (\<forall>i. at i p = at (i + 1) db) \<and>
       fst (db_rpop k db) = db_lindex k (- 1) db \<and> len q = n - 1 \<and>
       (\<forall>i. at i q = (if i < n - 1 then at i db else [])) \<and>
       (\<forall>i. 0 < i \<and> i \<le> 2 ^ 31 \<longrightarrow> db_lindex k (- int i) db = (if i \<le> n then at (n - i) db else [])) \<and>
       (\<forall>a b. - (2 ^ 31) \<le> a \<and> a < 2 ^ 31 \<and> - (2 ^ 31) \<le> b \<and> b < 2 ^ 31 \<longrightarrow>
          db_lrange k a b db = map (\<lambda>i. at i db) (clipped n a b))"
proof -
  let ?xs = "list_of_entry (entry k db)"
  note live = push_pop_live [OF assms(2)]
  have n: "fst (db_llen now k db) = length ?xs" and small: "length ?xs < 2 ^ 31"
    using db_llen_list [OF assms(2)] assms(3) by simp_all
  have "fst (db_lpop k db) = (if ?xs = [] then [] else hd ?xs)" "fst (db_rpop k db) = (if ?xs = [] then [] else last ?xs)"
    using db_lpop_list(2) [where k = k and db = db] db_rpop_list(2) [where k = k and db = db]
    by (auto simp: db_lpop_def db_rpop_def list_of_entry_def has_type_def split: option.splits list.splits)
  moreover have "db_lindex k (- 1) db = (if ?xs = [] then [] else last ?xs)"
    using db_lindex_negative [OF small, of 1] unfolding db_lindex_list
    by (simp add: last_conv_nth Suc_le_eq)
  ultimately show ?thesis
    using db_lrange_indices [OF small] db_lindex_negative [OF small] assms(1)
    unfolding Let_def n db_llen_list [OF live(1)] db_llen_list [OF live(2)] db_llen_list [OF live(3)] db_llen_list [OF live(4)]
      db_lindex_list
    by (simp add: list_key_simps db_push_result db_lpop_list(1) db_rpop_list(1) nth_append rev_nth nth_tl nth_butlast hd_conv_nth less_diff_conv less_diff_conv2)
qed

theorem lists_refine_sequences_witness:
  "fst (db_rpush ''l'' [''c''] sample_db) = 3 \<and> fst (db_rpop ''l'' sample_db) = ''b'' \<and>
   db_lrange ''l'' (- 1) 5 sample_db = [''b'']"
proof -
  have l: "list_key ''l'' sample_db" "\<forall>v. entry ''l'' sample_db = Some v \<longrightarrow> \<not> is_expired 0 v" "fst (db_llen 0 ''l'' sample_db) = 2"
    by (simp_all add: sample_db_data list_key_def has_type_def is_expired_def db_llen_def)
  have at: "db_lindex ''l'' 1 sample_db = ''b''" "db_lindex ''l'' (- 1) sample_db = ''b''"
    by (simp_all add: sample_db_data db_lindex_def)
  have "fst (db_rpush ''l'' [''c''] sample_db) = fst (db_llen 0 ''l'' sample_db) + 1 \<and>
      fst (db_rpop ''l'' sample_db) = db_lindex ''l'' (- 1) sample_db \<and>
      db_lrange ''l'' (- 1) 5 sample_db = map (\<lambda>i. db_lindex ''l'' (int i) sample_db) (clipped 2 (- 1) 5)"
    using lists_refine_sequences [OF l(1,2), of "[''c'']"] l(3) by (simp add: Let_def)
  moreover have "clipped 2 (- 1) 5 = [1]" by (simp add: clipped_def upt_conv_Cons)
  ultimately show ?thesis using l(3) at by simp
qed

text \<open>A list is a queue: elements pushed one by one with RPUSH onto a free key or an empty list come
  out of as many LPOPs in the same order.\<close>

theorem rpush_lpop_queue:
  assumes "list_key k db" "list_of_entry (entry k db) = []"
  shows "fst (sequence.pops (db_lpop k) (length xs) (fold (\<lambda>x db. snd (db_rpush k [x] db)) xs db)) = xs"
  using assms by (rule rq.push_pops)

theorem rpush_lpop_queue_witness:
  "fst (sequence.pops (db_lpop ''q'') (length [''a'', ''b'']) (fold (\<lambda>x db. snd (db_rpush ''q'' [x] db)) [''a'', ''b''] sample_db)) = [''a'', ''b'']"
  using rpush_lpop_queue [where k = "''q''" and db = sample_db and xs = "[''a'', ''b'']"]
  by (simp add: sample_db_data list_key_def list_of_entry_def has_type_def)

text \<open>C17. Sets are sets: on a key that is free or holds a set, SADD adds and SREM removes exactly their
  members and return how many were new or present; SCARD, SMEMBERS and SISMEMBER agree with the
  set; SINTER, SUNION and SDIFF return intersection, union and difference without repetitions.\<close>

theorem sets_refine_sets:
  assumes "db_wf db" "entry k db = None \<or> has_type Set (entry k db)"
  shows "members k (snd (db_sadd k ms db)) = members k db \<union> set ms \<and>
    fst (db_sadd k ms db) = card (set ms - members k db) \<and>
    members k (snd (db_srem k ms db)) = members k db - set ms \<and>
    fst (db_srem k ms db) = card (members k db \<inter> set ms) \<and>
    db_scard k db = card (members k db) \<and> set (db_smembers k db) = members k db \<and>
    (db_sismember k x db \<longleftrightarrow> x \<in> members k db) \<and>
    set (db_sinter (k # ks) db) = members k db \<inter> (\<Inter>l\<in>set ks. members l db) \<and>
    set (db_sunion (k # ks) db) = members k db \<union> (\<Union>l\<in>set ks. members l db) \<and>
    set (db_sdiff (k # ks) db) = members k db - (\<Union>l\<in>set ks. members l db) \<and>
    distinct (db_sinter (k # ks) db) \<and> distinct (db_sunion (k # ks) db) \<and> distinct (db_sdiff (k # ks) db)"
proof -
  have "stored_members k db = members k db"
    using assms(2) by (auto simp: stored_members_def members_def set_of_entry_def has_type_def at_key_def split: option.splits)
  then show ?thesis
    using assms(1)
    by (simp add: db_sadd_members db_sadd_count db_srem_members db_srem_count db_scard_members db_smembers_members
        db_sismember_members db_sinter_members db_sunion_members db_sdiff_members db_set_results_distinct)
qed

theorem sets_refine_sets_witness:
  "members ''s'' (snd (db_sadd ''s'' [''a'', ''b''] sample_db)) = {''a'', ''b''} \<and>
   fst (db_sadd ''s'' [''a'', ''b''] sample_db) = 2"
proof -
  have "entry ''s'' sample_db = None" "members ''s'' sample_db = {}"
    by (simp_all add: sample_db_data members_def set_of_entry_def has_type_def)
  then show ?thesis using sets_refine_sets [OF sample_db_ok(1), where k = "''s''" and ms = "[''a'', ''b'']"] by simp
qed

text \<open>C18. Hashes are maps: on a key that is free or holds a hash, HSET updates exactly its field and
  HDEL removes exactly its fields and tells whether one was there; HLEN, HKEYS, HVALS and HGETALL
  are size, domain, range and graph of the map, and HGET is its lookup (empty for no field).\<close>

theorem hashes_refine_maps:
  assumes "db_wf db" "entry k db = None \<or> has_type Hash (entry k db)"
  shows "hash_fields k (snd (db_hset k fld s db)) = (hash_fields k db)(fld \<mapsto> s) \<and>
    hash_fields k (snd (db_hdel k flds db)) = (hash_fields k db) |` (- set flds) \<and>
    (fst (db_hdel k flds db) \<longleftrightarrow> set flds \<inter> dom (hash_fields k db) \<noteq> {}) \<and>
    db_hget k fld db = (case hash_fields k db fld of Some x \<Rightarrow> x | None \<Rightarrow> []) \<and>
    db_hlen k db = card (dom (hash_fields k db)) \<and> set (db_hkeys k db) = dom (hash_fields k db) \<and>
    set (db_hvals k db) = ran (hash_fields k db) \<and> map_of (db_hgetall k db) = hash_fields k db"
proof -
  have "stored_fields k db = hash_fields k db"
    using assms(2) by (auto simp: stored_fields_def hash_fields_def hash_of_entry_def has_type_def at_key_def split: option.splits)
  then show ?thesis
    using assms(1)
    by (auto simp: db_hset_fields db_hdel_fields db_hdel_result db_hget_fields db_hash_views restrict_map_def fun_eq_iff)
qed

theorem hashes_refine_maps_witness:
  "hash_fields ''h'' (snd (db_hset ''h'' ''g'' ''y'' sample_db)) = [''f'' \<mapsto> ''x'', ''g'' \<mapsto> ''y'']"
  using hashes_refine_maps [OF sample_db_ok(1), where k = "''h''" and fld = "''g''" and s = "''y''"]
  by (simp add: sample_db_data hash_fields_def hash_of_entry_def has_type_def)

text \<open>C4. The two containers of a sorted set stay in step: every data command, given no NaN as a score,
  keeps in all entries the ranking sorted by score, free of NaN and repeated members, and equal
  as a relation to the map from members to scores.\<close>

theorem commands_keep_sorted_sets:
  assumes "(name, h) \<in> set (queued_commands @ expiry_commands)" "zsets_ok db"
    and "name = ''ZADD'' \<longrightarrow> no_nan_args args"
  shows "zsets_ok (snd (h clk args db))"
  using assms by (rule table_keeps_zsets)

theorem commands_keep_sorted_sets_witness:
  "zsets_ok (snd (handle_zrem (\<lambda>_. 5) [bulk ''ZREM'', bulk ''z'', bulk ''m''] sample_db))"
  using commands_keep_sorted_sets [OF _ sample_db_ok(2), of "''ZREM''" handle_zrem] by (simp add: queued_commands_def)

text \<open>C10. Sorted sets are maps from members to scores: on a key that is free or holds a sorted set, ZADD
  sets exactly the given scores (the last one for a repeated member), ZREM removes exactly its
  members and tells whether one was there, ZCARD and ZSCORE are size and lookup, and ZRANGE 0 -1
  lists every member once in ascending order of the scores, ZREVRANGE in the opposite order.\<close>

theorem sorted_sets_refine_maps:
  assumes "db_wf db" "zsets_ok db" "entry k db = None \<or> has_type ZSet (entry k db)" "length (ranking k db) < 2 ^ 31"
  shows "scores k (snd (db_zadd k ms db)) = scores k db ++ map_of (rev (map prod.swap ms)) \<and>
    scores k (snd (db_zrem k xs db)) = (scores k db) |` (- set xs) \<and>
    (fst (db_zrem k xs db) \<longleftrightarrow> set xs \<inter> dom (scores k db) \<noteq> {}) \<and>
    db_zcard k db = card (dom (scores k db)) \<and>
    db_zscore k m db = (case scores k db m of Some s \<Rightarrow> s | None \<Rightarrow> dzero) \<and>
    (let ys = db_zrange k 0 (- 1) db in
       set ys = dom (scores k db) \<and> distinct ys \<and> sorted (map (\<lambda>y. dbl_key (the (scores k db y))) ys) \<and>
       db_zrevrange k 0 (- 1) db = rev ys)"
proof -
  have st: "stored_scores k db = scores k db"
    using assms(3) by (auto simp: stored_scores_def scores_def scores_of_entry_def has_type_def at_key_def split: option.splits)
  note r = ranking_facts [OF assms(2), where k = k]
  have eq: "map (\<lambda>y. dbl_key (the (scores k db y))) (map snd (ranking k db)) = map (\<lambda>p. dbl_key (fst p)) (ranking k db)"
    using r(3) by auto
  have "sorted (map (\<lambda>y. dbl_key (the (scores k db y))) (map snd (ranking k db)))"
    unfolding eq using r(1) by (simp add: ordered_def)
  moreover have "snd ` set (ranking k db) = dom (scores k db)" using r(3) by force
  ultimately show ?thesis
    using assms(1,2) r(2) db_zrange_all [OF assms(4)]
    by (auto simp: st db_zadd_scores db_zrem_scores db_zcard_scores db_zscore_scores restrict_map_def fun_eq_iff Let_def
        simp del: map_map)
qed

theorem sorted_sets_refine_maps_witness:
  "scores ''z'' (snd (db_zrem ''z'' [''m''] sample_db)) = [''n'' \<mapsto> 0x3FF0000000000000] \<and>
   db_zrevrange ''z'' 0 (- 1) sample_db = rev (db_zrange ''z'' 0 (- 1) sample_db)"
  using sorted_sets_refine_maps [OF sample_db_ok(1,2), where k = "''z''" and xs = "[''m'']"]
  by (simp add: sample_db_data ranking_of_entry_def has_type_def scores_def scores_of_entry_def restrict_map_def
      fun_eq_iff Let_def)


text \<open>C26. Ranks: when members of equal score stand in lexicographic order, ZRANK of a member is its
  position in ZRANGE 0 -1.\<close>

theorem zrank_is_position:
  assumes "zsets_ok db" "ties_ordered (ranking k db)" "scores k db m = Some s" "length (ranking k db) < 2 ^ 31"
  shows "\<exists>i < length (db_zrange k 0 (- 1) db). db_zrank k m db = int i \<and> db_zrange k 0 (- 1) db ! i = m"
proof -
  obtain i where "i < length (ranking k db)" "ranking k db ! i = (s, m)" "db_zrank k m db = int i"
    using db_zrank_index [OF assms(1-3)] .
  then show ?thesis by (intro exI [of _ i]) (simp add: db_zrange_all(1) [OF assms(4)])
qed

theorem zrank_is_position_witness:
  "\<exists>i < length (db_zrange ''z'' 0 (- 1) sample_db). db_zrank ''z'' ''n'' sample_db = int i \<and>
     db_zrange ''z'' 0 (- 1) sample_db ! i = ''n''"
  by (rule zrank_is_position [OF sample_db_ok(2), where s = "0x3FF0000000000000"])
    (simp_all add: sample_db_data ranking_of_entry_def has_type_def scores_def scores_of_entry_def ties_ordered_def
      score_simps)

text \<open>Without that order, which ZADD does not establish, two members can have the same rank.\<close>

theorem zrank_repeats_on_ties:
  "let db = snd (db_zadd ''z'' [(0, ''b''), (0, ''a'')] empty_db) in
     db_zrange ''z'' 0 (- 1) db = [''b'', ''a''] \<and> db_zrank ''z'' ''a'' db = 0 \<and> db_zrank ''z'' ''b'' db = 0"
  by (simp add: Let_def db_zadd_def empty_db_def db_zrange_def db_zrank_def ranking_of_entry_def scores_of_entry_def
      has_type_def at_key_def new_value_def zadd_one_def score_simps range_bounds_def slice_def ord_def)

text \<open>C19. Expiry: PEXPIRE on a live key with a positive time that does not overflow replies 1; EXISTS then finds
  the key exactly before the time that was set and erases it afterwards, PTTL replies with the time that is
  left, and PERSIST makes the key permanent again.  KEYS, LRANGE, SMEMBERS and HGET do not look at the time
  and answer as before until some other command erases the key.\<close>

theorem pexpire_counts_down:
  assumes "entry k db = Some v" "\<not> is_expired now v" "0 \<le> now'" "0 < ms" "now' + ms < 2 ^ 63"
  shows "let db' = snd (db_pexpire now now' k ms db) in
    fst (db_pexpire now now' k ms db) \<and>
    (fst (db_exists t k db') \<longleftrightarrow> t < now' + ms) \<and>
    entry k (snd (db_exists t k db')) = (if t < now' + ms then entry k db' else None) \<and>
    (0 \<le> t \<and> t \<le> u \<and> u < now' + ms \<longrightarrow> fst (db_pttl t u k db') = now' + ms - u) \<and>
    (t < now' + ms \<longrightarrow> fst (db_persist t k db') \<and> fst (db_exists t' k (snd (db_persist t k db')))) \<and>
    k \<in> set (db_keys db') \<and> db_lrange k a b db' = db_lrange k a b db \<and> db_smembers k db' = db_smembers k db \<and>
    db_hget k f db' = db_hget k f db"
proof -
  let ?db = "snd (db_pexpire now now' k ms db)"
  note e = db_pexpire_then [OF assms]
  have db: "entry k ?db = Some (v\<lparr>expiry_time := now' + ms\<rparr>)"
    using assms by (simp add: db_pexpire_def set_expiry_milliseconds_def)
  then have "fst (db_persist t k ?db)" if "t < now' + ms"
    using that assms(3,4) by (simp add: db_persist_def is_expired_def)
  moreover have "k \<in> set (db_keys ?db)"
    using db by (force simp: db_keys_def dest: map_of_SomeD)
  moreover have "db_lrange k a b ?db = db_lrange k a b db" "db_smembers k ?db = db_smembers k db" "db_hget k f ?db = db_hget k f db"
    using assms(1) db by (simp_all add: db_lrange_def db_smembers_def set_of_entry_def db_hget_def hash_of_entry_def has_type_def case_prod_beta Let_def)
  ultimately show ?thesis
    using e db_persist_then(1) [of t k ?db] by (simp add: Let_def db_exists_live db_exists_entry)
qed

theorem pexpire_counts_down_witness:
  "fst (db_pttl 20 20 ''l'' (snd (db_pexpire 10 10 ''l'' 50 sample_db))) = 40"
  using pexpire_counts_down [where k = "''l''" and db = sample_db and now = 10 and now' = 10 and ms = 50 and t = 20 and u = 20]
  by (simp add: sample_db_data is_expired_def Let_def)

text \<open>An expired list is still read: EXISTS says that there is no such key, but LRANGE lists its elements and
  KEYS its name.\<close>

theorem expired_still_readable:
  assumes "entry k db = Some v" "value_type v = List" "is_expired (clk 0) v" "length (list_val v) < 2 ^ 31"
  shows "fst (handle_exists clk [bulk ''EXISTS'', bulk k] db) = int_reply 0 \<and>
    handle_lrange clk (map bulk [''LRANGE'', k, ''0'', ''-1'']) db = (array_reply (list_val v), db) \<and>
    (\<exists>ks. fst (handle_keys clk [bulk ''KEYS''] db) = array_reply ks \<and> k \<in> set ks)"
proof -
  have "db_lrange k 0 (- 1) db = list_val v"
    using db_lrange_all [where k = k and db = db] assms(1,2,4) by (simp add: list_of_entry_def has_type_def)
  moreover have "stoi ''0'' = Inr 0" "stoi ''-1'' = Inr (- 1)"
    by (simp_all add: stoi_def signed_in_def scan_number_def scan_sign_def digits_val_def digit_val_def is_digit_def is_space_def ord_def)
  moreover have "k \<in> set (db_keys db)"
    using assms(1) by (force simp: db_keys_def dest: map_of_SomeD)
  ultimately show ?thesis
    using assms(1-3)
    by (auto simp: handle_exists_def handle_lrange_def handle_keys_def bool_reply_def db_exists_live live_def two_ints_def bulk_def case_prod_beta Let_def)
qed

theorem expired_still_readable_witness:
  "fst (handle_lrange (\<lambda>_. 99) (map bulk [''LRANGE'', ''l'', ''0'', ''-1'']) (snd (db_pexpire 10 10 ''l'' 50 sample_db))) =
     array_reply [''a'', ''b'']"
proof -
  have "entry ''l'' (snd (db_pexpire 10 10 ''l'' 50 sample_db)) = Some ((new_value List)\<lparr>list_val := [''a'', ''b''], expiry_time := 60\<rparr>)"
    by (simp add: sample_db_data db_pexpire_def is_expired_def set_expiry_milliseconds_def)
  then show ?thesis
    using expired_still_readable [where k = "''l''" and db = "snd (db_pexpire 10 10 ''l'' 50 sample_db)" and clk = "\<lambda>_. 99"] by (simp add: is_expired_def)
qed

end
