(* ===== verification/Data_Store.thy ===== *)
theory Data_Store
  imports Sorted_Set
begin

text \<open>
  The alternative store of \<open>data_store.h\<close> and \<open>data_store.cpp\<close>: class \<open>DataStore\<close> with the expiry
  time and the version of every key kept beside the value, the readers of the typed handlers, the
  handlers that write through the one constructor \<open>RedisValue\<close> has, and the watch manager.  Times are
  nanosecond ticks of the steady clock, \<open>0\<close> is the default time point.  The counter of
  \<open>generate_mod_count\<close> is a static variable; it is part of the state.  The handlers
  that call constructors which \<open>RedisValue\<close> does not declare are in theory \<open>Store_Handlers\<close>.
\<close>

section \<open>The store\<close>

record key_value_pair =
  kv_value :: redis_value
  kv_mod_count :: "64 word"
  kv_expiry :: int

record data_store =
  store_data :: "(string, key_value_pair) umap"
  store_counter :: "64 word"

definition make_pair :: key_value_pair where
  "make_pair = \<lparr>kv_value = new_value String, kv_mod_count = 0, kv_expiry = 0\<rparr>"

definition make_store :: data_store where
  "make_store = \<lparr>store_data = [], store_counter = 1\<rparr>"

abbreviation lookup :: "string \<Rightarrow> data_store \<Rightarrow> key_value_pair option" where
  "lookup key st \<equiv> map_of (store_data st) key"

definition pair_expired :: "int \<Rightarrow> key_value_pair \<Rightarrow> bool" where
  "pair_expired now kv \<longleftrightarrow> kv_expiry kv \<noteq> 0 \<and> kv_expiry kv < now"

definition generate_mod_count :: "data_store \<Rightarrow> 64 word \<times> data_store" where
  "generate_mod_count st = (store_counter st, st\<lparr>store_counter := store_counter st + 1\<rparr>)"

text \<open>Writing a pair with a fresh version, as every mutator does.\<close>

definition write_pair :: "string \<Rightarrow> key_value_pair \<Rightarrow> data_store \<Rightarrow> data_store" where
  "write_pair key kv st =
     (let (n, st') = generate_mod_count st
      in st'\<lparr>store_data := AList.update key (kv\<lparr>kv_mod_count := n\<rparr>) (store_data st')\<rparr>)"

definition store_set :: "string \<Rightarrow> redis_value \<Rightarrow> data_store \<Rightarrow> bool \<times> data_store" where
  "store_set key val st =
     (let kv = (case lookup key st of Some kv \<Rightarrow> kv | None \<Rightarrow> make_pair)
      in (True, write_pair key (kv\<lparr>kv_value := val\<rparr>) st))"

definition store_get :: "int \<Rightarrow> string \<Rightarrow> data_store \<Rightarrow> redis_value option" where
  "store_get now key st =
     (case lookup key st of
        None \<Rightarrow> None
      | Some kv \<Rightarrow> if pair_expired now kv then None else Some (kv_value kv))"

definition store_del :: "int \<Rightarrow> string \<Rightarrow> data_store \<Rightarrow> bool \<times> data_store" where
  "store_del now key st =
     (case lookup key st of
        Some kv \<Rightarrow>
          if \<not> pair_expired now kv then
            (let (n, st') = generate_mod_count st
             in (True, st'\<lparr>store_data := AList.delete key (store_data st')\<rparr>))
          else (False, st)
      | None \<Rightarrow> (False, st))"

definition store_exists :: "int \<Rightarrow> string \<Rightarrow> data_store \<Rightarrow> bool" where
  "store_exists now key st =
     (case lookup key st of Some kv \<Rightarrow> \<not> pair_expired now kv | None \<Rightarrow> False)"

text \<open>The loops over all keys look at the clock at every key.\<close>

primrec cleanup_expired_keys :: "(nat \<Rightarrow> int) \<Rightarrow> nat \<Rightarrow> (string, key_value_pair) umap \<Rightarrow> (string, key_value_pair) umap" where
  "cleanup_expired_keys clk i [] = []"
| "cleanup_expired_keys clk i (p # ps) =
     (if pair_expired (clk i) (snd p) then cleanup_expired_keys clk (Suc i) ps
      else p # cleanup_expired_keys clk (Suc i) ps)"

definition store_keys :: "(nat \<Rightarrow> int) \<Rightarrow> string \<Rightarrow> data_store \<Rightarrow> string list \<times> data_store" where
  "store_keys clk pattern st =
     (let ps = cleanup_expired_keys clk 0 (store_data st)
      in (filter (\<lambda>key. pattern = ''*'' \<or> contains pattern key) (map fst ps), st\<lparr>store_data := ps\<rparr>))"

primrec dbsize_loop :: "(nat \<Rightarrow> int) \<Rightarrow> nat \<Rightarrow> (string, key_value_pair) umap \<Rightarrow> nat" where
  "dbsize_loop clk i [] = 0"
| "dbsize_loop clk i (p # ps) = (if \<not> pair_expired (clk i) (snd p) then 1 else 0) + dbsize_loop clk (Suc i) ps"

definition store_dbsize :: "(nat \<Rightarrow> int) \<Rightarrow> data_store \<Rightarrow> nat" where
  "store_dbsize clk st = dbsize_loop clk 0 (store_data st)"

text \<open>\<open>steady_clock::now() + duration\<close> in nanoseconds; \<open>now\<close> and \<open>now'\<close> are the two clock readings.\<close>

definition store_expire :: "int \<Rightarrow> int \<Rightarrow> string \<Rightarrow> int \<Rightarrow> data_store \<Rightarrow> bool \<times> data_store" where
  "store_expire now now' key seconds st =
     (case lookup key st of
        None \<Rightarrow> (False, st)
      | Some kv \<Rightarrow>
          if pair_expired now kv then (False, st)
          else (True, write_pair key (kv\<lparr>kv_expiry := wrap64 (now' + seconds * 1000000000)\<rparr>) st))"

definition store_pexpire :: "int \<Rightarrow> int \<Rightarrow> string \<Rightarrow> int \<Rightarrow> data_store \<Rightarrow> bool \<times> data_store" where
  "store_pexpire now now' key milliseconds st =
     (case lookup key st of
        None \<Rightarrow> (False, st)
      | Some kv \<Rightarrow>
          if pair_expired now kv then (False, st)
          else (True, write_pair key (kv\<lparr>kv_expiry := wrap64 (now' + milliseconds * 1000000)\<rparr>) st))"

definition store_ttl :: "int \<Rightarrow> int \<Rightarrow> string \<Rightarrow> data_store \<Rightarrow> int" where
  "store_ttl now now' key st =
     (case lookup key st of
        None \<Rightarrow> - 2
      | Some kv \<Rightarrow>
          if pair_expired now kv then - 2
          else if kv_expiry kv \<le> now' then - 2
          else div_trunc (wrap64 (kv_expiry kv - now')) 1000000000)"

definition store_pttl :: "int \<Rightarrow> int \<Rightarrow> string \<Rightarrow> data_store \<Rightarrow> int" where
  "store_pttl now now' key st =
     (case lookup key st of
        None \<Rightarrow> - 2
      | Some kv \<Rightarrow>
          if pair_expired now kv then - 2
          else if kv_expiry kv \<le> now' then - 2
          else div_trunc (wrap64 (kv_expiry kv - now')) 1000000)"

definition store_persist :: "int \<Rightarrow> string \<Rightarrow> data_store \<Rightarrow> bool \<times> data_store" where
  "store_persist now key st =
     (case lookup key st of
        None \<Rightarrow> (False, st)
      | Some kv \<Rightarrow>
          if pair_expired now kv then (False, st) else (True, write_pair key (kv\<lparr>kv_expiry := 0\<rparr>) st))"

definition store_get_mod_count :: "string \<Rightarrow> data_store \<Rightarrow> 64 word" where
  "store_get_mod_count key st = (case lookup key st of Some kv \<Rightarrow> kv_mod_count kv | None \<Rightarrow> 0)"

definition store_increment_mod_count :: "string \<Rightarrow> data_store \<Rightarrow> data_store" where
  "store_increment_mod_count key st =
     (case lookup key st of Some kv \<Rightarrow> write_pair key kv st | None \<Rightarrow> st)"

definition store_type :: "int \<Rightarrow> string \<Rightarrow> data_store \<Rightarrow> RedisType" where
  "store_type now key st =
     (case lookup key st of
        None \<Rightarrow> String
      | Some kv \<Rightarrow> if pair_expired now kv then String else value_type (kv_value kv))"

section \<open>Handlers\<close>

text \<open>\<open>value && value->type == t\<close>.\<close>

definition typed :: "RedisType \<Rightarrow> redis_value option \<Rightarrow> redis_value option" where
  "typed t e = (case e of Some v \<Rightarrow> if value_type v = t then Some v else None | None \<Rightarrow> None)"

definition string_get :: "int \<Rightarrow> string \<Rightarrow> data_store \<Rightarrow> string" where
  "string_get now key st = (case typed String (store_get now key st) of Some v \<Rightarrow> str_val v | None \<Rightarrow> [])"

definition string_set :: "string \<Rightarrow> string \<Rightarrow> data_store \<Rightarrow> bool \<times> data_store" where
  "string_set key val st = store_set key ((new_value String)\<lparr>str_val := val\<rparr>) st"

definition string_strlen :: "int \<Rightarrow> string \<Rightarrow> data_store \<Rightarrow> nat" where
  "string_strlen now key st = (case typed String (store_get now key st) of Some v \<Rightarrow> length (str_val v) | None \<Rightarrow> 0)"

definition string_getrange :: "int \<Rightarrow> string \<Rightarrow> int \<Rightarrow> int \<Rightarrow> data_store \<Rightarrow> string" where
  "string_getrange now key start stop st =
     (case typed String (store_get now key st) of
        None \<Rightarrow> []
      | Some v \<Rightarrow>
          (let (i, j) = range_bounds (length (str_val v)) start stop
           in if j < i then [] else slice i j (str_val v)))"

definition list_lpush :: "int \<Rightarrow> string \<Rightarrow> string list \<Rightarrow> data_store \<Rightarrow> nat \<times> data_store" where
  "list_lpush now key vals st =
     (let xs = (case typed List (store_get now key st) of Some v \<Rightarrow> list_val v | None \<Rightarrow> []);
          ys = vals @ xs
      in (length ys, snd (store_set key ((new_value List)\<lparr>list_val := ys\<rparr>) st)))"

definition list_llen :: "int \<Rightarrow> string \<Rightarrow> data_store \<Rightarrow> nat" where
  "list_llen now key st = (case typed List (store_get now key st) of Some v \<Rightarrow> length (list_val v) | None \<Rightarrow> 0)"

definition list_lrange :: "int \<Rightarrow> string \<Rightarrow> int \<Rightarrow> int \<Rightarrow> data_store \<Rightarrow> string list" where
  "list_lrange now key start stop st =
     (case typed List (store_get now key st) of
        None \<Rightarrow> []
      | Some v \<Rightarrow>
          (let (i, j) = range_bounds (length (list_val v)) start stop
           in if j < i then [] else slice i j (list_val v)))"

definition list_lindex :: "int \<Rightarrow> string \<Rightarrow> int \<Rightarrow> data_store \<Rightarrow> string" where
  "list_lindex now key index st =
     (case typed List (store_get now key st) of
        None \<Rightarrow> []
      | Some v \<Rightarrow>
          (let n = length (list_val v); i = (if index < 0 then wrap32 (int n + index) else index)
           in if i < 0 \<or> n \<le> nat i then [] else list_val v ! nat i))"

definition set_sismember :: "int \<Rightarrow> string \<Rightarrow> string \<Rightarrow> data_store \<Rightarrow> bool" where
  "set_sismember now key member st =
     (case typed Set (store_get now key st) of Some v \<Rightarrow> member \<in> set (set_val v) | None \<Rightarrow> False)"

definition set_scard :: "int \<Rightarrow> string \<Rightarrow> data_store \<Rightarrow> nat" where
  "set_scard now key st = (case typed Set (store_get now key st) of Some v \<Rightarrow> length (set_val v) | None \<Rightarrow> 0)"

definition hash_hget :: "int \<Rightarrow> string \<Rightarrow> string \<Rightarrow> data_store \<Rightarrow> string" where
  "hash_hget now key field st =
     (case typed Hash (store_get now key st) of
        None \<Rightarrow> []
      | Some v \<Rightarrow> (case map_of (hash_val v) field of Some s \<Rightarrow> s | None \<Rightarrow> []))"

definition hash_hlen :: "int \<Rightarrow> string \<Rightarrow> data_store \<Rightarrow> nat" where
  "hash_hlen now key st = (case typed Hash (store_get now key st) of Some v \<Rightarrow> length (hash_val v) | None \<Rightarrow> 0)"

definition hash_hkeys :: "int \<Rightarrow> string \<Rightarrow> data_store \<Rightarrow> string list" where
  "hash_hkeys now key st = (case typed Hash (store_get now key st) of Some v \<Rightarrow> map fst (hash_val v) | None \<Rightarrow> [])"

definition hash_hvals :: "int \<Rightarrow> string \<Rightarrow> data_store \<Rightarrow> string list" where
  "hash_hvals now key st = (case typed Hash (store_get now key st) of Some v \<Rightarrow> map snd (hash_val v) | None \<Rightarrow> [])"

definition hash_hgetall :: "int \<Rightarrow> string \<Rightarrow> data_store \<Rightarrow> (string \<times> string) list" where
  "hash_hgetall now key st = (case typed Hash (store_get now key st) of Some v \<Rightarrow> hash_val v | None \<Rightarrow> [])"

definition hash_hexists :: "int \<Rightarrow> string \<Rightarrow> string \<Rightarrow> data_store \<Rightarrow> bool" where
  "hash_hexists now key field st =
     (case typed Hash (store_get now key st) of Some v \<Rightarrow> map_of (hash_val v) field \<noteq> None | None \<Rightarrow> False)"

definition zset_zcard :: "int \<Rightarrow> string \<Rightarrow> data_store \<Rightarrow> nat" where
  "zset_zcard now key st =
     (case typed ZSet (store_get now key st) of Some v \<Rightarrow> length (zset_member_to_score v) | None \<Rightarrow> 0)"

text \<open>The members in a range of a ranking, each followed by its score when asked for.\<close>

definition range_items :: "bool \<Rightarrow> int \<Rightarrow> int \<Rightarrow> (double \<times> string) list \<Rightarrow> string list" where
  "range_items with_scores start stop ps =
     (let (i, j) = range_bounds (length ps) start stop
      in if j < i then []
         else concat (map (\<lambda>(score, member). if with_scores then [member, double_to_string score] else [member])
           (slice i j ps)))"

definition zset_zrange :: "int \<Rightarrow> string \<Rightarrow> int \<Rightarrow> int \<Rightarrow> bool \<Rightarrow> data_store \<Rightarrow> string list" where
  "zset_zrange now key start stop with_scores st =
     (case typed ZSet (store_get now key st) of
        Some v \<Rightarrow> range_items with_scores start stop (zset_score_to_member v)
      | None \<Rightarrow> [])"

definition zset_zrevrange :: "int \<Rightarrow> string \<Rightarrow> int \<Rightarrow> int \<Rightarrow> bool \<Rightarrow> data_store \<Rightarrow> string list" where
  "zset_zrevrange now key start stop with_scores st =
     (case typed ZSet (store_get now key st) of
        Some v \<Rightarrow> range_items with_scores start stop (rev (zset_score_to_member v))
      | None \<Rightarrow> [])"

definition zset_zscore :: "int \<Rightarrow> string \<Rightarrow> string \<Rightarrow> data_store \<Rightarrow> double" where
  "zset_zscore now key member st =
     (case typed ZSet (store_get now key st) of
        Some v \<Rightarrow> (case map_of (zset_member_to_score v) member of Some s \<Rightarrow> s | None \<Rightarrow> dzero)
      | None \<Rightarrow> dzero)"

fun rank_loop :: "string \<Rightarrow> int \<Rightarrow> int \<Rightarrow> (double \<times> string) list \<Rightarrow> int" where
  "rank_loop member step rank [] = - 1"
| "rank_loop member step rank (p # ps) =
     (if snd p = member then rank else rank_loop member step (rank + step) ps)"

definition zset_zrank :: "int \<Rightarrow> string \<Rightarrow> string \<Rightarrow> data_store \<Rightarrow> int" where
  "zset_zrank now key member st =
     (case typed ZSet (store_get now key st) of
        None \<Rightarrow> - 1
      | Some v \<Rightarrow>
          if map_of (zset_member_to_score v) member = None then - 1
          else rank_loop member 1 0 (zset_score_to_member v))"

definition zset_zrevrank :: "int \<Rightarrow> string \<Rightarrow> string \<Rightarrow> data_store \<Rightarrow> int" where
  "zset_zrevrank now key member st =
     (case typed ZSet (store_get now key st) of
        None \<Rightarrow> - 1
      | Some v \<Rightarrow>
          if map_of (zset_member_to_score v) member = None then - 1
          else rank_loop member (- 1) (int (length (zset_score_to_member v)) - 1) (rev (zset_score_to_member v)))"

section \<open>The watch manager\<close>

text \<open>All watches are kept for the client \<open>0\<close>; the check never looks at them.\<close>

record watch_manager =
  watched_versions :: "(string, (int, 64 word) umap) umap"
  client_watches :: "(int, string list) umap"

definition watch_key :: "string \<Rightarrow> 64 word \<Rightarrow> watch_manager \<Rightarrow> bool \<times> watch_manager" where
  "watch_key key expected_version w =
     (let m = (case map_of (watched_versions w) key of Some m \<Rightarrow> m | None \<Rightarrow> []);
          ks = (case map_of (client_watches w) 0 of Some ks \<Rightarrow> ks | None \<Rightarrow> [])
      in (True, w\<lparr>watched_versions := AList.update key (AList.update 0 expected_version m) (watched_versions w),
                  client_watches := AList.update 0 (ks @ [key]) (client_watches w)\<rparr>))"

definition unwatch_key :: "string \<Rightarrow> watch_manager \<Rightarrow> bool \<times> watch_manager" where
  "unwatch_key key w =
     (True, w\<lparr>watched_versions := AList.delete key (watched_versions w),
              client_watches := map (\<lambda>(c, ks). (c, removeAll key ks)) (client_watches w)\<rparr>)"

definition unwatch_all :: "watch_manager \<Rightarrow> bool \<times> watch_manager" where
  "unwatch_all w = (True, w\<lparr>watched_versions := [], client_watches := []\<rparr>)"

definition check_watched_keys :: "watch_manager \<Rightarrow> bool" where
  "check_watched_keys w = True"

definition clear_watch_state :: "watch_manager \<Rightarrow> watch_manager" where
  "clear_watch_state w = w\<lparr>watched_versions := [], client_watches := []\<rparr>"

section \<open>Versions\<close>

text \<open>The operations that can change the store, and their run.\<close>

datatype store_op =
    Op_set string redis_value
  | Op_del string
  | Op_keys string
  | Op_expire string int
  | Op_pexpire string int
  | Op_persist string
  | Op_increment string

definition store_step :: "(nat \<Rightarrow> int) \<times> store_op \<Rightarrow> data_store \<Rightarrow> data_store" where
  "store_step x st =
     (let clk = fst x in
      case snd x of
        Op_set key val \<Rightarrow> snd (store_set key val st)
      | Op_del key \<Rightarrow> snd (store_del (clk 0) key st)
      | Op_keys pattern \<Rightarrow> snd (store_keys clk pattern st)
      | Op_expire key n \<Rightarrow> snd (store_expire (clk 0) (clk 1) key n st)
      | Op_pexpire key n \<Rightarrow> snd (store_pexpire (clk 0) (clk 1) key n st)
      | Op_persist key \<Rightarrow> snd (store_persist (clk 0) key st)
      | Op_increment key \<Rightarrow> store_increment_mod_count key st)"

text \<open>Keys are distinct, and versions were generated: none is 0 and none is still to come.\<close>

definition store_ok :: "data_store \<Rightarrow> bool" where
  "store_ok st \<longleftrightarrow> umap_wf (store_data st) \<and> 0 < store_counter st \<and>
     (\<forall>k kv. lookup k st = Some kv \<longrightarrow> 0 < kv_mod_count kv \<and> kv_mod_count kv < store_counter st)"

text \<open>What one operation does to a store: each entry stays, goes, or gets a version not seen before.\<close>

definition evolves :: "data_store \<Rightarrow> data_store \<Rightarrow> bool" where
  "evolves st st' \<longleftrightarrow> store_ok st' \<and> store_counter st \<le> store_counter st' \<and>
     unat (store_counter st') \<le> Suc (unat (store_counter st)) \<and>
     (\<forall>k. lookup k st' = lookup k st \<or> lookup k st' = None \<or>
        (\<exists>kv. lookup k st' = Some kv \<and> store_counter st \<le> kv_mod_count kv))"

lemma evolves_refl: "store_ok st \<Longrightarrow> evolves st st"
  by (simp add: evolves_def)

lemma counter_next:
  fixes c :: "64 word"
  assumes "Suc (unat c) < 2 ^ 64"
  shows "unat (c + 1) = Suc (unat c)" "c < c + 1" "c \<le> c + 1"
proof -
  show u: "unat (c + 1) = Suc (unat c)" using assms by (simp add: unat_word_ariths)
  then show "c < c + 1" "c \<le> c + 1" by (simp_all add: word_less_nat_alt word_le_nat_alt)
qed

lemma write_pair_evolves:
  assumes "store_ok st" "Suc (unat (store_counter st)) < 2 ^ 64"
  shows "evolves st (write_pair key kv st)"
proof -
  have le: "n < store_counter st + 1" if "n < store_counter st" for n :: "64 word"
    using that counter_next(2) [OF assms(2)] by (rule less_trans)
  show ?thesis
    using assms counter_next [OF assms(2)]
    by (auto simp: evolves_def store_ok_def write_pair_def generate_mod_count_def le)
qed

lemma delete_evolves:
  assumes "store_ok st" "Suc (unat (store_counter st)) < 2 ^ 64"
  shows "evolves st (snd (store_del now key st))"
proof -
  have le: "n < store_counter st + 1" if "n < store_counter st" for n :: "64 word"
    using that counter_next(2) [OF assms(2)] by (rule less_trans)
  show ?thesis
    using assms counter_next [OF assms(2)] evolves_refl [OF assms(1)]
    by (auto simp: evolves_def store_ok_def store_del_def generate_mod_count_def le split: option.split
        simp del: map_of_eq_Some_iff)
qed

lemma cleanup_subset: "set (cleanup_expired_keys clk i ps) \<subseteq> set ps"
  by (induction ps arbitrary: i) auto

lemma cleanup_umap_wf: "umap_wf ps \<Longrightarrow> umap_wf (cleanup_expired_keys clk i ps)"
  using cleanup_subset by (induction ps arbitrary: i) fastforce+

lemma cleanup_lookup:
  assumes "umap_wf ps"
  shows "map_of (cleanup_expired_keys clk i ps) k = map_of ps k \<or> map_of (cleanup_expired_keys clk i ps) k = None"
proof (cases "map_of (cleanup_expired_keys clk i ps) k")
  case (Some kv)
  then have "(k, kv) \<in> set ps" using cleanup_subset [of clk i ps] by (auto dest: map_of_SomeD)
  then show ?thesis using assms Some by simp
qed simp

lemma keys_evolves:
  assumes "store_ok st"
  shows "evolves st (snd (store_keys clk pattern st))"
proof -
  have wf: "umap_wf (store_data st)" using assms by (simp add: store_ok_def)
  note cl = cleanup_lookup [OF wf, of clk 0] cleanup_umap_wf [OF wf, of clk 0]
  have "lookup k st = Some kv" if "map_of (cleanup_expired_keys clk 0 (store_data st)) k = Some kv" for k kv
    using cl(1) [of k] that by auto
  then show ?thesis
    using assms cl(2) cl(1) unfolding evolves_def store_ok_def store_keys_def Let_def
    by (simp del: map_of_eq_Some_iff) blast
qed

lemma step_evolves:
  assumes "store_ok st" "Suc (unat (store_counter st)) < 2 ^ 64"
  shows "evolves st (store_step x st)"
  using write_pair_evolves [OF assms] delete_evolves [OF assms] keys_evolves [OF assms(1)] evolves_refl [OF assms(1)]
  by (simp add: store_step_def Let_def store_set_def store_expire_def store_pexpire_def store_persist_def
      store_increment_mod_count_def split: store_op.split option.split)

lemma evolves_trans:
  assumes "evolves st st1"
    and "\<forall>k. lookup k st2 = lookup k st1 \<or> lookup k st2 = None \<or>
        (\<exists>kv. lookup k st2 = Some kv \<and> store_counter st1 \<le> kv_mod_count kv)"
  shows "\<forall>k. lookup k st2 = lookup k st \<or> lookup k st2 = None \<or>
        (\<exists>kv. lookup k st2 = Some kv \<and> store_counter st \<le> kv_mod_count kv)"
proof
  fix k
  have "store_counter st \<le> store_counter st1" using assms(1) by (simp add: evolves_def)
  then show "lookup k st2 = lookup k st \<or> lookup k st2 = None \<or>
        (\<exists>kv. lookup k st2 = Some kv \<and> store_counter st \<le> kv_mod_count kv)"
    using assms(1) assms(2) [rule_format, of k] unfolding evolves_def by (auto intro: order_trans)
qed

lemma run_evolves:
  assumes "store_ok st" "unat (store_counter st) + length xs < 2 ^ 64"
  shows "let st' = fold store_step xs st in store_ok st' \<and> store_counter st \<le> store_counter st' \<and>
    (\<forall>k. lookup k st' = lookup k st \<or> lookup k st' = None \<or>
       (\<exists>kv. lookup k st' = Some kv \<and> store_counter st \<le> kv_mod_count kv))"
  using assms
proof (induction xs arbitrary: st)
  case (Cons x xs)
  have e: "evolves st (store_step x st)" using Cons.prems by (intro step_evolves) simp_all
  then have ih: "let st' = fold store_step xs (store_step x st) in store_ok st' \<and>
      store_counter (store_step x st) \<le> store_counter st' \<and>
      (\<forall>k. lookup k st' = lookup k (store_step x st) \<or> lookup k st' = None \<or>
        (\<exists>kv. lookup k st' = Some kv \<and> store_counter (store_step x st) \<le> kv_mod_count kv))"
    using Cons.prems(2) by (intro Cons.IH) (auto simp: evolves_def)
  moreover have "store_counter st \<le> store_counter (store_step x st)" using e by (simp add: evolves_def)
  ultimately show ?case using evolves_trans [OF e] by (simp add: Let_def) (meson order_trans)
qed simp

section \<open>Ranks\<close>

lemma rank_loop_absent: "member \<notin> snd ` set ps \<Longrightarrow> rank_loop member d r ps = - 1"
  by (induction ps arbitrary: r) auto

lemma rank_loop_at:
  "distinct (map snd ps) \<Longrightarrow> i < length ps \<Longrightarrow> snd (ps ! i) = member \<Longrightarrow> rank_loop member d r ps = r + d * int i"
proof (induction ps arbitrary: r i)
  case (Cons p ps)
  show ?case
  proof (cases i)
    case (Suc j)
    then have "snd (ps ! j) = member" "j < length ps" using Cons.prems by simp_all
    moreover from this have "member \<in> set (map snd ps)" by (metis length_map nth_map nth_mem)
    ultimately show ?thesis using Cons Suc by (auto simp: algebra_simps)
  qed (use Cons.prems in simp)
qed simp

lemma rank_loop_rev:
  assumes "distinct (map snd ps)"
  shows "rank_loop member (- 1) (int (length ps) - 1) (rev ps) = rank_loop member 1 0 ps"
proof (cases "member \<in> snd ` set ps")
  case True
  then obtain i where i: "i < length ps" "snd (ps ! i) = member" by (auto simp: in_set_conv_nth)
  then have "rev ps ! (length ps - Suc i) = ps ! i" by (simp add: rev_nth)
  moreover have "distinct (map snd (rev ps))" using assms by (simp flip: rev_map)
  ultimately have "rank_loop member (- 1) (int (length ps) - 1) (rev ps) =
      int (length ps) - 1 + - 1 * int (length ps - Suc i)"
    using i by (intro rank_loop_at) simp_all
  then show ?thesis using i rank_loop_at [OF assms i, of 1 0] by simp
qed (simp add: rank_loop_absent)

section \<open>Properties\<close>

text \<open>Versions of the alternative store never repeat: whatever operations run after the version of a
  key has been read, if the entry of the key is then another one (also deleted, expired and
  cleaned up, or deleted and written again), the version is another one too, as long as the
  64-bit counter does not wrap around.\<close>

lemma store_versions_change:
  assumes "store_ok st" "unat (store_counter st) + length xs < 2 ^ 64" "lookup k st = Some kv"
    and "lookup k (fold store_step xs st) \<noteq> lookup k st"
  shows "store_get_mod_count k (fold store_step xs st) \<noteq> store_get_mod_count k st"
proof -
  have old: "0 < kv_mod_count kv" "kv_mod_count kv < store_counter st" "store_get_mod_count k st = kv_mod_count kv"
    using assms(1,3) by (auto simp: store_ok_def store_get_mod_count_def)
  have "lookup k (fold store_step xs st) = None \<or>
      (\<exists>kv'. lookup k (fold store_step xs st) = Some kv' \<and> store_counter st \<le> kv_mod_count kv')"
    using run_evolves [OF assms(1,2)] assms(4) by (auto simp: Let_def)
  then show ?thesis using old by (auto simp: store_get_mod_count_def)
qed

text \<open>ZREVRANK of the alternative store is ZRANK: counting down while walking backwards gives the
  position from the front again, so for a sorted set whose ranking has no repeated member both
  return the same number.\<close>

theorem zrevrank_is_zrank:
  assumes "\<And>v. store_get now key st = Some v \<Longrightarrow> distinct (map snd (zset_score_to_member v))"
  shows "zset_zrevrank now key member st = zset_zrank now key member st"
  using assms by (auto simp: zset_zrevrank_def zset_zrank_def typed_def rank_loop_rev split: option.split)

theorem zrevrank_is_zrank_witness:
  "zset_zrevrank 0 ''z'' ''n'' (snd (store_set ''z'' (the (entry ''z'' sample_db)) make_store)) =
   zset_zrank 0 ''z'' ''n'' (snd (store_set ''z'' (the (entry ''z'' sample_db)) make_store))"
  by (rule zrevrank_is_zrank)
    (auto simp: store_get_def store_set_def write_pair_def generate_mod_count_def make_store_def make_pair_def
      pair_expired_def sample_db_data)

text \<open>TTL of the alternative store reports a key without expiry as missing.\<close>

lemma store_ttl_without_expiry:
  assumes "lookup key st = Some kv" "kv_expiry kv = 0" "0 \<le> now'"
  shows "store_ttl now now' key st = - 2" "store_pttl now now' key st = - 2" "store_exists now key st"
  using assms by (simp_all add: store_ttl_def store_pttl_def store_exists_def pair_expired_def)

end
