(* ===== verification/Store_Handlers.thy ===== *)
theory Store_Handlers
  imports Data_Store Resp
begin

text \<open>
  The handlers of \<open>data_store.cpp\<close> that write lists, sets, hashes, sorted sets and parts of strings
  into the alternative store.  They call constructors that \<open>RedisValue\<close> does not declare
  (\<open>redis_value.h\<close> has one, from a \<open>RedisType\<close>); such a constructor is an argument \<open>mk\<close> of the
  handler, and what is needed of it, that the value has the type and the contents it was given, is
  a hypothesis where a lemma needs it.  \<open>smembers\<close> and \<open>spop\<close> treat the \<open>std::unordered_set\<close> of a value
  as a \<open>std::vector\<close>; they have no meaning and no model.
\<close>

section \<open>Strings and lists\<close>

text \<open>\<open>resize\<close> fills with zero bytes; \<open>replace\<close> throws behind the end.\<close>

definition str_resize :: "nat \<Rightarrow> string \<Rightarrow> string result" where
  "str_resize n s = (if max_string < n then Inl Length_error else Inr (take n s @ replicate (n - length s) (char_of (0 :: nat))))"

definition str_replace :: "nat \<Rightarrow> string \<Rightarrow> string \<Rightarrow> string result" where
  "str_replace offset val s =
     (if length s < offset then Inl Out_of_range else Inr (take offset s @ val @ drop (offset + length val) s))"

definition string_setrange ::
  "(string \<Rightarrow> redis_value) \<Rightarrow> int \<Rightarrow> string \<Rightarrow> nat \<Rightarrow> string \<Rightarrow> data_store \<Rightarrow> nat result \<times> data_store" where
  "string_setrange mk now key offset val st =
     (let str = (case typed String (store_get now key st) of Some v \<Rightarrow> str_val v | None \<Rightarrow> []);
          stop = size_wrap (int offset + int (length val))
      in case (if length str < stop then str_resize stop str else Inr str) of
           Inl e \<Rightarrow> (Inl e, st)
         | Inr str1 \<Rightarrow>
             (case str_replace offset val str1 of
                Inl e \<Rightarrow> (Inl e, st)
              | Inr str2 \<Rightarrow> (Inr (length str2), snd (store_set key (mk str2) st))))"

definition list_rpush :: "(string list \<Rightarrow> redis_value) \<Rightarrow> int \<Rightarrow> string \<Rightarrow> string list \<Rightarrow> data_store \<Rightarrow> nat \<times> data_store" where
  "list_rpush mk now key vals st =
     (let xs = (case typed List (store_get now key st) of Some v \<Rightarrow> list_val v | None \<Rightarrow> []);
          ys = xs @ vals
      in (length ys, snd (store_set key (mk ys) st)))"

text \<open>The end of the removing handlers: an empty container is deleted, another one written back.\<close>

definition write_back :: "('a list \<Rightarrow> redis_value) \<Rightarrow> int \<Rightarrow> string \<Rightarrow> 'a list \<Rightarrow> data_store \<Rightarrow> data_store" where
  "write_back mk now key xs st =
     (if xs = [] then snd (store_del now key st) else snd (store_set key (mk xs) st))"

text \<open>\<open>now\<close> is the clock reading of \<open>get\<close>, \<open>now'\<close> that of \<open>del\<close>.\<close>

definition list_lpop :: "(string list \<Rightarrow> redis_value) \<Rightarrow> int \<Rightarrow> int \<Rightarrow> string \<Rightarrow> data_store \<Rightarrow> string \<times> data_store" where
  "list_lpop mk now now' key st =
     (case typed List (store_get now key st) of
        None \<Rightarrow> ([], st)
      | Some v \<Rightarrow>
          if list_val v = [] then ([], st)
          else (hd (list_val v), write_back mk now' key (tl (list_val v)) st))"

definition list_rpop :: "(string list \<Rightarrow> redis_value) \<Rightarrow> int \<Rightarrow> int \<Rightarrow> string \<Rightarrow> data_store \<Rightarrow> string \<times> data_store" where
  "list_rpop mk now now' key st =
     (case typed List (store_get now key st) of
        None \<Rightarrow> ([], st)
      | Some v \<Rightarrow>
          if list_val v = [] then ([], st)
          else (last (list_val v), write_back mk now' key (butlast (list_val v)) st))"

definition list_lset :: "(string list \<Rightarrow> redis_value) \<Rightarrow> int \<Rightarrow> string \<Rightarrow> int \<Rightarrow> string \<Rightarrow> data_store \<Rightarrow> bool \<times> data_store" where
  "list_lset mk now key index val st =
     (case typed List (store_get now key st) of
        None \<Rightarrow> (False, st)
      | Some v \<Rightarrow>
          (let n = length (list_val v); i = (if index < 0 then wrap32 (int n + index) else index)
           in if i < 0 \<or> n \<le> nat i then (False, st)
              else (True, snd (store_set key (mk ((list_val v)[nat i := val])) st))))"

section \<open>Sets and hashes\<close>

definition set_sadd ::
  "(string list \<Rightarrow> RedisType \<Rightarrow> redis_value) \<Rightarrow> int \<Rightarrow> string \<Rightarrow> string list \<Rightarrow> data_store \<Rightarrow> nat \<times> data_store" where
  "set_sadd mk now key ms st =
     (let s = (case typed Set (store_get now key st) of Some v \<Rightarrow> set_val v | None \<Rightarrow> []);
          s' = uset_insert_all ms s
      in (length s' - length s, snd (store_set key (mk s' Set) st)))"

definition set_srem ::
  "(string list \<Rightarrow> RedisType \<Rightarrow> redis_value) \<Rightarrow> int \<Rightarrow> int \<Rightarrow> string \<Rightarrow> string list \<Rightarrow> data_store \<Rightarrow> nat \<times> data_store" where
  "set_srem mk now now' key ms st =
     (case typed Set (store_get now key st) of
        None \<Rightarrow> (0, st)
      | Some v \<Rightarrow>
          (let s = uset_erase_all ms (set_val v)
           in (length (set_val v) - length s, write_back (\<lambda>xs. mk xs Set) now' key s st)))"

text \<open>
  \<open>std::sample\<close> from a forward range: each element is taken when a number drawn from \<open>[0, m]\<close>, where \<open>m\<close>
  elements follow it, is below the number still to take.  \<open>draw i m\<close> is the \<open>i\<close>-th draw.
\<close>

fun sample_loop :: "(nat \<Rightarrow> nat \<Rightarrow> nat) \<Rightarrow> nat \<Rightarrow> nat \<Rightarrow> 'a list \<Rightarrow> 'a list" where
  "sample_loop draw i n [] = []"
| "sample_loop draw i n (x # xs) =
     (if n = 0 then []
      else if draw i (length xs) < n then x # sample_loop draw (Suc i) (n - 1) xs
      else sample_loop draw (Suc i) n xs)"

text \<open>\<open>None\<close>: the negation of the count overflows, which C++ leaves undefined.\<close>

definition set_srandmember ::
  "(nat \<Rightarrow> nat \<Rightarrow> nat) \<Rightarrow> int \<Rightarrow> string \<Rightarrow> int \<Rightarrow> data_store \<Rightarrow> string list option" where
  "set_srandmember draw now key count st =
     (case typed Set (store_get now key st) of
        None \<Rightarrow> Some []
      | Some v \<Rightarrow>
          if set_val v = [] then Some []
          else let size = wrap32 (int (length (set_val v)))
               in if 0 \<le> count then Some (sample_loop draw 0 (nat (min count size)) (set_val v))
                  else if count = - (2 ^ 31) then None
                  else Some (sample_loop draw 0 (nat (min (- count) size)) (set_val v)))"

definition hash_hset ::
  "((string, string) umap \<Rightarrow> redis_value) \<Rightarrow> int \<Rightarrow> string \<Rightarrow> string \<Rightarrow> string \<Rightarrow> data_store \<Rightarrow> bool \<times> data_store" where
  "hash_hset mk now key field val st =
     (let h = (case typed Hash (store_get now key st) of Some v \<Rightarrow> hash_val v | None \<Rightarrow> [])
      in (map_of h field = None, snd (store_set key (mk (AList.update field val h)) st)))"

definition hash_hdel ::
  "((string, string) umap \<Rightarrow> redis_value) \<Rightarrow> int \<Rightarrow> int \<Rightarrow> string \<Rightarrow> string list \<Rightarrow> data_store \<Rightarrow> bool \<times> data_store" where
  "hash_hdel mk now now' key flds st =
     (case typed Hash (store_get now key st) of
        None \<Rightarrow> (False, st)
      | Some v \<Rightarrow>
          (let h = fold AList.delete flds (hash_val v)
           in (length h < length (hash_val v), write_back mk now' key h st)))"

section \<open>Sorted sets\<close>

text \<open>
  \<open>std::map<double, std::string>\<close> in the order of its keys, for keys that are numbers: one member per
  score.  An assignment to a score that is there keeps the old key.
\<close>

fun dmap_assign :: "double \<Rightarrow> string \<Rightarrow> (double \<times> string) list \<Rightarrow> (double \<times> string) list" where
  "dmap_assign s m [] = [(s, m)]"
| "dmap_assign s m (p # ps) =
     (if dlt (fst p) s then p # dmap_assign s m ps
      else if dlt s (fst p) then (s, m) # p # ps
      else (fst p, m) # ps)"

definition dmap_erase :: "double \<Rightarrow> (double \<times> string) list \<Rightarrow> (double \<times> string) list" where
  "dmap_erase s ps = filter (\<lambda>p. dlt (fst p) s \<or> dlt s (fst p)) ps"

type_synonym zset_maps = "(double \<times> string) list \<times> (string, double) umap"

definition load_pair :: "double \<times> string \<Rightarrow> zset_maps \<Rightarrow> zset_maps" where
  "load_pair p z =
     (case p of (score, member) \<Rightarrow> (dmap_assign score member (fst z), AList.update member score (snd z)))"

definition add_pair :: "double \<times> string \<Rightarrow> zset_maps \<Rightarrow> zset_maps" where
  "add_pair p z =
     load_pair p
       (case map_of (snd z) (snd p) of Some old \<Rightarrow> (dmap_erase old (fst z), snd z) | None \<Rightarrow> z)"

definition zset_zadd ::
  "((double \<times> string) list \<Rightarrow> RedisType \<Rightarrow> redis_value) \<Rightarrow> int \<Rightarrow> string \<Rightarrow> (double \<times> string) list \<Rightarrow> data_store \<Rightarrow> bool \<times> data_store" where
  "zset_zadd mk now key ms st =
     (let z = (case typed ZSet (store_get now key st) of
                 Some v \<Rightarrow> fold load_pair (zset_score_to_member v) ([], [])
               | None \<Rightarrow> ([], []))
      in (True, snd (store_set key (mk (fst (fold add_pair ms z)) ZSet) st)))"

definition remove_member :: "string \<Rightarrow> bool \<times> zset_maps \<Rightarrow> bool \<times> zset_maps" where
  "remove_member member r =
     (case map_of (snd (snd r)) member of
        Some score \<Rightarrow> (True, dmap_erase score (fst (snd r)), AList.delete member (snd (snd r)))
      | None \<Rightarrow> r)"

definition zset_zrem ::
  "((double \<times> string) list \<Rightarrow> RedisType \<Rightarrow> redis_value) \<Rightarrow> int \<Rightarrow> int \<Rightarrow> string \<Rightarrow> string list \<Rightarrow> data_store \<Rightarrow> bool \<times> data_store" where
  "zset_zrem mk now now' key ms st =
     (case typed ZSet (store_get now key st) of
        None \<Rightarrow> (False, st)
      | Some v \<Rightarrow>
          (let (removed, z) = fold remove_member ms (False, fold load_pair (zset_score_to_member v) ([], []))
           in (removed, write_back (\<lambda>ps. mk ps ZSet) now' key (fst z) st)))"

section \<open>The subscription manager\<close>

text \<open>The class \<open>PubSubManager\<close> of \<open>data_store.cpp\<close>.  \<open>manager_entry\<close> is \<open>subscriptions_[channel]\<close>.\<close>

definition manager_entry :: "string \<Rightarrow> pubsub \<Rightarrow> int list \<times> pubsub" where
  "manager_entry channel p =
     (case map_of p channel of Some subs \<Rightarrow> (subs, p) | None \<Rightarrow> ([], AList.update channel [] p))"

definition manager_subscribe :: "int \<Rightarrow> string \<Rightarrow> pubsub \<Rightarrow> pubsub" where
  "manager_subscribe client_fd channel p =
     (let (subs, p1) = manager_entry channel p in AList.update channel (subs @ [client_fd]) p1)"

definition manager_unsubscribe :: "int \<Rightarrow> string \<Rightarrow> pubsub \<Rightarrow> pubsub" where
  "manager_unsubscribe client_fd channel p =
     (let (subs, p1) = manager_entry channel p; subs' = filter (\<lambda>fd. fd \<noteq> client_fd) subs;
          p2 = AList.update channel subs' p1
      in if subs' = [] then AList.delete channel p2 else p2)"

text \<open>The second loop erases the empty channels one by one.\<close>

fun erase_empty :: "pubsub \<Rightarrow> pubsub" where
  "erase_empty [] = []"
| "erase_empty (c # p) = (if snd c = [] then erase_empty p else c # erase_empty p)"

definition manager_unsubscribe_all :: "int \<Rightarrow> pubsub \<Rightarrow> pubsub" where
  "manager_unsubscribe_all client_fd p =
     erase_empty (map (\<lambda>(channel, subs). (channel, filter (\<lambda>fd. fd \<noteq> client_fd) subs)) p)"

definition manager_get_subscribers :: "string \<Rightarrow> pubsub \<Rightarrow> int list" where
  "manager_get_subscribers channel p = (case map_of p channel of Some subs \<Rightarrow> subs | None \<Rightarrow> [])"

definition manager_publish :: "string \<Rightarrow> string \<Rightarrow> pubsub \<Rightarrow> pubsub" where
  "manager_publish channel msg p = p"

section \<open>Every handler is at most one operation of the store\<close>

definition one_op :: "data_store \<Rightarrow> data_store \<Rightarrow> bool" where
  "one_op st st' \<longleftrightarrow> (\<exists>xs. length xs \<le> 1 \<and> st' = fold store_step xs st)"

lemma one_op_refl [simp]: "one_op st st"
  unfolding one_op_def by (rule exI [of _ "[]"]) simp

lemma one_op_step: "one_op st (store_step x st)"
  unfolding one_op_def by (rule exI [of _ "[x]"]) simp

lemma one_op_set [simp]: "one_op st (snd (store_set key v st))"
  using one_op_step [of st "(\<lambda>_. 0, Op_set key v)"] by (simp add: store_step_def)

lemma one_op_del [simp]: "one_op st (snd (store_del now key st))"
  using one_op_step [of st "(\<lambda>_. now, Op_del key)"] by (simp add: store_step_def)

lemma one_op_write_back [simp]: "one_op st (write_back mk now key xs st)"
  by (simp add: write_back_def)

text \<open>The calls that can change the store, with any constructors and clock readings.\<close>

inductive handler_call :: "data_store \<Rightarrow> data_store \<Rightarrow> bool" where
  Store_operation: "handler_call st (store_step x st)"
| String_set: "handler_call st (snd (string_set key val st))"
| String_setrange: "handler_call st (snd (string_setrange mk now key offset val st))"
| List_lpush: "handler_call st (snd (list_lpush now key vals st))"
| List_rpush: "handler_call st (snd (list_rpush mkl now key vals st))"
| List_lpop: "handler_call st (snd (list_lpop mkl now now' key st))"
| List_rpop: "handler_call st (snd (list_rpop mkl now now' key st))"
| List_lset: "handler_call st (snd (list_lset mkl now key index val st))"
| Set_sadd: "handler_call st (snd (set_sadd mks now key vals st))"
| Set_srem: "handler_call st (snd (set_srem mks now now' key vals st))"
| Hash_hset: "handler_call st (snd (hash_hset mkh now key field val st))"
| Hash_hdel: "handler_call st (snd (hash_hdel mkh now now' key vals st))"
| ZSet_zadd: "handler_call st (snd (zset_zadd mkz now key pairs st))"
| ZSet_zrem: "handler_call st (snd (zset_zrem mkz now now' key vals st))"

lemma handler_call_one_op: "handler_call st st' \<Longrightarrow> one_op st st'"
  by (induction rule: handler_call.induct)
    (auto simp: one_op_step string_set_def string_setrange_def list_lpush_def list_rpush_def list_lpop_def list_rpop_def
      list_lset_def set_sadd_def set_srem_def hash_hset_def hash_hdel_def zset_zadd_def zset_zrem_def Let_def case_prod_beta
      split: option.split sum.split)

lemma handler_calls_run:
  "(handler_call ^^ n) st st' \<Longrightarrow> \<exists>xs. length xs \<le> n \<and> st' = fold store_step xs st"
proof (induction n arbitrary: st')
  case (Suc n)
  then obtain st1 where "(handler_call ^^ n) st st1" "handler_call st1 st'" by auto
  then obtain xs ys where "length xs \<le> n" "st1 = fold store_step xs st" "length ys \<le> 1" "st' = fold store_step ys st1"
    using Suc.IH [of st1] handler_call_one_op [of st1 st'] by (auto simp: one_op_def)
  then show ?case by (intro exI [of _ "xs @ ys"]) simp
qed simp

section \<open>Lists\<close>

definition no_expiry :: "string \<Rightarrow> data_store \<Rightarrow> bool" where
  "no_expiry key st \<longleftrightarrow> (case lookup key st of Some kv \<Rightarrow> kv_expiry kv = 0 | None \<Rightarrow> True)"

definition stored_list :: "string \<Rightarrow> data_store \<Rightarrow> string list" where
  "stored_list key st =
     (case lookup key st of Some kv \<Rightarrow> if value_type (kv_value kv) = List then list_val (kv_value kv) else [] | None \<Rightarrow> [])"

definition builds_list :: "(string list \<Rightarrow> redis_value) \<Rightarrow> bool" where
  "builds_list mk \<longleftrightarrow> (\<forall>xs. value_type (mk xs) = List \<and> list_val (mk xs) = xs)"

lemma typed_list_get:
  assumes "no_expiry key st"
  shows "(case typed List (store_get now key st) of Some v \<Rightarrow> list_val v | None \<Rightarrow> []) = stored_list key st"
    "typed List (store_get now key st) = None \<Longrightarrow> stored_list key st = []"
    "typed List (store_get now key st) = Some v \<Longrightarrow> list_val v = stored_list key st"
  using assms by (auto simp: no_expiry_def stored_list_def typed_def store_get_def pair_expired_def split: option.splits if_splits)

lemma stored_list_set:
  "value_type v = List \<Longrightarrow> stored_list key (snd (store_set key v st)) = list_val v"
  "no_expiry key st \<Longrightarrow> no_expiry key (snd (store_set key v st))"
  by (auto simp: stored_list_def store_set_def write_pair_def generate_mod_count_def no_expiry_def make_pair_def
      split: option.split)

lemma stored_list_del:
  assumes "no_expiry key st"
  shows "stored_list key (snd (store_del now key st)) = []" "no_expiry key (snd (store_del now key st))"
  using assms by (auto simp: stored_list_def store_del_def generate_mod_count_def no_expiry_def pair_expired_def
      split: option.split)

lemma stored_list_write_back:
  assumes "no_expiry key st" "builds_list mk"
  shows "stored_list key (write_back mk now key xs st) = xs" "no_expiry key (write_back mk now key xs st)"
  using assms by (auto simp: write_back_def stored_list_set stored_list_del builds_list_def)

lemma list_lset_replaces:
  assumes "builds_list mk" "no_expiry key st" "length (stored_list key st) < 2 ^ 31" "- (2 ^ 31) \<le> index"
  shows "let xs = stored_list key st; i = (if index < 0 then int (length xs) + index else index);
             (ok, st') = list_lset mk now key index val st
         in (ok \<longleftrightarrow> 0 \<le> i \<and> i < int (length xs)) \<and> stored_list key st' = (if ok then xs[nat i := val] else xs)"
proof -
  let ?xs = "stored_list key st"
  let ?i = "if index < 0 then int (length ?xs) + index else index"
  note g = typed_list_get(2,3) [OF assms(2), of now]
  have b: "value_type (mk xs) = List" "list_val (mk xs) = xs" for xs using assms(1) by (simp_all add: builds_list_def)
  have "list_lset mk now key index val st =
      (if ?i < 0 \<or> int (length ?xs) \<le> ?i then (False, st) else (True, snd (store_set key (mk (?xs[nat ?i := val])) st)))"
  proof (cases "typed List (store_get now key st)")
    case None
    then show ?thesis using g(1) by (auto simp: list_lset_def)
  next
    case (Some v)
    moreover have "wrap32 (int (length ?xs) + index) = int (length ?xs) + index" if "index < 0"
      using that assms(3,4) by simp
    ultimately show ?thesis using g(2) [OF Some] by (auto simp: list_lset_def Let_def)
  qed
  then show ?thesis by (simp add: Let_def stored_list_set b)
qed

section \<open>Samples and ranges\<close>

lemma sample_loop_set: "set (sample_loop draw i n xs) \<subseteq> set xs"
  by (induction xs arbitrary: i n) auto

lemma sample_loop_distinct: "distinct xs \<Longrightarrow> distinct (sample_loop draw i n xs)"
  using sample_loop_set by (induction xs arbitrary: i n) fastforce+

lemma sample_loop_length:
  assumes "\<And>i m. draw i m \<le> m"
  shows "n \<le> length xs \<Longrightarrow> length (sample_loop draw i n xs) = n"
proof (induction xs arbitrary: i n)
  case (Cons x xs)
  have "n \<le> length xs" if "\<not> draw i (length xs) < n" using that assms [of i "length xs"] by simp
  then show ?case using Cons by auto
qed simp

text \<open>SRANDMEMBER returns as many different members as were asked for, or all of them: the sign of
  the count makes no difference.\<close>

lemma srandmember_samples:
  assumes "\<And>i m. draw i m \<le> m" "store_get now key st = Some v" "value_type v = Set" "distinct (set_val v)"
    and "length (set_val v) < 2 ^ 31" "- (2 ^ 31) < count"
  shows "\<exists>xs. set_srandmember draw now key count st = Some xs \<and> set xs \<subseteq> set (set_val v) \<and> distinct xs \<and>
    length xs = min (nat \<bar>count\<bar>) (length (set_val v))"
proof -
  let ?n = "min (nat \<bar>count\<bar>) (length (set_val v))"
  have "nat (min count (int (length (set_val v)))) = ?n" if "0 \<le> count" using that by (simp add: min_def)
  moreover have "nat (min (- count) (int (length (set_val v)))) = ?n" if "count < 0" using that by (simp add: min_def)
  ultimately have "set_srandmember draw now key count st = Some (sample_loop draw 0 ?n (set_val v))"
    using assms(2,3,5,6) by (auto simp: set_srandmember_def typed_def Let_def)
  then show ?thesis
    using sample_loop_length [where draw = draw, OF assms(1), of ?n "set_val v" 0] sample_loop_set [of draw 0 ?n "set_val v"]
      sample_loop_distinct [OF assms(4), of draw 0 ?n] by simp
qed

text \<open>SETRANGE overwrites exactly its range and fills a gap behind the old text with zero bytes.\<close>

lemma setrange_overwrites:
  assumes "offset + length val \<le> max_string"
  shows "let s = string_get now key st in
    \<exists>t. string_setrange mk now key offset val st = (Inr (length t), snd (store_set key (mk t) st)) \<and>
      length t = max (length s) (offset + length val) \<and>
      (\<forall>i < length t. t ! i =
         (if offset \<le> i \<and> i < offset + length val then val ! (i - offset)
          else if i < length s then s ! i else char_of (0 :: nat)))"
proof -
  let ?s = "string_get now key st" and ?e = "offset + length val"
  let ?p = "?s @ replicate (?e - length ?s) (char_of (0 :: nat))"
  let ?t = "take offset ?p @ val @ drop ?e ?p"
  have e: "size_wrap (int offset + int (length val)) = ?e"
    using assms by (simp add: size_wrap_def max_string_def flip: of_nat_add)
  have s: "(case typed String (store_get now key st) of Some v \<Rightarrow> str_val v | None \<Rightarrow> []) = ?s"
    by (simp add: string_get_def)
  have r: "(if length ?s < ?e then str_resize ?e ?s else Inr ?s) = Inr ?p"
    using assms by (simp add: str_resize_def)
  have "string_setrange mk now key offset val st = (Inr (length ?t), snd (store_set key (mk ?t) st))"
    unfolding string_setrange_def Let_def e s r by (simp add: str_replace_def)
  moreover have "length ?t = max (length ?s) ?e" by simp
  moreover have "?t ! i = (if offset \<le> i \<and> i < ?e then val ! (i - offset) else if i < length ?s then ?s ! i else char_of (0 :: nat))"
    if "i < length ?t" for i
    using that by (auto simp: nth_append min_def)
  ultimately show ?thesis unfolding Let_def by blast
qed

section \<open>Both subscription managers agree\<close>

lemma erase_empty_filter: "erase_empty p = filter (\<lambda>(c, subs). subs \<noteq> []) p"
  by (induction p) auto

lemma managers_agree:
  "manager_subscribe fd ch p = subscribe fd ch p" "manager_unsubscribe fd ch p = unsubscribe fd ch p"
  "manager_unsubscribe_all fd p = unsubscribe_all fd p" "manager_get_subscribers ch p = get_subscribers ch p"
proof -
  have f: "filter (\<lambda>x. x \<noteq> fd) xs = removeAll fd xs" for xs :: "int list"
    by (simp add: removeAll_filter_not_eq) (metis (mono_tags, lifting))
  show "manager_subscribe fd ch p = subscribe fd ch p"
    by (auto simp: manager_subscribe_def manager_entry_def subscribe_def get_subscribers_def update_update split: option.split)
  show "manager_unsubscribe fd ch p = unsubscribe fd ch p"
    by (auto simp: manager_unsubscribe_def manager_entry_def unsubscribe_def get_subscribers_def update_update f Let_def split: option.split)
  show "manager_unsubscribe_all fd p = unsubscribe_all fd p"
    by (simp add: manager_unsubscribe_all_def unsubscribe_all_def erase_empty_filter f)
qed (simp add: manager_get_subscribers_def get_subscribers_def)

section \<open>Properties\<close>

text \<open>C27. Versions of the alternative store never repeat: whatever calls of the store and of its handlers
  are made after the version of a key has been read, if the entry of the key is then another one
  (also deleted, expired and cleaned up, or deleted and written again), the version is another one
  too, as long as the 64-bit counter does not wrap around.\<close>

theorem handler_versions_detect_changes:
  assumes "store_ok st" "(handler_call ^^ n) st st'" "unat (store_counter st) + n < 2 ^ 64"
    and "lookup k st = Some kv" "lookup k st' \<noteq> lookup k st"
  shows "store_get_mod_count k st' \<noteq> store_get_mod_count k st"
proof -
  obtain xs where "length xs \<le> n" "st' = fold store_step xs st" using handler_calls_run [OF assms(2)] by blast
  then show ?thesis using store_versions_change [OF assms(1) _ assms(4), of xs] assms(3,5) by simp
qed

theorem handler_versions_detect_changes_witness:
  "let st = snd (string_set ''k'' ''a'' make_store); st' = snd (list_lpush 5 ''k'' [''b''] st)
   in store_get_mod_count ''k'' st' \<noteq> store_get_mod_count ''k'' st"
proof -
  let ?st = "snd (string_set ''k'' ''a'' make_store)"
  have d: "store_data ?st = [(''k'', make_pair\<lparr>kv_value := (new_value String)\<lparr>str_val := ''a''\<rparr>, kv_mod_count := 1\<rparr>)]"
    "store_counter ?st = 2"
    by (simp_all add: string_set_def store_set_def make_store_def write_pair_def generate_mod_count_def)
  have "store_ok ?st" unfolding store_ok_def d by (auto simp: word_less_nat_alt)
  moreover have "(handler_call ^^ 1) ?st (snd (list_lpush 5 ''k'' [''b''] ?st))" using handler_call.List_lpush by (auto simp: OO_def)
  moreover have "lookup ''k'' (snd (list_lpush 5 ''k'' [''b''] ?st)) \<noteq> lookup ''k'' ?st"
    by (simp add: list_lpush_def store_set_def d write_pair_def generate_mod_count_def new_value_def make_pair_def Let_def)
  ultimately show ?thesis
    using handler_versions_detect_changes [where st = ?st and n = 1 and k = "''k''"] d by (simp add: Let_def)
qed

text \<open>The list handlers refine sequences: for a key without expiry, whatever the clock says, RPUSH
  and LPUSH extend the stored list at the end and, in the order given, at the front, LPOP and RPOP take one element
  off the list or return the empty string for an empty one.\<close>

theorem list_handlers_refine_sequences:
  assumes "builds_list mk" "no_expiry key st"
  shows "let xs = stored_list key st in
    (let (n, st') = list_rpush mk now key vals st in n = length (xs @ vals) \<and> stored_list key st' = xs @ vals) \<and>
    (let (n, st') = list_lpush now key vals st in n = length (vals @ xs) \<and> stored_list key st' = vals @ xs) \<and>
    (let (x, st') = list_lpop mk now now' key st in x = (if xs = [] then [] else hd xs) \<and> stored_list key st' = tl xs) \<and>
    (let (x, st') = list_rpop mk now now' key st in x = (if xs = [] then [] else last xs) \<and> stored_list key st' = butlast xs)"
proof -
  note g = typed_list_get [OF assms(2), of now]
  have b: "value_type (mk xs) = List" "list_val (mk xs) = xs" for xs using assms(1) by (simp_all add: builds_list_def)
  have "stored_list key (snd (list_rpush mk now key vals st)) = stored_list key st @ vals"
    "stored_list key (snd (list_lpush now key vals st)) = vals @ stored_list key st"
    by (simp_all add: list_rpush_def list_lpush_def Let_def g(1) stored_list_set b new_value_def)
  moreover have "list_lpop mk now now' key st =
      (if stored_list key st = [] then ([], st) else (hd (stored_list key st), write_back mk now' key (tl (stored_list key st)) st))"
    "list_rpop mk now now' key st =
      (if stored_list key st = [] then ([], st) else (last (stored_list key st), write_back mk now' key (butlast (stored_list key st)) st))"
    using g(2,3) by (auto simp: list_lpop_def list_rpop_def split: option.split)
  ultimately show ?thesis
    using stored_list_write_back [OF assms(2,1)]
    by (simp add: Let_def case_prod_beta) (simp add: list_rpush_def list_lpush_def Let_def g(1))
qed

text \<open>ZADD of the alternative store loses members: the ranking is rebuilt in a map from scores to
  members, so of two members with equal scores only the later one is kept, although both are
  reported as added.\<close>

theorem zadd_loses_equal_scores:
  assumes "\<And>ps. value_type (mk ps ZSet) = ZSet \<and> zset_score_to_member (mk ps ZSet) = ps"
    and "lookup key st = None" "a \<noteq> b" "deq s s'"
  shows "let (ok, st') = zset_zadd mk now key [(s, a), (s', b)] st in
    ok \<and> zset_zrange now' key 0 (- 1) False st' = [b]"
proof -
  have e: "\<not> dlt s s'" "\<not> dlt s' s" using assms(4) by (auto simp: dlt_def deq_def)
  have "fst (fold add_pair [(s, a), (s', b)] ([], [])) = [(s, b)]"
    using assms(3) e by (simp add: add_pair_def load_pair_def)
  moreover have "store_get t key st = None" for t using assms(2) by (simp add: store_get_def)
  ultimately have st': "zset_zadd mk now key [(s, a), (s', b)] st = (True, snd (store_set key (mk [(s, b)] ZSet) st))"
    by (simp add: zset_zadd_def typed_def)
  have "store_get now' key (snd (store_set key (mk [(s, b)] ZSet) st)) = Some (mk [(s, b)] ZSet)"
    using assms(2) by (simp add: store_set_def store_get_def write_pair_def generate_mod_count_def make_pair_def pair_expired_def)
  then show ?thesis
    using assms(1) by (simp add: st' zset_zrange_def typed_def range_items_def range_bounds_def slice_def Let_def wrap32_def)
qed

theorem zadd_loses_equal_scores_witness:
  "zset_zrange 1 ''z'' 0 (- 1) False
     (snd (zset_zadd (\<lambda>ps t. (new_value t)\<lparr>zset_score_to_member := ps\<rparr>) 0 ''z'' [(dzero, ''a''), (dzero, ''b'')] make_store)) = [''b'']"
  using zadd_loses_equal_scores [where mk = "\<lambda>ps t. (new_value t)\<lparr>zset_score_to_member := ps\<rparr>" and key = "''z''" and st = make_store
      and a = "''a''" and b = "''b''" and s = dzero and s' = dzero and now = 0 and now' = 1]
  by (simp add: make_store_def new_value_def deq_def dzero_def is_nan_def dbl_mag_def case_prod_beta)

end
