(* ===== verification/Interleaving.thy ===== *)
theory Interleaving
  imports Transactions
begin

text \<open>
  EXEC among other threads.  \<open>handle_exec\<close> says that the queued commands run atomically, but nothing
  locks the keyspace: between the test of two watched keys and between two queued commands any other
  client's command can run.  EXEC is here a thread of its own, one test or one queued command at
  a time; the commands of the other clients are still processed in one piece.
\<close>

section \<open>Interface: a command that reads one key\<close>

locale local_command = command +
  assumes local_entry: "entry (arg args 1) db = entry (arg args 1) db' \<Longrightarrow>
      entry (arg args 1) (snd (h clk args db)) = entry (arg args 1) (snd (h clk args db'))"
    and local_reply: "entry (arg args 1) db = entry (arg args 1) db' \<Longrightarrow> fst (h clk args db) = fst (h clk args db')"
begin

text \<open>On keyspaces that agree on a set of keys with the command's key, it replies the same and they
  agree afterwards.\<close>

lemma local_agree:
  assumes "arg args 1 \<in> K" "\<And>k. k \<in> K \<Longrightarrow> entry k db = entry k db'"
  shows "fst (h clk args db) = fst (h clk args db')"
    "k \<in> K \<Longrightarrow> entry k (snd (h clk args db)) = entry k (snd (h clk args db'))"
proof -
  have key: "entry (arg args 1) db = entry (arg args 1) db'" using assms by blast
  show "fst (h clk args db) = fst (h clk args db')" using key by (rule local_reply)
  show "entry k (snd (h clk args db)) = entry k (snd (h clk args db'))" if "k \<in> K"
    using local_entry [OF key] assms(2) [OF that] by (cases "k = arg args 1") (simp_all add: frame)
qed

end


lemma local_commandI:
  assumes "command h"
    and "\<And>clk args db db'. entry (arg args 1) db = None \<Longrightarrow> entry (arg args 1) db' = None \<Longrightarrow>
      fst (h clk args db) = fst (h clk args db') \<and>
      entry (arg args 1) (snd (h clk args db)) = entry (arg args 1) (snd (h clk args db'))"
    and "\<And>clk args db db' v. entry (arg args 1) db = Some v \<Longrightarrow> entry (arg args 1) db' = Some v \<Longrightarrow>
      fst (h clk args db) = fst (h clk args db') \<and>
      entry (arg args 1) (snd (h clk args db)) = entry (arg args 1) (snd (h clk args db'))"
  shows "local_command h"
proof (intro local_command.intro local_command_axioms.intro assms(1))
  fix args db db' clk
  assume eq: "entry (arg args 1) db = entry (arg args 1) db'"
  have "fst (h clk args db) = fst (h clk args db') \<and>
      entry (arg args 1) (snd (h clk args db)) = entry (arg args 1) (snd (h clk args db'))"
  proof (cases "entry (arg args 1) db'")
    case None
    then show ?thesis using eq by (intro assms(2)) simp_all
  next
    case (Some v)
    then show ?thesis using eq by (intro assms(3)) simp_all
  qed
  then show "entry (arg args 1) (snd (h clk args db)) = entry (arg args 1) (snd (h clk args db'))"
    "fst (h clk args db) = fst (h clk args db')" by simp_all
qed

lemmas local_defs = db_defs db_zadd_def db_zrem_def db_zcard_def db_zrange_def db_zrevrange_def db_zscore_def db_zrank_def
  scores_of_entry_def ranking_of_entry_def db_sismember_def db_scard_def db_smembers_def db_hget_def db_hlen_def db_hkeys_def
  db_hvals_def db_hgetall_def db_lrange_def db_lindex_def count_mod_def case_prod_beta Let_def pop_reply_def

lemmas handler_defs =
  handle_set_def handle_get_def handle_del_def handle_exists_def handle_type_def handle_lpush_def
  handle_rpush_def handle_rpop_def handle_llen_def handle_lrange_def handle_lindex_def handle_sadd_def
  handle_srem_def handle_sismember_def handle_scard_def handle_smembers_def handle_hget_def
  handle_hdel_def handle_hlen_def handle_hkeys_def handle_hvals_def handle_hgetall_def handle_zadd_def
  handle_zrem_def handle_zcard_def handle_zrange_def handle_zrevrange_def handle_zscore_def handle_zrank_def
  handle_expire_def handle_pexpire_def handle_ttl_def handle_pttl_def handle_persist_def

lemma local_lpop: "local_command handle_lpop"
proof (rule local_commandI [OF lpop_cmd.command_axioms], goal_cases)
  case (2 clk args db db' v)
  then show ?case by (cases "list_val v") (simp_all add: handle_lpop_def local_defs split: option.split)
qed (simp add: handle_lpop_def local_defs)

lemma hset_loop_local:
  "entry key db = entry key db' \<Longrightarrow> fst (hset_loop key rest n db) = fst (hset_loop key rest n db') \<and>
     entry key (snd (hset_loop key rest n db)) = entry key (snd (hset_loop key rest n db'))"
proof (induction rest arbitrary: n db db' rule: induct_list012)
  case (3 f x rest)
  have "entry key (snd (db_hset key s t db)) = entry key (snd (db_hset key s t db'))"
    "fst (db_hset key s t db) = fst (db_hset key s t db')" for s t
    using 3(3) by (simp_all add: db_hset_def Let_def)
  then show ?case using 3(1) [of "snd (db_hset key (resp_str f) (resp_str x) db)" "snd (db_hset key (resp_str f) (resp_str x) db')"] 3(3)
    by (simp add: case_prod_beta Let_def)
qed simp_all

lemma local_hset: "local_command handle_hset"
proof (rule local_commandI [OF hset_cmd.command_axioms], goal_cases)
  case (1 clk args db db')
  then show ?case
    using hset_loop_local [where key = "arg args 1" and db = db and db' = db' and rest = "drop 2 args" and n = 0]
    by (simp add: handle_hset_def local_defs split: option.split)
next
  case (2 clk args db db' v)
  then show ?case
    using hset_loop_local [where key = "arg args 1" and db = db and db' = db' and rest = "drop 2 args" and n = 0]
    by (simp add: handle_hset_def local_defs split: option.split)
qed

lemma local_commands:
  "local_command handle_set" "local_command handle_get" "local_command handle_del"
  "local_command handle_exists" "local_command handle_type" "local_command handle_lpush"
  "local_command handle_rpush" "local_command handle_rpop" "local_command handle_llen"
  "local_command handle_lrange" "local_command handle_lindex" "local_command handle_sadd"
  "local_command handle_srem" "local_command handle_sismember" "local_command handle_scard"
  "local_command handle_smembers" "local_command handle_hget"
  "local_command handle_hdel" "local_command handle_hlen" "local_command handle_hkeys"
  "local_command handle_hvals" "local_command handle_hgetall" "local_command handle_zadd"
  "local_command handle_zrem" "local_command handle_zcard" "local_command handle_zrange"
  "local_command handle_zrevrange" "local_command handle_zscore" "local_command handle_zrank"
  "local_command handle_expire" "local_command handle_pexpire" "local_command handle_ttl"
  "local_command handle_pttl" "local_command handle_persist"
  by (rule local_commandI, rule commands, simp add: handler_defs local_defs split: option.split sum.split,
      simp add: handler_defs local_defs split: option.split sum.split)+

definition reads_many :: "string \<Rightarrow> bool" where
  "reads_many name \<longleftrightarrow> name \<in> {''KEYS'', ''SINTER'', ''SUNION'', ''SDIFF''}"

lemma all_local: "list_all (\<lambda>(name, h). reads_many name \<or> local_command h) (queued_commands @ expiry_commands)"
  by (simp add: queued_commands_def expiry_commands_def reads_many_def local_commands local_lpop local_hset)

lemma table_local: "(name, h) \<in> set (queued_commands @ expiry_commands) \<Longrightarrow> \<not> reads_many name \<Longrightarrow> local_command h"
  using all_local unfolding list_all_iff by blast

interpretation set_local: local_command handle_set by (rule local_commands)

interpretation get_local: local_command handle_get by (rule local_commands)

section \<open>EXEC as a thread\<close>

text \<open>Where the thread is: at the watched keys still to test, at the queued commands still to run with
  the results so far, or behind its reply.\<close>

datatype exec_point =
    Check_watch "(string \<times> 64 word) list"
  | Run_next nat "(string \<times> cmd_args) list" "string list"
  | Replied string

definition exec_begin :: "cmd_args \<Rightarrow> 'l processor \<Rightarrow> exec_point" where
  "exec_begin args p =
     (if length args \<noteq> 1 then Replied (err ''EXEC requires no arguments'')
      else if \<not> in_transaction p then Replied (err ''EXEC without MULTI'')
      else Check_watch (watched_keys p))"

fun exec_move :: "'l environment \<Rightarrow> 'l processor \<Rightarrow> exec_point \<Rightarrow> 'l server \<Rightarrow> exec_point \<times> 'l server" where
  "exec_move env p (Check_watch []) srv = (Run_next 0 (transaction_queue p) [], srv)"
| "exec_move env p (Check_watch ((key, n) # ws)) srv =
     (if db_get_mod_count key (keyspace srv) \<noteq> n
      then Replied (minus_reply ''EXECABORT Transaction discarded because of watched key modification'')
      else Check_watch ws, srv)"
| "exec_move env p (Run_next i [] results) srv =
     (Replied (''*'' @ size_string (length results) @ CRLF @ concat results), srv)"
| "exec_move env p (Run_next i (c # cs) results) srv =
     (let (r, srv') = run_queued env i c srv in (Run_next (Suc i) cs (results @ [r]), srv'))"
| "exec_move env p (Replied r) srv = (Replied r, srv)"

text \<open>A turn is a move of the thread or a whole command of another client.\<close>

datatype 'l turn = Own | Other "'l environment" int RespValue

fun exec_turn :: "'l environment \<Rightarrow> 'l processor \<Rightarrow> exec_point \<times> 'l server \<Rightarrow> 'l turn \<Rightarrow> exec_point \<times> 'l server" where
  "exec_turn env p (pt, srv) Own = exec_move env p pt srv"
| "exec_turn env p (pt, srv) (Other env' fd cmd) = (pt, snd (process_command env' fd cmd srv))"

text \<open>What the thread would reply and leave behind if it went on undisturbed.\<close>

fun exec_finish :: "'l environment \<Rightarrow> 'l processor \<Rightarrow> exec_point \<Rightarrow> 'l server \<Rightarrow> string \<times> 'l server" where
  "exec_finish env p (Replied r) srv = (r, srv)"
| "exec_finish env p (Run_next i cs results) srv =
     (let (rs, srv') = run_queue env i cs srv
      in (''*'' @ size_string (length (results @ rs)) @ CRLF @ concat (results @ rs), srv'))"
| "exec_finish env p (Check_watch ws) srv =
     (if list_ex (\<lambda>(key, n). db_get_mod_count key (keyspace srv) \<noteq> n) ws
      then (minus_reply ''EXECABORT Transaction discarded because of watched key modification'', srv)
      else let (rs, srv') = run_queue env 0 (transaction_queue p) srv
           in (''*'' @ size_string (length rs) @ CRLF @ concat rs, srv'))"

lemma exec_finish_begin:
  "exec_finish env p (exec_begin args p) srv = (fst (handle_exec env args p srv), snd (snd (handle_exec env args p srv)))"
  by (simp add: exec_begin_def handle_exec_def watch_broken_def case_prod_beta Let_def)

lemma exec_finish_move: "exec_finish env p (fst (exec_move env p pt srv)) (snd (exec_move env p pt srv)) = exec_finish env p pt srv"
  by (induction env p pt srv rule: exec_move.induct) (simp_all add: case_prod_beta Let_def)

text \<open>Undisturbed, the thread replies after as many moves as there are watched keys and queued
  commands, and two more.\<close>

fun moves_left :: "'l processor \<Rightarrow> exec_point \<Rightarrow> nat" where
  "moves_left p (Check_watch ws) = length ws + length (transaction_queue p) + 2"
| "moves_left p (Run_next i cs results) = length cs + 1"
| "moves_left p (Replied r) = 0"

lemma moves_left_move: "moves_left p (fst (exec_move env p pt srv)) \<le> moves_left p pt - 1"
  by (induction env p pt srv rule: exec_move.induct) (simp_all add: case_prod_beta Let_def)

lemma moves_left_0: "moves_left p pt = 0 \<longleftrightarrow> (\<exists>r. pt = Replied r)"
  by (cases pt) auto

lemma moves_left_turns:
  "moves_left p pt \<le> length (filter (\<lambda>t. t = Own) ts) \<Longrightarrow>
     \<exists>r srv'. run_machine (exec_turn env p) (pt, srv) ts = (Replied r, srv')"
proof (induction ts arbitrary: pt srv)
  case Nil
  then show ?case by (simp add: moves_left_0)
next
  case (Cons t ts)
  show ?case
  proof (cases t)
    case Own
    then show ?thesis
      using Cons.IH [of "fst (exec_move env p pt srv)" "snd (exec_move env p pt srv)"] moves_left_move [of p env pt srv] Cons.prems
      by simp
  next
    case (Other env' fd cmd)
    then show ?thesis using Cons by simp
  qed
qed

section \<open>Isolation\<close>

text \<open>The keys a transaction reads or writes.\<close>

definition command_keys :: "(string \<times> cmd_args) list \<Rightarrow> string list" where
  "command_keys cs = map (\<lambda>(name, args). arg args 1) (filter (\<lambda>(name, args). name \<in> set (map fst queued_commands)) cs)"

definition transaction_keys :: "'l processor \<Rightarrow> string list" where
  "transaction_keys p = map fst (watched_keys p) @ command_keys (transaction_queue p)"

text \<open>A data command of another client on a key that is not among them.\<close>

fun stays_off :: "string set \<Rightarrow> 'l turn \<Rightarrow> bool" where
  "stays_off K Own \<longleftrightarrow> True"
| "stays_off K (Other env fd cmd) \<longleftrightarrow>
     resp_array cmd \<noteq> [] \<and> upper (arg (resp_array cmd) 0) \<in> set (map fst (queued_commands @ expiry_commands)) \<and>
     arg (resp_array cmd) 1 \<notin> K"

definition agree :: "string set \<Rightarrow> 'l server \<Rightarrow> 'l server \<Rightarrow> bool" where
  "agree K srv srv' \<longleftrightarrow> (\<forall>k\<in>K. entry k (keyspace srv) = entry k (keyspace srv'))"

lemma agree_refl [simp]: "agree K srv srv"
  by (simp add: agree_def)

lemma agree_sym: "agree K srv srv' \<Longrightarrow> agree K srv' srv"
  by (simp add: agree_def)

lemma agree_trans: "agree K srv srv' \<Longrightarrow> agree K srv' srv'' \<Longrightarrow> agree K srv srv''"
  by (simp add: agree_def)

lemma stays_off_agree:
  assumes "stays_off K (Other env fd cmd)"
  shows "agree K srv (snd (process_command env fd cmd srv))"
proof -
  have "upper (arg (resp_array cmd) 0) \<in> fst ` set (queued_commands @ expiry_commands)" using assms by (simp add: image_Un)
  then obtain h where h: "map_of (queued_commands @ expiry_commands) (upper (arg (resp_array cmd) 0)) = Some h"
    by (metis map_of_eq_None_iff not_None_eq)
  have "entry k (keyspace (snd (on_keyspace h clk (resp_array cmd) srv))) = entry k (keyspace srv)" if "k \<in> K" for k clk
    using command.frame [OF table_map_of [OF h], of k "resp_array cmd"] that assms
    by (auto simp: on_keyspace_def case_prod_beta Let_def)
  then show ?thesis
    using h by (auto simp: process_command_def execute_def agree_def on_client_def case_prod_beta Let_def
        split: option.split simp del: map_of_append)
qed

lemma agree_run_queued:
  assumes "agree K srv srv'" "set (command_keys [c]) \<subseteq> K" "\<not> reads_many (fst c)"
  shows "fst (run_queued env i c srv) = fst (run_queued env i c srv')"
    "agree K (snd (run_queued env i c srv)) (snd (run_queued env i c srv'))"
proof -
  obtain name args where c: "c = (name, args)" by (cases c)
  have "fst (run_queued env i c srv) = fst (run_queued env i c srv') \<and>
      agree K (snd (run_queued env i c srv)) (snd (run_queued env i c srv'))"
  proof (cases "name = ''SAVE'' \<or> map_of queued_commands name = None")
    case True
    then show ?thesis
      using assms(1) by (auto simp: c run_queued_def handle_save_def save_rdb_def agree_def)
  next
    case False
    then obtain h where h: "map_of queued_commands name = Some h" "name \<noteq> ''SAVE''" by blast
    then have mem: "(name, h) \<in> set (queued_commands @ expiry_commands)" by (auto dest: map_of_SomeD)
    then have "local_command h" using assms(3) c by (intro table_local) auto
    note la = local_command.local_agree [OF this, where args = args and K = K and db = "keyspace srv" and db' = "keyspace srv'"
        and clk = "clocks env i"]
    have "arg args 1 \<in> K"
      using assms(2) map_of_SomeD [OF h(1)] by (auto simp: c command_keys_def image_iff split: if_splits)
    then show ?thesis
      using la assms(1) h by (auto simp: c run_queued_def on_keyspace_def agree_def case_prod_beta Let_def)
  qed
  then show "fst (run_queued env i c srv) = fst (run_queued env i c srv')"
    "agree K (snd (run_queued env i c srv)) (snd (run_queued env i c srv'))" by simp_all
qed

lemma agree_run_queue:
  assumes "agree K srv srv'" "set (command_keys cs) \<subseteq> K" "list_all (\<lambda>c. \<not> reads_many (fst c)) cs"
  shows "fst (run_queue env i cs srv) = fst (run_queue env i cs srv') \<and>
    agree K (snd (run_queue env i cs srv)) (snd (run_queue env i cs srv'))"
  using assms
proof (induction cs arbitrary: i srv srv')
  case (Cons c cs)
  have "set (command_keys [c]) \<subseteq> K" "set (command_keys cs) \<subseteq> K"
    using Cons.prems(2) by (auto simp: command_keys_def split: if_splits)
  then show ?case
    using agree_run_queued [OF Cons.prems(1), of c env i] Cons.IH [of "snd (run_queued env i c srv)" "snd (run_queued env i c srv')" "Suc i"]
      Cons.prems(3) by (simp add: case_prod_beta Let_def)
qed simp

fun point_keys :: "'l processor \<Rightarrow> exec_point \<Rightarrow> string list" where
  "point_keys p (Check_watch ws) = map fst ws @ command_keys (transaction_queue p)"
| "point_keys p (Run_next i cs results) = command_keys cs"
| "point_keys p (Replied r) = []"

fun point_commands :: "'l processor \<Rightarrow> exec_point \<Rightarrow> (string \<times> cmd_args) list" where
  "point_commands p (Check_watch ws) = transaction_queue p"
| "point_commands p (Run_next i cs results) = cs"
| "point_commands p (Replied r) = []"

lemma point_move:
  "set (point_keys p (fst (exec_move env p pt srv))) \<subseteq> set (point_keys p pt)"
  "set (point_commands p (fst (exec_move env p pt srv))) \<subseteq> set (point_commands p pt)"
  by (induction env p pt srv rule: exec_move.induct) (auto simp: case_prod_beta Let_def command_keys_def)

lemma agree_finish:
  assumes "agree K srv srv'" "set (point_keys p pt) \<subseteq> K" "list_all (\<lambda>c. \<not> reads_many (fst c)) (point_commands p pt)"
  shows "fst (exec_finish env p pt srv) = fst (exec_finish env p pt srv') \<and>
    agree K (snd (exec_finish env p pt srv)) (snd (exec_finish env p pt srv'))"
proof (cases pt)
  case (Check_watch ws)
  have "list_ex (\<lambda>(key, n). db_get_mod_count key (keyspace srv) \<noteq> n) ws =
      list_ex (\<lambda>(key, n). db_get_mod_count key (keyspace srv') \<noteq> n) ws"
    unfolding list_ex_iff using assms(1,2)
    by (intro bex_cong refl) (fastforce simp: Check_watch agree_def db_get_mod_count_def)
  then show ?thesis
    using agree_run_queue [OF assms(1), of "transaction_queue p" env 0] assms
    by (auto simp: Check_watch case_prod_beta Let_def)
next
  case (Run_next i cs results)
  then show ?thesis
    using agree_run_queue [OF assms(1), of cs env i] assms by (simp add: case_prod_beta Let_def)
qed (use assms in simp)

lemma isolated_turns:
  assumes "set (point_keys p pt) \<subseteq> K" "list_all (\<lambda>c. \<not> reads_many (fst c)) (point_commands p pt)"
    and "list_all (stays_off K) ts" "run_machine (exec_turn env p) (pt, srv) ts = (Replied r, srv')"
  shows "r = fst (exec_finish env p pt srv) \<and> agree K srv' (snd (exec_finish env p pt srv))"
  using assms
proof (induction ts arbitrary: pt srv)
  case (Cons t ts)
  show ?case
  proof (cases t)
    case Own
    let ?m = "exec_move env p pt srv"
    have "set (point_keys p (fst ?m)) \<subseteq> K" "list_all (\<lambda>c. \<not> reads_many (fst c)) (point_commands p (fst ?m))"
      using point_move [of p env pt srv] Cons.prems(1,2) unfolding list_all_iff by blast+
    then show ?thesis
      using Cons.IH [of "fst ?m" "snd ?m"] Cons.prems(3,4) exec_finish_move [of env p pt srv] by (simp add: Own)
  next
    case (Other env' fd cmd)
    let ?srv = "snd (process_command env' fd cmd srv)"
    have "agree K srv ?srv" using Cons.prems(3) by (intro stays_off_agree) (simp add: Other)
    then have "fst (exec_finish env p pt srv) = fst (exec_finish env p pt ?srv) \<and>
        agree K (snd (exec_finish env p pt srv)) (snd (exec_finish env p pt ?srv))"
      using Cons.prems(1,2) by (intro agree_finish)
    moreover have "r = fst (exec_finish env p pt ?srv) \<and> agree K srv' (snd (exec_finish env p pt ?srv))"
      using Cons.prems by (intro Cons.IH) (simp_all add: Other)
    ultimately show ?thesis by (auto intro: agree_trans agree_sym)
  qed
qed simp


section \<open>Others' commands commute with the thread\<close>

text \<open>The servers also have the same clients and the same cluster configuration, which decide how
  a command of another client is processed.\<close>

definition alike :: "string set \<Rightarrow> 'l server \<Rightarrow> 'l server \<Rightarrow> bool" where
  "alike K srv srv' \<longleftrightarrow> agree K srv srv' \<and> clients srv = clients srv' \<and> cluster srv = cluster srv'"

lemma alike_refl [simp]: "alike K srv srv"
  by (simp add: alike_def)

lemma alike_trans: "alike K srv srv' \<Longrightarrow> alike K srv' srv'' \<Longrightarrow> alike K srv srv''"
  by (auto simp: alike_def intro: agree_trans)

lemma alike_sym: "alike K srv srv' \<Longrightarrow> alike K srv' srv"
  by (auto simp: alike_def intro: agree_sym)

text \<open>The commands that read many keys write none.\<close>

lemma reads_many_pure:
  assumes "(name, h) \<in> set (queued_commands @ expiry_commands)" "reads_many name"
  shows "snd (h clk args db) = db"
proof -
  have "list_all (\<lambda>(n, h). reads_many n \<longrightarrow> (\<forall>clk args db. snd (h clk args db) = db)) (queued_commands @ expiry_commands)"
    by (simp add: queued_commands_def expiry_commands_def reads_many_def handle_keys_def handle_sinter_def handle_sunion_def
        handle_sdiff_def Let_def split: option.split)
  then show ?thesis using assms unfolding list_all_iff by blast
qed

lemma table_entry:
  assumes "map_of (queued_commands @ expiry_commands) name = Some h" "arg args 1 \<in> K" "agree K srv srv'" "k \<in> K"
  shows "entry k (snd (h clk args (keyspace srv))) = entry k (snd (h clk args (keyspace srv')))"
proof (cases "reads_many name")
  case True
  then show ?thesis using reads_many_pure [OF map_of_SomeD [OF assms(1)]] assms(3,4) by (simp add: agree_def)
next
  case False
  then have "local_command h" by (rule table_local [OF map_of_SomeD [OF assms(1)]])
  then show ?thesis using assms(2-4) by (intro local_command.local_agree(2)) (auto simp: agree_def)
qed

lemma other_alike:
  assumes "stays_off K (Other env fd cmd)" "alike (- K) srv srv'"
  shows "alike (- K) (snd (process_command env fd cmd srv)) (snd (process_command env fd cmd srv'))"
proof -
  let ?a = "resp_array cmd"
  have "upper (arg ?a 0) \<in> fst ` set (queued_commands @ expiry_commands)" using assms by (simp add: image_Un)
  then obtain h where h: "map_of (queued_commands @ expiry_commands) (upper (arg ?a 0)) = Some h"
    by (metis map_of_eq_None_iff not_None_eq)
  have "entry k (snd (h clk ?a (keyspace srv))) = entry k (snd (h clk ?a (keyspace srv')))" if "k \<notin> K" for k clk
    using table_entry [OF h, of ?a "- K" srv srv' k clk] assms that by (simp add: alike_def)
  moreover have "client fd srv = client fd srv'" using assms(2) by (simp add: client_def alike_def)
  moreover have "moved env (upper (arg ?a 0)) ?a srv = moved env (upper (arg ?a 0)) ?a srv'"
    using assms(2) by (intro moved_cong) (simp add: alike_def)
  ultimately show ?thesis
    using h assms(2) by (auto simp: process_command_def execute_def alike_def agree_def on_client_def on_keyspace_def
        set_client_def case_prod_beta Let_def split: option.split simp del: map_of_append)
qed

lemma run_queued_alike: "set (command_keys [c]) \<subseteq> K \<Longrightarrow> alike (- K) (snd (run_queued env i c srv)) srv"
proof -
  assume keys: "set (command_keys [c]) \<subseteq> K"
  obtain name args where c: "c = (name, args)" by (cases c)
  have "entry k (snd (h clk args db)) = entry k db" if "map_of queued_commands name = Some h" "k \<notin> K" for h clk db k
  proof (rule command.frame)
    show "command h" using that(1) by (intro table_map_of [of name]) (simp add: map_add_def)
    show "k \<noteq> arg args 1"
      using keys that map_of_SomeD [OF that(1)] by (auto simp: c command_keys_def image_iff split: if_splits)
  qed
  then show ?thesis
    by (auto simp: c run_queued_def handle_save_def save_rdb_def alike_def agree_def on_keyspace_def case_prod_beta Let_def
        split: option.split)
qed

lemma run_queue_alike: "set (command_keys cs) \<subseteq> K \<Longrightarrow> alike (- K) (snd (run_queue env i cs srv)) srv"
proof (induction cs arbitrary: i srv)
  case (Cons c cs)
  have "set (command_keys [c]) \<subseteq> K" "set (command_keys cs) \<subseteq> K"
    using Cons.prems by (auto simp: command_keys_def split: if_splits)
  then show ?case
    using alike_trans [OF Cons.IH run_queued_alike] by (simp add: case_prod_beta Let_def)
qed simp

lemma exec_finish_alike: "set (point_keys p pt) \<subseteq> K \<Longrightarrow> alike (- K) (snd (exec_finish env p pt srv)) srv"
  by (cases pt) (auto simp: run_queue_alike case_prod_beta Let_def)

lemma exec_move_alike: "set (point_keys p pt) \<subseteq> K \<Longrightarrow> alike (- K) (snd (exec_move env p pt srv)) srv"
proof (induction env p pt srv rule: exec_move.induct)
  case (4 env p i c cs results srv)
  then have "set (command_keys [c]) \<subseteq> K" by (auto simp: command_keys_def split: if_splits)
  then show ?case using run_queued_alike by (simp add: case_prod_beta Let_def)
qed simp_all

text \<open>The commands of the other clients alone.\<close>

fun other_turn :: "'l server \<Rightarrow> 'l turn \<Rightarrow> 'l server" where
  "other_turn srv Own = srv"
| "other_turn srv (Other env fd cmd) = snd (process_command env fd cmd srv)"

lemma others_agree: "list_all (stays_off K) ts \<Longrightarrow> agree K srv (run_machine other_turn srv ts)"
proof (induction ts arbitrary: srv)
  case (Cons t ts)
  have "agree K srv (other_turn srv t)"
  proof (cases t)
    case (Other env fd cmd)
    then show ?thesis using Cons.prems stays_off_agree [of K env fd cmd srv] by simp
  qed simp
  then show ?case using Cons agree_trans by (simp, blast)
qed simp

lemma others_alike:
  assumes "set (point_keys p pt) \<subseteq> K" "list_all (stays_off K) ts" "alike (- K) srv srv0"
  shows "alike (- K) (snd (run_machine (exec_turn env p) (pt, srv) ts)) (run_machine other_turn srv0 ts)"
  using assms
proof (induction ts arbitrary: pt srv srv0)
  case (Cons t ts)
  show ?case
  proof (cases t)
    case Own
    let ?m = "exec_move env p pt srv"
    have "set (point_keys p (fst ?m)) \<subseteq> K" using point_move(1) [of p env pt srv] Cons.prems(1) by blast
    moreover have "alike (- K) (snd ?m) srv0" using exec_move_alike [OF Cons.prems(1)] Cons.prems(3) by (rule alike_trans)
    ultimately show ?thesis using Cons.IH [of "fst ?m" "snd ?m" srv0] Cons.prems(2) by (simp add: Own)
  next
    case (Other env' fd cmd)
    then show ?thesis
      using Cons.IH [OF Cons.prems(1) _ other_alike [of K env' fd cmd srv srv0]] Cons.prems(2,3) by (simp add: Other)
  qed
qed simp

section \<open>Properties\<close>

text \<open>C7. EXEC is serializable as long as nobody else touches its keys: when the other clients' commands
  that run between the tests of the watched keys and between the queued commands are data commands
  on keys the transaction neither watches nor names, and no queued command reads further keys (KEYS and the set
  operations do), EXEC replies after a bounded number of its own moves, it replies what it would have
  replied in one piece, and every key ends as if the other commands had all run after it.\<close>

theorem exec_serializable:
  assumes "list_all (\<lambda>c. \<not> reads_many (fst c)) (transaction_queue p)"
    and "list_all (stays_off (set (transaction_keys p))) ts"
    and "length (watched_keys p) + length (transaction_queue p) + 2 \<le> length (filter (\<lambda>t. t = Own) ts)"
  shows "\<exists>srv'. run_machine (exec_turn env p) (exec_begin args p, srv) ts = (Replied (fst (handle_exec env args p srv)), srv') \<and>
    (\<forall>k. entry k (keyspace srv') = entry k (keyspace (run_machine other_turn (snd (snd (handle_exec env args p srv))) ts)))"
proof -
  let ?K = "set (transaction_keys p)" and ?pt = "exec_begin args p"
  let ?fin = "snd (snd (handle_exec env args p srv))"
  have fin: "exec_finish env p ?pt srv = (fst (handle_exec env args p srv), ?fin)" by (rule exec_finish_begin)
  have keys: "set (point_keys p ?pt) \<subseteq> ?K" and cmds: "list_all (\<lambda>c. \<not> reads_many (fst c)) (point_commands p ?pt)"
    and "moves_left p ?pt \<le> length (filter (\<lambda>t. t = Own) ts)"
    using assms(1,3) by (simp_all add: exec_begin_def transaction_keys_def)
  then obtain r srv' where run: "run_machine (exec_turn env p) (?pt, srv) ts = (Replied r, srv')"
    using moves_left_turns by blast
  have r: "r = fst (handle_exec env args p srv)" and on: "agree ?K srv' ?fin"
    using isolated_turns [OF keys cmds assms(2) run] unfolding fin fst_conv snd_conv by simp_all
  have "agree ?K srv' (run_machine other_turn ?fin ts)" using on others_agree [OF assms(2)] by (rule agree_trans)
  moreover have "alike (- ?K) srv ?fin" 
    using exec_finish_alike [OF keys, of env srv] unfolding fin snd_conv by (rule alike_sym)
  then have "agree (- ?K) srv' (run_machine other_turn ?fin ts)"
    using others_alike [OF keys assms(2), of srv ?fin env] unfolding run snd_conv alike_def by blast
  ultimately have "entry k (keyspace srv') = entry k (keyspace (run_machine other_turn ?fin ts))" for k
    by (cases "k \<in> ?K") (simp_all add: agree_def)
  then show ?thesis using run r by blast
qed

definition sample_tx :: "unit processor" where
  "sample_tx = (make_processor 6 ())\<lparr>in_transaction := True, watched_keys := [(''name'', 0)],
     transaction_queue := [(''SET'', map bulk [''SET'', ''a'', ''1'']), (''GET'', map bulk [''GET'', ''name''])]\<rparr>"

lemma sample_tx_simps [simp]:
  "in_transaction sample_tx" "watched_keys sample_tx = [(''name'', 0)]"
  "transaction_queue sample_tx = [(''SET'', map bulk [''SET'', ''a'', ''1'']), (''GET'', map bulk [''GET'', ''name''])]"
  by (simp_all add: sample_tx_def)

theorem exec_serializable_witness:
  "let set_b = Other sample_env 5 (request [''SET'', ''b'', ''2'']); ts = [Own, set_b, Own, Own, set_b, Own, Own]
   in \<exists>srv'. run_machine (exec_turn sample_env sample_tx) (exec_begin [bulk ''EXEC''] sample_tx, sample_server) ts =
       (Replied (fst (handle_exec sample_env [bulk ''EXEC''] sample_tx sample_server)), srv')"
proof -
  define set_b where "set_b = Other sample_env 5 (request [''SET'', ''b'', ''2''])"
  have "set (transaction_keys sample_tx) = {''name'', ''a''}"
    by (auto simp: transaction_keys_def command_keys_def queued_commands_def)
  then have "stays_off (set (transaction_keys sample_tx)) set_b" "set_b \<noteq> Own"
    by (simp_all add: set_b_def queued_commands_def)
  then show ?thesis
    using exec_serializable [where p = sample_tx and env = sample_env and args = "[bulk ''EXEC'']" and srv = sample_server
        and ts = "[Own, set_b, Own, Own, set_b, Own, Own]"]
    unfolding set_b_def [symmetric] Let_def by (auto simp: reads_many_def simp del: run_machine.simps)
qed

text \<open>C38. The window of WATCH: with an unchanged watched key, a SET of that key by another client after the test of the watches
  and before the queued GET is not noticed.  EXEC answers with the other client's value,
  although in one piece it answers with the old value when it runs before the SET and
  aborts when it runs after it.\<close>

theorem watch_window:
  assumes "in_transaction p" "watched_keys p = [(k, db_get_mod_count k (keyspace srv))]"
    and "transaction_queue p = [(''GET'', map bulk [''GET'', k])]"
    and "\<not> in_transaction (client fd srv)" "moved env' ''SET'' (map bulk [''SET'', k, s]) srv = None"
    and "entry k (keyspace srv) = Some v" "value_type v = String" "expiry_time v = 0"
  shows "let exec = [bulk ''EXEC'']; set = request [''SET'', k, s]; srv1 = snd (process_command env' fd set srv) in
    fst (run_machine (exec_turn env p) (exec_begin exec p, srv) [Own, Own, Other env' fd set, Own, Own]) =
        Replied (''*1'' @ CRLF @ bulk_reply s) \<and>
    fst (handle_exec env exec p srv) = ''*1'' @ CRLF @ bulk_reply (str_val v) \<and>
    fst (handle_exec env exec p srv1) =
        minus_reply ''EXECABORT Transaction discarded because of watched key modification''"
proof -
  let ?srv1 = "snd (process_command env' fd (request [''SET'', k, s]) srv)"
  have srv1: "entry k (keyspace ?srv1) = Some (v\<lparr>str_val := s, mod_count := mod_count v + 1\<rparr>)"
    using assms(4-8) by (simp add: process_command_def execute_def on_keyspace_def handle_set_def db_set_def db_increment_mod_count_def
        at_key_def queued_commands_def expiry_commands_def map_add_def case_prod_beta Let_def)
  have get: "fst (run_queued env i (''GET'', map bulk [''GET'', k]) srv') = bulk_reply (str_val w)"
    if "entry k (keyspace srv') = Some w" "value_type w = String" "expiry_time w = 0" for i srv' w
    using that by (simp add: run_queued_def queued_commands_def on_keyspace_def handle_get_def db_defs is_expired_def
        case_prod_beta Let_def)
  show ?thesis
    using assms(1-3,6-8) get [of srv v 0] get [of ?srv1 _ 0] srv1
    by (simp add: exec_begin_def handle_exec_def watch_broken_def db_get_mod_count_def case_prod_beta Let_def to_string_def nat_digits.simps digit_char_def char_of_def bit_0)
qed

theorem watch_window_witness:
  "let srv = sample_server\<lparr>keyspace := snd (db_set ''name'' ''old'' empty_db)\<rparr>;
       p = sample_tx\<lparr>transaction_queue := [(''GET'', map bulk [''GET'', ''name''])]\<rparr>;
       set = request [''SET'', ''name'', ''new'']
   in fst (run_machine (exec_turn sample_env p) (exec_begin [bulk ''EXEC''] p, srv) [Own, Own, Other sample_env 5 set, Own, Own]) =
        Replied (''*1'' @ CRLF @ bulk_reply ''new'')"
proof -
  let ?srv = "sample_server\<lparr>keyspace := snd (db_set ''name'' ''old'' empty_db)\<rparr>"
  let ?p = "sample_tx\<lparr>transaction_queue := [(''GET'', map bulk [''GET'', ''name''])]\<rparr>"
  have v: "entry ''name'' (keyspace ?srv) = Some ((new_value String)\<lparr>str_val := ''old''\<rparr>)"
    by (simp add: db_set_def at_key_def empty_db_def)
  then have "db_get_mod_count ''name'' (keyspace ?srv) = 0" by (simp add: db_get_mod_count_def new_value_def)
  moreover have "\<not> in_transaction (client 5 ?srv)" "moved sample_env ''SET'' args ?srv = None" for args
    by (simp_all add: client_def sample_server_def moved_def default_config_def)
  ultimately show ?thesis
    using watch_window [where srv = ?srv and p = ?p and fd = 5 and env' = sample_env and env = sample_env
        and k = "''name''" and s = "''new''", OF _ _ _ _ _ v]
    by (simp add: new_value_def Let_def del: run_machine.simps)
qed

end
