(* ===== verification/Conformance.thy ===== *)
theory Conformance
  imports Transactions Redis_Client
begin

text \<open>
  The expectations of the repository's test drivers (\<open>tests/test_commands.cpp\<close>, \<open>test_database.cpp\<close>,
  \<open>test_resp.cpp\<close>, \<open>test_client.cpp\<close>), evaluated on the model in the order of the drivers.
  Where a driver fixes a key and a value that do not matter, they are variables; of tests that differ only in
  the text of a line one is kept.  The tests of whole and of cut protocol values are instances of the
  round trip and of the prefix property in \<open>Resp\<close>.
\<close>

section \<open>Commands\<close>

text \<open>The fixture: an empty database and one processor without descriptors.\<close>

definition test_server :: "unit server" where
  "test_server = \<lparr>keyspace = empty_db, snapshot = None, clients = [(-1, make_processor (-1) ())], cluster = default_config\<rparr>"

definition test_env :: "unit environment" where
  "test_env = \<lparr>clocks = (\<lambda>_ _. 5), save_opens = (\<lambda>_. True), hash = (\<lambda>k. of_nat (length k)), lua = echo_lua,
      save_daemon_ptr = None\<rparr>"

definition replies :: "RespValue list \<Rightarrow> string option list" where
  "replies cs = fst (process_all test_env (-1) cs test_server)"

definition answers :: "string list list \<Rightarrow> string \<Rightarrow> bool" where
  "answers cs r \<longleftrightarrow> last (replies (map request cs)) = Some r"

lemma string_tests:
  "answers [[''SET'', ''key1'', ''value1'']] (simple_reply ''OK'')"
  "answers [[''SET'', ''key1'', ''value1''], [''GET'', ''key1'']] (bulk_reply ''value1'')"
  "answers [[''GET'', ''nonexistent'']] nil_reply"
  "answers [[''SET'', ''key1'', ''value1''], [''DEL'', ''key1'']] (int_reply 1)"
  "answers [[''SET'', ''key1'', ''value1''], [''DEL'', ''key1''], [''GET'', ''key1'']] nil_reply"
  "answers [[''EXISTS'', ''nonexistent'']] (int_reply 0)"
  "answers [[''SET'', ''key1'', ''value1''], [''EXISTS'', ''key1'']] (int_reply 1)"
  "answers [[''KEYS'']] (''*0'' @ CRLF)"
  "answers [[''SET'', ''key1'', ''value1''], [''TYPE'', ''key1'']] (simple_reply ''string'')"
  "answers [[''TYPE'', ''nonexistent'']] (simple_reply ''none'')"
  by code_simp+

lemma set_get_test: "answers [[''SET'', k, s], [''GET'', k]] (bulk_reply s)"
  by (simp add: answers_def replies_def test_env_def test_server_def process_command_def execute_def on_keyspace_def moved_def
      client_def default_config_def make_processor_def handle_set_def handle_get_def db_defs empty_db_def is_expired_def at_key_def
      new_value_def queued_commands_def expiry_commands_def map_add_def upper_def toupper_def ord_def case_prod_beta Let_def)

lemma keys_test:
  "\<exists>keys. answers [[''SET'', ''key1'', ''val1''], [''SET'', ''key2'', ''val2''], [''KEYS'']] (array_reply keys) \<and>
     set keys = {''key1'', ''key2''}"
  by (rule exI [of _ "[''key1'', ''key2'']"]) code_simp

lemma list_tests:
  "answers [[''LPUSH'', ''list1'', ''item1'', ''item2'', ''item3'']] (int_reply 3)"
  "answers [[''LPUSH'', ''list1'', ''item1'', ''item2'', ''item3''], [''RPOP'', ''list1'']] (bulk_reply ''item1'')"
  "answers [[''RPUSH'', ''list1'', ''item1'', ''item2'', ''item3''], [''LPOP'', ''list1'']] (bulk_reply ''item1'')"
  "answers [[''LPUSH'', ''list1'', ''item1'', ''item2''], [''LLEN'', ''list1'']] (int_reply 2)"
  "answers [[''LLEN'', ''emptylist'']] (int_reply 0)"
  "answers [[''RPUSH'', ''list1'', ''one'', ''two'', ''three'', ''four''], [''LRANGE'', ''list1'', ''1'', ''3'']]
     (array_reply [''two'', ''three'', ''four''])"
  "answers [[''RPUSH'', ''list1'', ''one'', ''two''], [''LRANGE'', ''list1'', ''0'', ''10'']] (array_reply [''one'', ''two''])"
  "answers [[''RPUSH'', ''list1'', ''one'', ''two'', ''three''], [''LINDEX'', ''list1'', ''1'']] (bulk_reply ''two'')"
  "answers [[''RPUSH'', ''list1'', ''one'', ''two'', ''three''], [''LINDEX'', ''list1'', ''-1'']] (bulk_reply ''three'')"
  "answers [[''RPUSH'', ''list1'', ''one'', ''two''], [''LINDEX'', ''list1'', ''10'']] nil_reply"
  by code_simp+

lemma error_tests:
  "answers [[''INVALID'', ''arg1'']] (err ''Unknown command'')"
  "answers [[''SET'', ''key1'']] (err ''SET requires exactly 2 arguments'')"
  "replies [RespValue SimpleString ''not an array'' 0 []] = [Some (err ''Invalid command format'')]"
  "replies [RespValue Array [] 0 [RespValue Integer [] 0 []]] = [Some (err ''Command name must be a bulk string'')]"
  "answers [[''SAVE'']] ok_reply"
  "answers [[''SUBSCRIBE'']] (err ''SUBSCRIBE requires at least 1 channel'')"
  "answers [[''PUBLISH'', ''channel1'']] (err ''PUBLISH requires exactly 2 arguments'')"
  "answers [[''UNSUBSCRIBE'']] (err ''UNSUBSCRIBE from all channels not implemented'')"
  by code_simp+

lemma conflict_and_boundary_tests:
  "answers [[''SET'', ''key1'', ''value1''], [''LPUSH'', ''key1'', ''listitem''], [''TYPE'', ''key1'']] (simple_reply ''list'')"
  "answers [[''SET'', ''key1'', ''value1''], [''LPUSH'', ''key1'', ''listitem''], [''GET'', ''key1'']] nil_reply"
  "answers [[''set'', ''key1'', ''value1''], [''GET'', ''key1'']] (bulk_reply ''value1'')"
  "answers [[''SET'', [], ''value1''], [''GET'', []]] (bulk_reply ''value1'')"
  by code_simp+

lemma pubsub_tests:
  "answers [[''SUBSCRIBE'', ''channel1'']]
     (''*3'' @ CRLF @ bulk_reply ''subscribe'' @ bulk_reply ''channel1'' @ int_reply 1)"
  "answers [[''SUBSCRIBE'', ''chan1'', ''chan2'']]
     (''*3'' @ CRLF @ bulk_reply ''subscribe'' @ bulk_reply ''chan1'' @ int_reply 1 @
      ''*3'' @ CRLF @ bulk_reply ''subscribe'' @ bulk_reply ''chan2'' @ int_reply 1)"
  "answers [[''PUBLISH'', ''channel1'', ''message'']] (int_reply 0)"
  "answers [[''SUBSCRIBE'', ''channel1''], [''UNSUBSCRIBE'', ''channel1'']]
     (''*3'' @ CRLF @ bulk_reply ''unsubscribe'' @ bulk_reply ''channel1'' @ int_reply 0)"
  by code_simp+

section \<open>Database\<close>

lemma database_string_tests:
  "fst (db_set k s empty_db) \<and> fst (db_get t k (snd (db_set k s empty_db))) = s"
  "fst (db_exists t k (snd (db_set k s empty_db))) \<and> fst (db_type t k (snd (db_set k s empty_db))) = String"
  "fst (db_get t k empty_db) = [] \<and> \<not> fst (db_exists t k empty_db) \<and> fst (db_type t k empty_db) = String"
  "let db = snd (db_del k (snd (db_set k s empty_db)))
   in fst (db_del k (snd (db_set k s empty_db))) \<and> \<not> fst (db_exists t k db) \<and> fst (db_get t k db) = []"
  "\<not> fst (db_del k empty_db)"
  "db_keys empty_db = [] \<and> db_keys (snd (db_set k s empty_db)) = [k]"
  "set (db_keys (snd (db_set ''key3'' a (snd (db_set ''key2'' b (snd (db_set ''key1'' c empty_db))))))) =
     {''key1'', ''key2'', ''key3''}"
  by (simp_all add: db_defs empty_db_def is_expired_def at_key_def new_value_def db_keys_def alter_def write_entry_def Let_def
      insert_commute)


definition three_items :: database where
  "three_items = snd (db_rpush ''list_key'' [''item0'', ''item1'', ''item2''] empty_db)"

lemma database_list_tests:
  "fst (db_lpush ''list_key'' [''item1'', ''item2'', ''item3''] empty_db) = 3"
  "fst (db_type 5 ''list_key'' three_items) = List"
  "fst (db_exists 5 ''list_key'' three_items)"
  "fst (db_llen 5 ''list_key'' (snd (db_lpush ''list_key'' [''item3''] (snd (db_lpush ''list_key'' [''item1'', ''item2''] empty_db))))) = 3"
  "fst (db_lpop ''list_key'' (snd (db_lpush ''list_key'' [''item1'', ''item2'', ''item3''] empty_db))) = ''item3''"
  "fst (db_rpop ''list_key'' three_items) = ''item2''"
  "fst (db_llen 5 ''list_key'' (snd (db_rpop ''list_key'' three_items))) = 2"
  "fst (db_lpop ''empty_list'' empty_db) = []"
  "fst (db_rpop ''empty_list'' empty_db) = []"
  "fst (db_llen 5 ''empty_list'' empty_db) = 0"
  "db_lrange ''list_key'' 1 10 three_items = [''item1'', ''item2'']"
  "db_lrange ''list_key'' (-2) (-1) three_items = [''item1'', ''item2'']"
  "db_lrange ''list_key'' 2 1 three_items = []"
  "db_lindex ''list_key'' 1 three_items = ''item1''"
  "db_lindex ''list_key'' (-1) three_items = ''item2''"
  "db_lindex ''list_key'' 10 three_items = []"
  "db_lindex ''empty_list'' 0 empty_db = []"
  "fst (db_get 5 ''list_key'' three_items) = []"
  "fst (db_type 5 ''list_key'' (snd (db_set ''list_key'' ''s'' three_items))) = String"
  "fst (db_llen 5 ''list_key'' (snd (db_set ''list_key'' ''s'' three_items))) = 0"
  by code_simp+

section \<open>Protocol and client\<close>

lemma resp_error_tests:
  "parse (''Xinvalid'' @ CRLF) 0 = Inl (Runtime_error ''Unknown RESP type'')"
  "parse ('':abc'' @ CRLF) 0 = Inl (Runtime_error ''Invalid integer format'')"
  "parse (''$abc'' @ CRLF @ ''hello'' @ CRLF) 0 = Inl (Runtime_error ''Invalid bulk string length'')"
  "parse (''*abc'' @ CRLF) 0 = Inl (Runtime_error ''Invalid array length'')"
  "parse (''$5'' @ CRLF @ ''hello'') 0 = Inl (Runtime_error ''Incomplete bulk string'')"
  "parse [] 0 = Inl (Runtime_error ''Incomplete command'')"
  "parse ''+'' 0 = Inl (Runtime_error ''Incomplete line'')"
  "parse (''$-1'' @ CRLF) 0 = Inr (bulk [], 5)"
  by (simp_all add: parse.simps parse_array.simps parse_integer_def parse_simple_string_def parse_bulk_string_def array_count_def read_line_def
      find_lf.simps mk_string_def max_string_def size_wrap_def stoll_def signed_in_def stoul_def scan_number_def scan_sign_def is_space_def is_digit_def
      read_bulk_string_def digits_val_def digit_val_def CRLF_def Let_def ord_def)

text \<open>The first messages of a client parser that has received some bytes.\<close>

definition messages :: "nat \<Rightarrow> string \<Rightarrow> string list" where
  "messages n bytes = map (\<lambda>i. fst (get_next_message (((snd \<circ> get_next_message) ^^ i) (parser_append bytes (msgs (make_client ''127.0.0.1'' 6379)))))) [0..<n]"

lemma client_tests:
  "messages 2 (''+OK'' @ CRLF @ ''-ERR'' @ CRLF) = [''+OK'' @ CRLF, ''-ERR'' @ CRLF]"
  "messages 3 (''*1'' @ CRLF @ ''$4'' @ CRLF @ ''test'' @ CRLF) = [''*1'' @ CRLF, ''$4'' @ CRLF, ''test'' @ CRLF]"
  "messages 2 (''$0'' @ CRLF @ CRLF) = [''$0'' @ CRLF, CRLF]"
  "messages 1 ''+OK'' = [[]]"
  "messages 1 (''+OK'' @ [LF]) = [[]]"
  "\<not> has_data (parser_clear (parser_append (''+OK'' @ CRLF) (msgs (make_client ''127.0.0.1'' 6379))))"
  "\<not> connected (make_client ''192.168.1.100'' 6380) \<and> \<not> connected (stop_client (make_client ''127.0.0.1'' 6379))"
  "encode_request [''SET'', ''key'', ''value''] =
     ''*3'' @ CRLF @ bulk_reply ''SET'' @ bulk_reply ''key'' @ bulk_reply ''value''"
  "split_words [] = []"
  "split_words (''SET '' @ [CHR 34] @ ''my key'' @ [CHR 34]) = [''SET'', [CHR 34] @ ''my'', ''key'' @ [CHR 34]]"
  by code_simp+

end
