(* ===== verification/Spec2Isabelle.thy ===== *)
theory Spec2Isabelle
  imports Service Tui Data_Properties Store_Handlers Interleaving Conformance
begin

text \<open>
  A verification of MinimalRedis, a small Redis server in C++ with its terminal client.

  \<^bold>\<open>The program.\<close>  The server (\<open>main.cpp\<close>) gives every connection a thread with a receive buffer
  and a \<open>CommandProcessor\<close> (\<open>commands.cpp\<close>).  The thread parses requests (\<open>resp.cpp\<close>) out of the buffer
  and hands them to the processor, which queues them in a transaction, redirects them by the slot
  table (\<open>cluster.cpp\<close>), runs scripts (\<open>lua_scripting.cpp\<close>), serves subscriptions, or calls one of
  the data handlers on the shared \<open>Database\<close> (\<open>db.cpp\<close>, values in \<open>redis_value.h\<close>).  A background
  saver (\<open>save_daemon.cpp\<close>) writes snapshots.  \<open>data_store.cpp\<close> is a second store outside the build;
  \<open>clients/tui/redis_client.cpp\<close> is the client library and \<open>clients/tui/redis_tui.cpp\<close> the terminal client.

  \<^bold>\<open>Theories.\<close>
  \<^item> \<open>Prelude\<close>: machine integers as wrapped ints, the containers of the C++ library (an unordered
    map is an association list with distinct keys; its order stands for the unspecified iteration
    order), index ranges, and the interfaces \<open>codec\<close> and \<open>machine\<close>.
  \<^item> \<open>Cpp_Std\<close>, \<open>Cpp_Double\<close>: characters, \<open>to_string\<close>, \<open>stoi\<close>, \<open>stoll\<close>, \<open>stoul\<close>, exceptions; doubles as
    their 64 bits with comparison, \<open>stod\<close> and \<open>to_string\<close>.
  \<^item> \<open>Resp\<close>: the protocol parser; it inverts the printer in any context, no cut value parses, and
    what it raises for cut input; what it reads depends on the consumed bytes only.
  \<^item> \<open>Redis_Value\<close>, \<open>Pubsub\<close>, \<open>Database\<close>, \<open>Sorted_Set\<close>: stored values, the subscription table and all
    operations of \<open>Database\<close>, each a function of the key's entry (\<open>alter\<close>); \<open>Database_Laws\<close>: operations
    on different keys commute (interface \<open>key_op\<close>), lists are queues and stacks (interfaces
    \<open>fifo\<close>, \<open>lifo\<close>) and sequences under the index operations, sets and hashes refine sets and maps; \<open>Sorted_Set\<close> also relates ranking and
    score map.
  \<^item> \<open>Rdb\<close>: both file formats with writer and loader; what of a keyspace the records carry, and what a complete
    and a cut file load as.
  \<^item> \<open>Commands\<close>: the forty handlers of data commands; \<open>Command_Laws\<close>: each is a \<open>command\<close> (keeps the
    invariant, changes at most the named key, replies with one protocol value), and the command
    tables; \<open>Data_Properties\<close>: what the commands mean to a user.
  \<^item> \<open>Cluster\<close>, \<open>Lua_Scripting\<close>, \<open>Save_Daemon\<close>: slot table, scripting engine, and the saver's worker as
    a step relation with reachable states.
  \<^item> \<open>Processor\<close>: the state of a client's processor and of the server, all other handlers, both
    dispatch chains and \<open>process_command\<close>; \<open>Processor_Laws\<close>: the invariant \<open>server_wf\<close> and the life of a
    transaction; \<open>Transactions\<close>: what a transaction does in one piece, DISCARD, WATCH, and the counters as
    versions (interface \<open>versioned\<close>); \<open>Interleaving\<close>: EXEC as a thread between whose steps other clients'
    commands run, serializable when they stay off its keys (interface \<open>local_command\<close>).
  \<^item> \<open>Server\<close>: the connection loop as a machine of events (accept, read, one iteration of the scan
    loop, notification, failure, periodic save) in which the clients interleave freely;
    \<open>Server_Laws\<close>: bounded buffers and the invariant in every reachable state, service of
    pipelined and split requests in order, termination of the scan loop, delivery of published
    messages, isolation of clients, and the inputs that close a connection or end the process.
  \<^item> \<open>Runtime\<close>: the process, that is \<open>main\<close> with its socket set-up, the threads of the clients and the
    worker of the saver on one keyspace (a product of the machines of \<open>Server\<close> and \<open>Save_Daemon\<close>); its
    invariant in every interleaving, the progress of the saver, and what a restart finds.
  \<^item> \<open>Service\<close>: what the server promises, as a labelled step relation without buffers and threads, and the
    simulation: every interleaving of the process is a run of the service with the same output, in which
    the commands of a client are exactly the values that the bytes received from it spell.
  \<^item> \<open>Data_Store\<close>, \<open>Store_Handlers\<close>: the second store and its handlers; its versions never repeat, whatever
    handlers are called, and its list handlers refine sequences.
  \<^item> \<open>Redis_Client\<close>: the client library; client and server joined by a connection stay in step over any
    sequence of typed lines, with any white space around the words, that have one-line replies.
  \<^item> \<open>Tui\<close>: the views, the menu loop and \<open>main\<close> of the terminal client over a keyboard stream (with its
    state bits) and the results of the system calls; the bounds of what it keeps (interface
    \<open>machine\<close>; the responses and the parser's buffer grow with the exchanges), its pages show all pairs, its monitor returns, and which replies its views cannot
    read.
  \<^item> \<open>Conformance\<close>: the expectations of the drivers under \<open>tests/\<close>, evaluated on the model; it meets all of them.

  \<^bold>\<open>Correspondence.\<close>  A definition has the name of the function it models; operations of \<open>Database\<close>
  carry the prefix \<open>db_\<close>, those of \<open>DataStore\<close> the prefix \<open>store_\<close>, those of its handlers the type.
  Objects are records passed and returned.  Exceptions are the left side of a sum.  The reply
  \<open>None\<close> of \<open>process_command\<close> and the field \<open>aborted\<close> stand for the end of the process.  The clock, the
  results of system calls, random draws, \<open>std::hash\<close> and the Lua interpreter are arguments; a script's run is the
  finite tree of its calls of functions of the table \<open>redis\<close>, so a script that does not end has no run, and what
  a script does through other Lua libraries is not seen.
  Constructors that \<open>data_store.cpp\<close> calls and \<open>RedisValue\<close> does not declare are arguments of the handlers.  All loops of the
  server are total functions with termination proofs and no fuel is used; the two loops of the
  terminal client that depend on the keyboard are partial functions into \<open>option\<close>, with proofs of
  when they return and when they do not.  Integers are kept at their width
  where they can wrap: \<open>size_t\<close> and \<open>int\<close> index arithmetic, modification counters, expiry times.

  \<^bold>\<open>Where the code departs from its intent.\<close>  Proved are, among others: a snapshot that was saved
  is not loaded and the next save overwrites it (\<open>restart_loses_data\<close>), a save that is cut off has emptied the
  file of the last one (\<open>interrupted_save_loses_data\<close>), a negative count and a script that fails with
  a table end the server (\<open>negative_count_ends_server\<close>, \<open>script_error_ends_server\<close>), a request cut inside an element closes the connection
  (\<open>cut_element_closes\<close>), subscriptions outlive their connection
  (\<open>subscription_outlives_connection\<close>), WATCH misses a deletion followed by a write and the writes
  of scripts (\<open>watch_misses_delete_and_set\<close>, \<open>script_write_not_counted\<close>) and, as EXEC takes no lock, a write
  that comes after its test (\<open>watch_window\<close>), HSET can change a hash without counting it
  (\<open>hset_change_not_counted\<close>), expired keys are still shown by several commands
  (\<open>expired_still_readable\<close>), SET on an expired key is lost
  (\<open>set_on_expired_key_is_lost\<close>), ranks repeat on equal scores (\<open>zrank_repeats_on_ties\<close>), transactions
  refuse the expiry commands and ignore redirections, a stop request of the saver can be missed,
  script identifiers collide, the check of scripts misses a renamed library (\<open>validate_misses_alias\<close>), the second store's ZREVRANK is its ZRANK and its ZADD loses
  members with equal scores (\<open>zadd_loses_equal_scores\<close>), and the terminal client
  finds no keys (\<open>browser_stays_empty\<close>), finds no server information (\<open>monitor_stays_empty\<close>), can be
  ended with status 1 by a stored value (\<open>stored_value_ends_client\<close>) and does not end with its input
  (\<open>menu_never_ends_without_input\<close>).

  \<^bold>\<open>Not modelled.\<close>  Data races inside a command: except for EXEC in \<open>Interleaving\<close>, every command is processed
  in one piece, although \<open>Database\<close> has no lock; no theorem claims that commands are atomic.  Races inside a save:
  \<open>save_rdb\<close> empties the file and streams the records while other threads run, here it is one step of the
  saver or of SAVE, so that an incomplete file after an abort and two saves at once are not states of the
  machines, and no theorem claims that the file is complete at every moment.  The effects of scripts through \<open>os\<close> and \<open>io\<close>,
  which the check of scripts does not keep out.  Short writes, signals (a write to a closed connection raises SIGPIPE) and failed
  allocations.  Log output and the five-second pause after a failed save, which have no result the
  program uses.  The fixed texts that the terminal client prints.  \<open>smembers\<close> and \<open>spop\<close> of
  \<open>data_store.cpp\<close>, which use a set as a vector and have no meaning; its memory pool, which nothing
  calls; \<open>interfaces.h\<close> and \<open>optimized_store.h\<close>, which only declare.
\<close>

end
